(* ===== verification/Flexd_Prelude.thy ===== *)
theory Flexd_Prelude
  imports Main "HOL-Library.Word" "HOL-Library.Sublist"
begin

text \<open>
  Shared ground of the development: names for the machine integers, the result types, the
  checks that stop at the first error, and the parts of the Rust standard library the sources
  use on strings. A Rust \<^verbatim>\<open>str\<close> is modelled by its UTF-8 bytes, one \<^typ>\<open>char\<close> per byte:
  \<^verbatim>\<open>len\<close>, slicing, \<^verbatim>\<open>contains\<close>, \<^verbatim>\<open>starts_with\<close> and \<^verbatim>\<open>strip_prefix\<close> are operations on bytes in
  Rust too. A slice that does not lie on character boundaries panics, and panics are a branch
  of the model.
\<close>

section \<open>Proof collections\<close>

named_theorems check_ok \<open>when a check or a sequence of checks passes\<close>
named_theorems std_str \<open>facts on the string operations of the standard library\<close>

section \<open>Types\<close>

type_synonym u8 = "8 word"
type_synonym u16 = "16 word"
type_synonym u32 = "32 word"
type_synonym u64 = "64 word"
type_synonym usize = "64 word"

text \<open>Instants and durations, in nanoseconds.\<close>

type_synonym instant = nat
type_synonym duration = nat

definition from_secs :: "nat \<Rightarrow> duration" where
  "from_secs n = n * 1000000000"

text \<open>What a call that may panic gives: its value, its error, or a panic.\<close>

datatype ('e, 'a) outcome = Ok 'a | Err 'e | Panic

definition out_bind :: "('e, 'a) outcome \<Rightarrow> ('a \<Rightarrow> ('e, 'b) outcome) \<Rightarrow> ('e, 'b) outcome" where
  "out_bind m f = (case m of Ok x \<Rightarrow> f x | Err e \<Rightarrow> Err e | Panic \<Rightarrow> Panic)"

lemma out_bind_simps [simp]:
  "out_bind (Ok x) f = f x" "out_bind (Err e) f = Err e" "out_bind Panic f = Panic"
  by (simp_all add: out_bind_def)

lemma out_bind_Ok_iff [check_ok]:
  "out_bind m f = Ok y \<longleftrightarrow> (\<exists>x. m = Ok x \<and> f x = Ok y)"
  by (cases m) auto

section \<open>Checks that stop at the first error\<close>

text \<open>
  \<^verbatim>\<open>bail!\<close> and \<^verbatim>\<open>?\<close> in a function returning \<^verbatim>\<open>Result<()>\<close>: \<open>Inl\<close> the first error, \<open>Inr ()\<close> when
  every check passed.
\<close>

type_synonym 'e check = "'e + unit"

definition ensure :: "bool \<Rightarrow> 'e \<Rightarrow> 'e check" where
  "ensure b e = (if b then Inr () else Inl e)"

definition andthen :: "'e check \<Rightarrow> 'e check \<Rightarrow> 'e check" where
  "andthen a b = (case a of Inl e \<Rightarrow> Inl e | Inr _ \<Rightarrow> b)"

fun for_each :: "('a \<Rightarrow> 'e check) \<Rightarrow> 'a list \<Rightarrow> 'e check" where
  "for_each f [] = Inr ()"
| "for_each f (x # xs) = andthen (f x) (for_each f xs)"

definition for_opt :: "('a \<Rightarrow> 'e check) \<Rightarrow> 'a option \<Rightarrow> 'e check" where
  "for_opt f m = (case m of None \<Rightarrow> Inr () | Some x \<Rightarrow> f x)"

fun checks :: "'e check list \<Rightarrow> 'e check" where
  "checks [] = Inr ()"
| "checks (c # cs) = andthen c (checks cs)"

lemma ensure_ok [check_ok]: "ensure b e = Inr u \<longleftrightarrow> b"
  by (simp add: ensure_def)

lemma andthen_ok [check_ok]: "andthen a b = Inr u \<longleftrightarrow> a = Inr () \<and> b = Inr ()"
  by (cases a) (auto simp: andthen_def)

lemma for_each_ok [check_ok]: "for_each f xs = Inr u \<longleftrightarrow> (\<forall>x\<in>set xs. f x = Inr ())"
  by (induction xs) (auto simp: andthen_ok)

lemma for_opt_ok [check_ok]: "for_opt f m = Inr u \<longleftrightarrow> (\<forall>x. m = Some x \<longrightarrow> f x = Inr ())"
  by (cases m) (auto simp: for_opt_def)

lemma checks_ok [check_ok]: "checks cs = Inr u \<longleftrightarrow> (\<forall>c\<in>set cs. c = Inr ())"
  by (induction cs) (auto simp: andthen_ok)

lemma for_each_first_error:
  assumes "for_each f xs = Inl e"
  shows "\<exists>ys x zs. xs = ys @ x # zs \<and> f x = Inl e \<and> (\<forall>y\<in>set ys. f y = Inr ())"
  using assms
proof (induction xs)
  case Nil
  then show ?case by simp
next
  case (Cons a xs)
  show ?case
  proof (cases "f a")
    case (Inl b)
    with Cons.prems have "f a = Inl e" by (simp add: andthen_def)
    then show ?thesis by (intro exI [of _ "[]"] exI [of _ a] exI [of _ xs]) simp
  next
    case (Inr b)
    with Cons.prems have "for_each f xs = Inl e" by (simp add: andthen_def)
    with Cons.IH obtain ys x zs
      where "xs = ys @ x # zs" "f x = Inl e" "\<forall>y\<in>set ys. f y = Inr ()" by blast
    with Inr show ?thesis by (intro exI [of _ "a # ys"] exI [of _ x] exI [of _ zs]) simp
  qed
qed

section \<open>Bytes, ASCII and UTF-8\<close>

abbreviation code :: "char \<Rightarrow> nat" where
  "code c \<equiv> of_char c"

abbreviation byte :: "nat \<Rightarrow> char" where
  "byte n \<equiv> char_of n"

definition is_ascii :: "char \<Rightarrow> bool" where
  "is_ascii c \<longleftrightarrow> code c < 128"

definition ascii_lower :: "char \<Rightarrow> char" where
  "ascii_lower c = (if 65 \<le> code c \<and> code c \<le> 90 then byte (code c + 32) else c)"

definition ascii_upper :: "char \<Rightarrow> char" where
  "ascii_upper c = (if 97 \<le> code c \<and> code c \<le> 122 then byte (code c - 32) else c)"

definition to_ascii_lowercase :: "string \<Rightarrow> string" where
  "to_ascii_lowercase s = map ascii_lower s"

definition eq_ignore_ascii_case :: "string \<Rightarrow> string \<Rightarrow> bool" where
  "eq_ignore_ascii_case a b \<longleftrightarrow> map ascii_lower a = map ascii_lower b"

text \<open>
  \<^verbatim>\<open>str::to_lowercase\<close> and \<^verbatim>\<open>str::to_uppercase\<close> map ASCII bytes by the ASCII rule and every other
  character by the Unicode tables of the standard library. The tables are a parameter: for the
  byte at position \<open>i\<close> of \<open>s\<close> (a byte of a character that is not ASCII) they give the bytes the
  result has in its place.
\<close>

type_synonym case_table = "string \<Rightarrow> nat \<Rightarrow> string"

definition recase :: "(char \<Rightarrow> char) \<Rightarrow> case_table \<Rightarrow> string \<Rightarrow> string" where
  "recase f T s =
     concat (map (\<lambda>i. if is_ascii (s ! i) then [f (s ! i)] else T s i) [0..<length s])"

definition to_lowercase :: "case_table \<Rightarrow> string \<Rightarrow> string" where
  "to_lowercase T s = recase ascii_lower T s"

definition to_uppercase :: "case_table \<Rightarrow> string \<Rightarrow> string" where
  "to_uppercase T s = recase ascii_upper T s"

lemma recase_ascii:
  assumes "list_all is_ascii s"
  shows "recase f T s = map f s"
proof -
  have "map (\<lambda>i. if is_ascii (s ! i) then [f (s ! i)] else T s i) [0..<length s]
      = map (\<lambda>i. [f (s ! i)]) [0..<length s]"
    using assms by (auto simp: list_all_length)
  also have "concat \<dots> = map (\<lambda>i. f (s ! i)) [0..<length s]"
    by (rule concat_map_singleton)
  also have "\<dots> = map f s"
    by (rule nth_equalityI) simp_all
  finally show ?thesis by (simp add: recase_def)
qed

lemma recase_ascii_infix:
  assumes "list_all is_ascii p"
  shows "\<exists>a' b'. recase f T (a @ p @ b) = a' @ map f p @ b'"
proof -
  let ?s = "a @ p @ b"
  let ?g = "\<lambda>i. if is_ascii (?s ! i) then [f (?s ! i)] else T ?s i"
  have split: "[0..<length ?s] = [0..<length a] @ map (\<lambda>i. i + length a) [0..<length p]
      @ [length a + length p..<length ?s]"
    using upt_add_eq_append [of 0 "length a" "length p + length b"]
      upt_add_eq_append [of "length a" "length a + length p" "length b"]
    by (simp add: map_add_upt add.assoc add.commute [of "length p" "length a"])
  have "map (\<lambda>i. ?g (i + length a)) [0..<length p] = map (\<lambda>i. [f (p ! i)]) [0..<length p]"
    using assms by (auto simp: list_all_length nth_append)
  then have mid: "concat (map (\<lambda>i. ?g (i + length a)) [0..<length p]) = map f p"
    by (simp only: concat_map_singleton) (rule nth_equalityI, simp_all)
  have "recase f T ?s = concat (map ?g [0..<length a])
      @ concat (map (\<lambda>i. ?g (i + length a)) [0..<length p])
      @ concat (map ?g [length a + length p..<length ?s])"
    unfolding recase_def split by (simp only: map_append concat_append map_map comp_def)
  then show ?thesis unfolding mid by blast
qed

text \<open>A byte that continues a character, and the boundaries at which a slice may start or end.\<close>

definition is_cont :: "char \<Rightarrow> bool" where
  "is_cont c \<longleftrightarrow> 128 \<le> code c \<and> code c < 192"

definition is_char_boundary :: "string \<Rightarrow> nat \<Rightarrow> bool" where
  "is_char_boundary s i \<longleftrightarrow> i = 0 \<or> i = length s \<or> i < length s \<and> \<not> is_cont (s ! i)"

text \<open>\<^verbatim>\<open>&s[i..j]\<close>: \<open>None\<close> is the panic of a slice off the character boundaries or out of range.\<close>

definition str_slice :: "string \<Rightarrow> nat \<Rightarrow> nat \<Rightarrow> string option" where
  "str_slice s i j =
     (if i \<le> j \<and> is_char_boundary s i \<and> is_char_boundary s j
      then Some (take (j - i) (drop i s)) else None)"

text \<open>
  Well-formed UTF-8 (RFC 3629): the number of continuation bytes after a lead byte, and the
  range of the first of them, which excludes overlong forms and surrogates.
\<close>

definition utf8_lead :: "nat \<Rightarrow> (nat \<times> nat \<times> nat) option" where
  "utf8_lead a =
     (if a < 128 then Some (0, 0, 0)
      else if a < 194 then None
      else if a < 224 then Some (1, 128, 191)
      else if a = 224 then Some (2, 160, 191)
      else if a = 237 then Some (2, 128, 159)
      else if a < 240 then Some (2, 128, 191)
      else if a = 240 then Some (3, 144, 191)
      else if a < 244 then Some (3, 128, 191)
      else if a = 244 then Some (3, 128, 143)
      else None)"

function utf8_valid :: "string \<Rightarrow> bool" where
  "utf8_valid [] = True"
| "utf8_valid (c # s) =
     (case utf8_lead (code c) of
        None \<Rightarrow> False
      | Some (n, lo, hi) \<Rightarrow>
          n \<le> length s \<and> list_all is_cont (take n s)
          \<and> (0 < n \<longrightarrow> lo \<le> code (s ! 0) \<and> code (s ! 0) \<le> hi)
          \<and> utf8_valid (drop n s))"
  by pat_completeness auto
termination
  by (relation "measure length") auto

lemma utf8_valid_ascii: "list_all is_ascii s \<Longrightarrow> utf8_valid s"
  by (induction s) (simp_all add: is_ascii_def utf8_lead_def)

section \<open>Other operations of the standard library\<close>

abbreviation str_contains :: "string \<Rightarrow> string \<Rightarrow> bool" where
  "str_contains s p \<equiv> sublist p s"

abbreviation starts_with :: "string \<Rightarrow> string \<Rightarrow> bool" where
  "starts_with s p \<equiv> prefix p s"

abbreviation ends_with :: "string \<Rightarrow> string \<Rightarrow> bool" where
  "ends_with s p \<equiv> suffix p s"

definition strip_prefix :: "string \<Rightarrow> string \<Rightarrow> string option" where
  "strip_prefix s p = (if prefix p s then Some (drop (length p) s) else None)"

lemma strip_prefix_Some [std_str]: "strip_prefix s p = Some r \<longleftrightarrow> s = p @ r"
  by (auto simp: strip_prefix_def prefix_def)

text \<open>\<^verbatim>\<open>find(c)\<close>: the position of the first such byte.\<close>

fun find_char :: "char \<Rightarrow> string \<Rightarrow> nat option" where
  "find_char c [] = None"
| "find_char c (x # xs) = (if x = c then Some 0 else map_option Suc (find_char c xs))"

lemma find_char_None [std_str]: "find_char c s = None \<longleftrightarrow> c \<notin> set s"
  by (induction s) auto

lemma find_char_append [std_str]:
  "c \<notin> set a \<Longrightarrow> find_char c (a @ c # b) = Some (length a)"
  by (induction a) auto

lemma find_char_Some:
  "find_char c s = Some i \<Longrightarrow> i < length s \<and> s ! i = c \<and> c \<notin> set (take i s)"
  by (induction s arbitrary: i) (auto split: if_splits)

text \<open>\<^verbatim>\<open>rsplit_once(c)\<close>: the parts before and after the last such byte.\<close>

definition rsplit_once :: "char \<Rightarrow> string \<Rightarrow> (string \<times> string) option" where
  "rsplit_once c s =
     (case find_char c (rev s) of
        None \<Rightarrow> None
      | Some i \<Rightarrow> Some (take (length s - Suc i) s, drop (length s - i) s))"

lemma rsplit_once_None [std_str]: "rsplit_once c s = None \<longleftrightarrow> c \<notin> set s"
  by (simp add: rsplit_once_def find_char_None split: option.splits)
     (metis find_char_None not_None_eq set_rev)

lemma rsplit_once_append [std_str]:
  assumes "c \<notin> set b"
  shows "rsplit_once c (a @ c # b) = Some (a, b)"
proof -
  have "find_char c (rev (a @ c # b)) = Some (length b)"
    using assms find_char_append [of c "rev b" "rev a"] by simp
  then show ?thesis by (simp add: rsplit_once_def)
qed

text \<open>\<^verbatim>\<open>split(c)\<close>: never empty.\<close>

fun split_char :: "char \<Rightarrow> string \<Rightarrow> string list" where
  "split_char c [] = [[]]"
| "split_char c (x # xs) =
     (if x = c then [] # split_char c xs
      else (case split_char c xs of [] \<Rightarrow> [[x]] | p # ps \<Rightarrow> (x # p) # ps))"

text \<open>
  \<^verbatim>\<open>from_str_radix\<close> and \<^verbatim>\<open>parse\<close> of an unsigned integer below \<open>bound\<close>: an optional leading plus
  sign, then one or more digits, no overflow.
\<close>

definition digit_val :: "char \<Rightarrow> nat option" where
  "digit_val c =
     (let n = code c in
      if 48 \<le> n \<and> n \<le> 57 then Some (n - 48)
      else if 97 \<le> n \<and> n \<le> 122 then Some (n - 87)
      else if 65 \<le> n \<and> n \<le> 90 then Some (n - 55)
      else None)"

definition to_digit :: "nat \<Rightarrow> char \<Rightarrow> nat option" where
  "to_digit radix c =
     (case digit_val c of None \<Rightarrow> None | Some d \<Rightarrow> if d < radix then Some d else None)"

fun digits_from :: "nat \<Rightarrow> nat \<Rightarrow> nat \<Rightarrow> string \<Rightarrow> nat option" where
  "digits_from bound radix acc [] = Some acc"
| "digits_from bound radix acc (c # cs) =
     (case to_digit radix c of
        None \<Rightarrow> None
      | Some d \<Rightarrow>
          if acc * radix + d < bound then digits_from bound radix (acc * radix + d) cs
          else None)"

definition uint_from_str_radix :: "nat \<Rightarrow> nat \<Rightarrow> string \<Rightarrow> nat option" where
  "uint_from_str_radix bound radix s =
     (let ds = (case s of c # cs \<Rightarrow> (if c = CHR ''+'' then cs else s) | [] \<Rightarrow> [])
      in if ds = [] then None else digits_from bound radix 0 ds)"

definition parse_u16 :: "string \<Rightarrow> u16 option" where
  "parse_u16 s = map_option of_nat (uint_from_str_radix (2 ^ 16) 10 s)"

definition parse_usize :: "string \<Rightarrow> usize option" where
  "parse_usize s = map_option of_nat (uint_from_str_radix (2 ^ 64) 10 s)"

definition parse_u64 :: "string \<Rightarrow> u64 option" where
  "parse_u64 s = map_option of_nat (uint_from_str_radix (2 ^ 64) 10 s)"

definition u8_from_hex :: "string \<Rightarrow> nat option" where
  "u8_from_hex s = uint_from_str_radix 256 16 s"

lemma digits_from_less: "digits_from bound radix acc s = Some n \<Longrightarrow> acc < bound \<Longrightarrow> n < bound"
  by (induction s arbitrary: acc) (auto split: option.splits if_splits)

lemma u8_from_hex_less: "u8_from_hex s = Some n \<Longrightarrow> n < 256"
  by (auto simp: u8_from_hex_def uint_from_str_radix_def Let_def
      simp del: digits_from.simps split: if_splits list.splits dest: digits_from_less)

text \<open>
  \<^verbatim>\<open>trim\<close>: the characters of Unicode property White_Space, each as its bytes.
\<close>

definition ws_chars :: "string list" where
  "ws_chars =
     map (\<lambda>n. [byte n]) [9, 10, 11, 12, 13, 32]
     @ [[byte 194, byte 133], [byte 194, byte 160], [byte 225, byte 154, byte 128]]
     @ map (\<lambda>n. [byte 226, byte 128, byte n]) ([128..<139] @ [168, 169, 175])
     @ [[byte 226, byte 129, byte 159], [byte 227, byte 128, byte 128]]"

lemma ws_chars_nonempty: "w \<in> set ws_chars \<Longrightarrow> w \<noteq> []"
  by (auto simp: ws_chars_def)

function trim_start_with :: "string list \<Rightarrow> string \<Rightarrow> string" where
  "trim_start_with ws s =
     (case find (\<lambda>w. w \<noteq> [] \<and> prefix w s) ws of
        None \<Rightarrow> s
      | Some w \<Rightarrow> trim_start_with ws (drop (length w) s))"
  by pat_completeness auto
termination
proof (relation "measure (\<lambda>(ws, s). length s)")
  show "wf (measure (\<lambda>(ws, s). length s))" by simp
next
  fix ws :: "string list" and s w
  assume "find (\<lambda>w. w \<noteq> [] \<and> prefix w s) ws = Some w"
  then have "w \<noteq> [] \<and> prefix w s" by (auto simp: find_Some_iff)
  then show "((ws, drop (length w) s), (ws, s)) \<in> measure (\<lambda>(ws, s). length s)"
    by (auto simp: prefix_def)
qed

declare trim_start_with.simps [simp del]

definition trim :: "string \<Rightarrow> string" where
  "trim s = rev (trim_start_with (map rev ws_chars) (rev (trim_start_with ws_chars s)))"

lemma trim_start_with_Cons:
  "\<forall>w\<in>set ws. w \<noteq> [] \<longrightarrow> hd w \<noteq> c \<Longrightarrow> trim_start_with ws (c # s) = c # s"
proof -
  assume "\<forall>w\<in>set ws. w \<noteq> [] \<longrightarrow> hd w \<noteq> c"
  then have "find (\<lambda>w. w \<noteq> [] \<and> prefix w (c # s)) ws = None"
    by (auto simp: find_None_iff prefix_Cons)
  then show ?thesis by (simp add: trim_start_with.simps)
qed

lemma ws_chars_ends:
  "w \<in> set ws_chars \<Longrightarrow> (code (hd w) \<le> 32 \<or> 128 \<le> code (hd w)) \<and> (code (last w) \<le> 32 \<or> 128 \<le> code (last w))"
  by (auto simp: ws_chars_def take_bit_eq_mod)

lemma trim_visible [std_str]:
  assumes "32 < code c" "code c < 128" "32 < code d" "code d < 128"
  shows "trim (c # s @ [d]) = c # s @ [d]" "trim [c] = [c]"
proof -
  have a: "trim_start_with ws_chars (c # t) = c # t" for t
    using assms(1,2) by (intro trim_start_with_Cons) (auto dest: ws_chars_ends)
  have "trim_start_with (map rev ws_chars) (x # t) = x # t" if "32 < code x" "code x < 128" for x t
    using that by (intro trim_start_with_Cons) (auto dest: ws_chars_ends simp: hd_rev)
  from a this [of d] this [of c] assms show "trim (c # s @ [d]) = c # s @ [d]" "trim [c] = [c]"
    by (simp_all add: trim_def)
qed

text \<open>\<^verbatim>\<open>chars()\<close>: the characters of a string, each as its bytes.\<close>

definition utf8_width :: "char \<Rightarrow> nat" where
  "utf8_width c =
     (if code c < 192 then 1 else if code c < 224 then 2 else if code c < 240 then 3 else 4)"

function str_chars :: "string \<Rightarrow> string list" where
  "str_chars [] = []"
| "str_chars (c # s) = take (utf8_width c) (c # s) # str_chars (drop (utf8_width c) (c # s))"
  by pat_completeness auto
termination
  by (relation "measure length") (auto simp: utf8_width_def)

lemma concat_str_chars: "concat (str_chars s) = s"
  by (induction s rule: str_chars.induct) simp_all

section \<open>Words\<close>

lemma unat_of_nat_small: "n < 2 ^ LENGTH('a::len) \<Longrightarrow> unat (of_nat n :: 'a word) = n"
  by (simp add: unsigned_of_nat take_bit_nat_eq_self del: of_nat_eq_iff)

lemma unat_u8_less: "unat (w :: u8) < 256"
  using unsigned_less [of w] by simp

lemma unat_u16_less: "unat (w :: u16) < 65536"
  using unsigned_less [of w] by simp

lemma unat_u32_less: "unat (w :: u32) < 2 ^ 32"
  using unsigned_less [of w] by simp

lemma unat_u64_less: "unat (w :: u64) < 2 ^ 64"
  using unsigned_less [of w] by simp

unbundle bit_operations_syntax

lemma unat_and_not_mask: "unat ((w::'a::len word) AND NOT (mask n)) = (unat w div 2 ^ n) * 2 ^ n"
proof -
  have "w AND NOT (mask n) = push_bit n (drop_bit n w)"
    by (rule bit_eqI) (auto simp: bit_simps)
  also have "\<dots> = w - take_bit n w"
    using bits_ident [of n w] by (metis add_diff_cancel_right')
  finally have eq: "w AND NOT (mask n) = w - take_bit n w" .
  have "unat (take_bit n w) = take_bit n (unat w)" by (rule unsigned_take_bit_eq)
  also have "\<dots> = unat w mod 2 ^ n" by (rule take_bit_eq_mod)
  finally have t: "unat (take_bit n w) = unat w mod 2 ^ n" .
  then have "take_bit n w \<le> w" unfolding word_le_nat_alt by (simp only: mod_less_eq_dividend)
  then have "unat (w - take_bit n w) = unat w - unat w mod 2 ^ n"
    by (simp only: unat_sub t)
  then show ?thesis unfolding eq by (simp only: minus_mod_eq_div_mult)
qed

section \<open>Lists\<close>

lemma sublistE:
  assumes "sublist p s"
  obtains a b where "s = a @ p @ b"
  using assms by (auto simp: sublist_def)

end
