(* ===== verification/Net_Addr.thy ===== *)
theory Net_Addr
  imports Flexd_Prelude
begin

unbundle bit_operations_syntax

text \<open>
  The part of \<^verbatim>\<open>std::net\<close> the sources use: IP addresses, their classification predicates, the
  parser behind \<^verbatim>\<open>str::parse::<IpAddr>()\<close> and the printing of an IPv4 address. The lemmas say
  that parsing a printed IPv4 address gives it back and that a parsed literal has no colon when
  it is IPv4.
\<close>

section \<open>Addresses\<close>

datatype ipv4_addr = Ipv4 u8 u8 u8 u8

datatype ipv6_addr = Ipv6 u16 u16 u16 u16 u16 u16 u16 u16

datatype ip_addr = V4 ipv4_addr | V6 ipv6_addr

type_synonym socket_addr = "ip_addr \<times> u16"

fun octets :: "ipv4_addr \<Rightarrow> u8 list" where
  "octets (Ipv4 a b c d) = [a, b, c, d]"

fun segments :: "ipv6_addr \<Rightarrow> u16 list" where
  "segments (Ipv6 a b c d e f g h) = [a, b, c, d, e, f, g, h]"

definition u16_from_be_bytes :: "u8 \<Rightarrow> u8 \<Rightarrow> u16" where
  "u16_from_be_bytes a b = of_nat (unat a * 256 + unat b)"

fun of_segments :: "u16 list \<Rightarrow> ipv6_addr option" where
  "of_segments [a, b, c, d, e, f, g, h] = Some (Ipv6 a b c d e f g h)"
| "of_segments _ = None"

section \<open>Classification\<close>

fun v4_is_private :: "ipv4_addr \<Rightarrow> bool" where
  "v4_is_private (Ipv4 a b c d) \<longleftrightarrow>
     a = 10 \<or> a = 172 \<and> 16 \<le> b \<and> b \<le> 31 \<or> a = 192 \<and> b = 168"

fun v4_is_loopback :: "ipv4_addr \<Rightarrow> bool" where
  "v4_is_loopback (Ipv4 a b c d) \<longleftrightarrow> a = 127"

fun v4_is_link_local :: "ipv4_addr \<Rightarrow> bool" where
  "v4_is_link_local (Ipv4 a b c d) \<longleftrightarrow> a = 169 \<and> b = 254"

fun v4_is_multicast :: "ipv4_addr \<Rightarrow> bool" where
  "v4_is_multicast (Ipv4 a b c d) \<longleftrightarrow> 224 \<le> a \<and> a \<le> 239"

fun v4_is_broadcast :: "ipv4_addr \<Rightarrow> bool" where
  "v4_is_broadcast (Ipv4 a b c d) \<longleftrightarrow> a = 255 \<and> b = 255 \<and> c = 255 \<and> d = 255"

fun v4_is_unspecified :: "ipv4_addr \<Rightarrow> bool" where
  "v4_is_unspecified (Ipv4 a b c d) \<longleftrightarrow> a = 0 \<and> b = 0 \<and> c = 0 \<and> d = 0"

fun v4_is_documentation :: "ipv4_addr \<Rightarrow> bool" where
  "v4_is_documentation (Ipv4 a b c d) \<longleftrightarrow>
     a = 192 \<and> b = 0 \<and> c = 2 \<or> a = 198 \<and> b = 51 \<and> c = 100 \<or> a = 203 \<and> b = 0 \<and> c = 113"

fun v6_is_loopback :: "ipv6_addr \<Rightarrow> bool" where
  "v6_is_loopback (Ipv6 a b c d e f g h) \<longleftrightarrow>
     a = 0 \<and> b = 0 \<and> c = 0 \<and> d = 0 \<and> e = 0 \<and> f = 0 \<and> g = 0 \<and> h = 1"

fun v6_is_unspecified :: "ipv6_addr \<Rightarrow> bool" where
  "v6_is_unspecified (Ipv6 a b c d e f g h) \<longleftrightarrow>
     a = 0 \<and> b = 0 \<and> c = 0 \<and> d = 0 \<and> e = 0 \<and> f = 0 \<and> g = 0 \<and> h = 0"

fun v6_is_multicast :: "ipv6_addr \<Rightarrow> bool" where
  "v6_is_multicast (Ipv6 a b c d e f g h) \<longleftrightarrow> a AND 0xff00 = 0xff00"

definition hi_byte :: "u16 \<Rightarrow> u8" where
  "hi_byte w = of_nat (unat w div 256)"

definition lo_byte :: "u16 \<Rightarrow> u8" where
  "lo_byte w = of_nat (unat w mod 256)"

text \<open>\<^verbatim>\<open>to_ipv4_mapped\<close>: the embedded address of \<^verbatim>\<open>::ffff:a.b.c.d\<close>.\<close>

fun to_ipv4_mapped :: "ipv6_addr \<Rightarrow> ipv4_addr option" where
  "to_ipv4_mapped (Ipv6 a b c d e f g h) =
     (if a = 0 \<and> b = 0 \<and> c = 0 \<and> d = 0 \<and> e = 0 \<and> f = 0xffff
      then Some (Ipv4 (hi_byte g) (lo_byte g) (hi_byte h) (lo_byte h)) else None)"

fun to_ipv6_mapped :: "ipv4_addr \<Rightarrow> ipv6_addr" where
  "to_ipv6_mapped (Ipv4 a b c d) =
     Ipv6 0 0 0 0 0 0xffff (u16_from_be_bytes a b) (u16_from_be_bytes c d)"

lemma unat_u16_from_be_bytes: "unat (u16_from_be_bytes a b) = unat a * 256 + unat b"
proof -
  have "unat a < 256" "unat b < 256" by (rule unat_u8_less)+
  then have "unat a * 256 + unat b < 2 ^ LENGTH(16)" by simp
  then show ?thesis unfolding u16_from_be_bytes_def by (rule unat_of_nat_small)
qed

lemma be_bytes_inverse [simp]:
  "hi_byte (u16_from_be_bytes a b) = a" "lo_byte (u16_from_be_bytes a b) = b"
proof -
  have "unat b < 256" by (rule unat_u8_less)
  then show "hi_byte (u16_from_be_bytes a b) = a" "lo_byte (u16_from_be_bytes a b) = b"
    by (simp_all add: hi_byte_def lo_byte_def unat_u16_from_be_bytes)
qed

lemma to_ipv4_mapped_of_mapped [simp]: "to_ipv4_mapped (to_ipv6_mapped v) = Some v"
  by (cases v) simp

section \<open>Parsing\<close>

text \<open>
  The standard parser reads from the front of the bytes that are left and gives what it read
  and the rest; \<open>None\<close> leaves the position where it was.
\<close>

type_synonym 'a reader = "string \<Rightarrow> ('a \<times> string) option"

fun read_digits :: "nat \<Rightarrow> nat \<Rightarrow> nat \<Rightarrow> nat \<Rightarrow> nat \<Rightarrow> string \<Rightarrow> (nat \<times> nat \<times> string) option"
where
  "read_digits bound radix maxd n acc [] = Some (acc, n, [])"
| "read_digits bound radix maxd n acc (c # cs) =
     (case to_digit radix c of
        None \<Rightarrow> Some (acc, n, c # cs)
      | Some d \<Rightarrow>
          if acc * radix + d < bound \<and> Suc n \<le> maxd
          then read_digits bound radix maxd (Suc n) (acc * radix + d) cs else None)"

definition read_number :: "nat \<Rightarrow> nat \<Rightarrow> nat \<Rightarrow> bool \<Rightarrow> nat reader" where
  "read_number bound radix maxd allow_zero_prefix s =
     (case read_digits bound radix maxd 0 0 s of
        None \<Rightarrow> None
      | Some (v, n, r) \<Rightarrow>
          if n = 0 then None
          else if \<not> allow_zero_prefix \<and> hd s = CHR ''0'' \<and> 1 < n then None
          else Some (v, r))"

definition read_given_char :: "char \<Rightarrow> string \<Rightarrow> string option" where
  "read_given_char c s = (case s of [] \<Rightarrow> None | x # xs \<Rightarrow> if x = c then Some xs else None)"

definition read_separator :: "char \<Rightarrow> nat \<Rightarrow> 'a reader \<Rightarrow> 'a reader" where
  "read_separator sep i r s =
     (if i = 0 then r s
      else (case read_given_char sep s of None \<Rightarrow> None | Some s' \<Rightarrow> r s'))"

definition read_octet :: "nat \<Rightarrow> u8 reader" where
  "read_octet i s =
     map_option (map_prod of_nat id)
       (read_separator CHR ''.'' i (read_number 256 10 3 False) s)"

definition read_ipv4_addr :: "ipv4_addr reader" where
  "read_ipv4_addr s0 =
     (case read_octet 0 s0 of None \<Rightarrow> None | Some (a, s1) \<Rightarrow>
      case read_octet 1 s1 of None \<Rightarrow> None | Some (b, s2) \<Rightarrow>
      case read_octet 2 s2 of None \<Rightarrow> None | Some (c, s3) \<Rightarrow>
      case read_octet 3 s3 of None \<Rightarrow> None | Some (d, s4) \<Rightarrow> Some (Ipv4 a b c d, s4))"

text \<open>
  \<^verbatim>\<open>read_groups\<close>: groups \<open>i, i + 1, \<dots>\<close> up to \<open>limit\<close>, an embedded IPv4 address allowed when two
  groups are left. The result is the groups read, whether they end in an IPv4 address, and the
  rest; \<open>k\<close> is the number of groups that may still be read.
\<close>

fun read_groups :: "nat \<Rightarrow> nat \<Rightarrow> string \<Rightarrow> u16 list \<times> bool \<times> string" where
  "read_groups i 0 s = ([], False, s)"
| "read_groups i (Suc k) s =
     (case (if 0 < k then read_separator CHR '':'' i read_ipv4_addr s else None) of
        Some (Ipv4 a b c d, r) \<Rightarrow>
          ([u16_from_be_bytes a b, u16_from_be_bytes c d], True, r)
      | None \<Rightarrow>
          (case read_separator CHR '':'' i (read_number (2 ^ 16) 16 4 True) s of
             None \<Rightarrow> ([], False, s)
           | Some (g, r) \<Rightarrow>
               (let (gs, v4, r') = read_groups (Suc i) k r in (of_nat g # gs, v4, r'))))"

definition read_ipv6_addr :: "ipv6_addr reader" where
  "read_ipv6_addr s =
     (let (front, front_ipv4, r) = read_groups 0 8 s in
      if length front = 8 then map_option (\<lambda>a. (a, r)) (of_segments front)
      else if front_ipv4 then None
      else (case read_given_char CHR '':'' r of
              None \<Rightarrow> None
            | Some r1 \<Rightarrow>
                (case read_given_char CHR '':'' r1 of
                   None \<Rightarrow> None
                 | Some r2 \<Rightarrow>
                     (let (back, _, r3) = read_groups 0 (8 - (length front + 1)) r2 in
                      map_option (\<lambda>a. (a, r3))
                        (of_segments
                          (front @ replicate (8 - length front - length back) 0 @ back))))))"

definition parse_ip_addr :: "string \<Rightarrow> ip_addr option" where
  "parse_ip_addr s =
     (case (case read_ipv4_addr s of
              Some (v4, r) \<Rightarrow> Some (V4 v4, r)
            | None \<Rightarrow> map_option (map_prod V6 id) (read_ipv6_addr s)) of
        Some (ip, r) \<Rightarrow> (if r = [] then Some ip else None)
      | None \<Rightarrow> None)"

lemmas read_groups_numeral [simp] =
  read_groups.simps(2) [of i "pred_numeral k" s for i k s, folded numeral_eq_Suc]

lemmas ip_parse_eval =
  parse_ip_addr_def read_ipv4_addr_def read_ipv6_addr_def read_octet_def read_separator_def
  read_given_char_def read_number_def to_digit_def digit_val_def

section \<open>Printing\<close>

definition digit_char :: "nat \<Rightarrow> char" where
  "digit_char n = byte (48 + n)"

fun show_nat :: "nat \<Rightarrow> string" where
  "show_nat n = (if n < 10 then [digit_char n] else show_nat (n div 10) @ [digit_char (n mod 10)])"

declare show_nat.simps [simp del]

fun show_ipv4 :: "ipv4_addr \<Rightarrow> string" where
  "show_ipv4 (Ipv4 a b c d) =
     show_nat (unat a) @ ''.'' @ show_nat (unat b) @ ''.'' @ show_nat (unat c) @ ''.''
     @ show_nat (unat d)"

section \<open>Parsing what was printed\<close>

lemma to_digit_digit_char: "n < 10 \<Longrightarrow> to_digit 10 (digit_char n) = Some n"
  by (simp add: to_digit_def digit_val_def digit_char_def Let_def)

definition no_digit_first :: "string \<Rightarrow> bool" where
  "no_digit_first s \<longleftrightarrow> (case s of [] \<Rightarrow> True | c # _ \<Rightarrow> to_digit 10 c = None)"

lemma read_digits_stop:
  "no_digit_first r \<Longrightarrow> read_digits bound 10 maxd n acc r = Some (acc, n, r)"
  by (cases r) (simp_all add: no_digit_first_def)

lemma show_nat_small:
  "n < 10 \<Longrightarrow> show_nat n = [digit_char n]"
  "10 \<le> n \<Longrightarrow> n < 100 \<Longrightarrow> show_nat n = [digit_char (n div 10), digit_char (n mod 10)]"
  "100 \<le> n \<Longrightarrow> n < 1000 \<Longrightarrow>
     show_nat n = [digit_char (n div 100), digit_char (n div 10 mod 10), digit_char (n mod 10)]"
proof -
  assume "n < 10"
  then show "show_nat n = [digit_char n]" by (simp add: show_nat.simps [of n])
next
  assume "10 \<le> n" "n < 100"
  then have "n div 10 < 10" "\<not> n < 10" by auto
  then show "show_nat n = [digit_char (n div 10), digit_char (n mod 10)]"
    by (simp add: show_nat.simps [of n] show_nat.simps [of "n div 10"])
next
  assume "100 \<le> n" "n < 1000"
  then have "n div 100 < 10" "\<not> n < 10" "\<not> n div 10 < 10" "n div 10 div 10 = n div 100"
    by (auto simp: div_mult2_eq [symmetric])
  then show "show_nat n
      = [digit_char (n div 100), digit_char (n div 10 mod 10), digit_char (n mod 10)]"
    by (simp add: show_nat.simps [of n] show_nat.simps [of "n div 10"]
        show_nat.simps [of "n div 100"])
qed

lemma digit_char_eq_0: "n < 10 \<Longrightarrow> digit_char n = CHR ''0'' \<longleftrightarrow> n = 0"
proof -
  assume "n < 10"
  then have "(of_char (digit_char n) :: nat) = 48 + n" by (simp add: digit_char_def)
  moreover have "(of_char (CHR ''0'') :: nat) = 48" by simp
  ultimately show ?thesis by (metis add_cancel_left_right of_char_eq_iff)
qed

lemma read_number_show_nat:
  assumes "n < 256" "no_digit_first r"
  shows "read_number 256 10 3 False (show_nat n @ r) = Some (n, r)"
proof -
  consider "n < 10" | "10 \<le> n" "n < 100" | "100 \<le> n" "n < 1000" using assms(1) by linarith
  then show ?thesis
  proof cases
    case 1
    with assms show ?thesis
      by (simp add: show_nat_small read_number_def to_digit_digit_char read_digits_stop)
  next
    case 2
    have "n div 10 * 10 + n mod 10 = n" by simp
    moreover have "n div 10 < 10" "n div 10 < 256" "n div 10 \<noteq> 0" using 2 by auto
    ultimately show ?thesis using 2 assms
      by (simp add: show_nat_small read_number_def to_digit_digit_char read_digits_stop
          digit_char_eq_0)
  next
    case 3
    have "n div 100 * 10 + n div 10 mod 10 = n div 10"
      using div_mult_mod_eq [of "n div 10" 10] by (simp add: div_mult2_eq [symmetric])
    moreover have "n div 10 * 10 + n mod 10 = n" by simp
    moreover have "n div 10 < 256" "n div 100 < 10" "n div 100 \<noteq> 0" using 3 assms(1) by auto
    ultimately show ?thesis using 3 assms
      by (simp add: show_nat_small read_number_def to_digit_digit_char read_digits_stop
          digit_char_eq_0)
  qed
qed

lemma no_digit_first_dot [simp]: "no_digit_first (CHR ''.'' # s)"
  by (simp add: no_digit_first_def to_digit_def digit_val_def)

lemma no_digit_first_Nil [simp]: "no_digit_first []"
  by (simp add: no_digit_first_def)

lemma read_octet_show:
  assumes "no_digit_first r"
  shows "read_octet 0 (show_nat (unat a) @ r) = Some (a, r)"
    and "0 < i \<Longrightarrow> read_octet i (CHR ''.'' # show_nat (unat a) @ r) = Some (a, r)"
proof -
  have "unat a < 256" by (rule unat_u8_less)
  note n = read_number_show_nat [OF this assms]
  show "read_octet 0 (show_nat (unat a) @ r) = Some (a, r)"
    by (simp add: read_octet_def read_separator_def n)
  show "0 < i \<Longrightarrow> read_octet i (CHR ''.'' # show_nat (unat a) @ r) = Some (a, r)"
    by (simp add: read_octet_def read_separator_def read_given_char_def n)
qed

theorem parse_show_ipv4: "parse_ip_addr (show_ipv4 v) = Some (V4 v)"
proof (cases v)
  case (Ipv4 a b c d)
  have "read_ipv4_addr (show_ipv4 v) = Some (v, [])"
    using read_octet_show(2) [of "[]" 3 d]
    by (simp add: Ipv4 read_ipv4_addr_def read_octet_show)
  then show ?thesis by (simp add: parse_ip_addr_def)
qed

lemma show_nat_digits: "c \<in> set (show_nat n) \<Longrightarrow> 48 \<le> code c \<and> code c \<le> 57"
proof (induction n rule: show_nat.induct)
  case (1 n)
  have d: "code (digit_char m) = 48 + m" if "m < 10" for m
    using that by (simp add: digit_char_def)
  show ?case
  proof (cases "n < 10")
    case True
    with "1.prems" d [of n] show ?thesis by (simp add: show_nat.simps [of n])
  next
    case False
    with "1.prems" have "c \<in> set (show_nat (n div 10)) \<or> c = digit_char (n mod 10)"
      by (auto simp: show_nat.simps [of n])
    with "1.IH" [OF False] d [of "n mod 10"] show ?thesis by auto
  qed
qed

lemma not_in_show_nat: "code c < 48 \<or> 57 < code c \<Longrightarrow> c \<notin> set (show_nat n)"
  using show_nat_digits [of c n] by auto

lemma colon_not_in_show_ipv4: "CHR '':'' \<notin> set (show_ipv4 v)"
  by (cases v) (simp add: not_in_show_nat)

end
