(* ===== verification/Flexd_Externs.thy ===== *)
theory Flexd_Externs
  imports Net_Addr
begin

text \<open>
  Code that is not part of the repository, as parameters of the model: one record \<open>ext\<close> of the
  functions the sources call in the crates \<^verbatim>\<open>http\<close>, \<^verbatim>\<open>regex\<close>, \<^verbatim>\<open>ipnetwork\<close>, \<^verbatim>\<open>flate2\<close>, in the Unicode
  and hashing tables of the standard library, and one record \<open>os\<close> of what the process asks of the
  operating system. What the code relies on of them is stated by named predicates, and each
  predicate has a concrete instance.

  A compiled \<^verbatim>\<open>Regex\<close> and a parsed \<^verbatim>\<open>IpNetwork\<close> are determined by the text they were made from,
  so the model carries that text. A \<^verbatim>\<open>HeaderMap\<close> is carried by the pairs its \<^verbatim>\<open>iter()\<close> yields, one
  per value, names in lower case; where \<^verbatim>\<open>insert\<close> and \<^verbatim>\<open>remove\<close> put the other entries is left open.
\<close>

section \<open>Carriers\<close>

datatype ip_network = IpNetwork string

datatype regex = Regex string

type_synonym header_map = "(string \<times> string) list"

type_synonym status = nat

text \<open>\<^verbatim>\<open>http::Uri\<close>: an authority and the path with its query, either of which may be absent.\<close>

record uri =
  u_authority :: "string option"
  u_pq :: "(string \<times> string option) option"

definition uri_path :: "uri \<Rightarrow> string" where
  "uri_path u = (case u_pq u of None \<Rightarrow> [] | Some (p, _) \<Rightarrow> p)"

definition uri_query :: "uri \<Rightarrow> string option" where
  "uri_query u = (case u_pq u of None \<Rightarrow> None | Some (_, q) \<Rightarrow> q)"

definition pq_as_str :: "string \<times> string option \<Rightarrow> string" where
  "pq_as_str pq = (case pq of (p, None) \<Rightarrow> p | (p, Some q) \<Rightarrow> p @ ''?'' @ q)"

section \<open>The parameters\<close>

record ext =
  x_lower :: case_table
  x_upper :: case_table
  x_show_v6 :: "ipv6_addr \<Rightarrow> string"
  x_hash_ip :: "ip_addr \<Rightarrow> u64"
  x_hash_session :: "string \<Rightarrow> string \<Rightarrow> u64"
  x_net_ok :: "string \<Rightarrow> bool"
  x_net_contains :: "string \<Rightarrow> ip_addr \<Rightarrow> bool"
  x_re_ok :: "string \<Rightarrow> bool"
  x_re_is_match :: "string \<Rightarrow> string \<Rightarrow> bool"
  x_re_replace :: "string \<Rightarrow> string \<Rightarrow> string \<Rightarrow> string"
  x_hm_insert :: "header_map \<Rightarrow> string \<Rightarrow> string \<Rightarrow> header_map"
  x_hm_remove :: "header_map \<Rightarrow> string \<Rightarrow> header_map"
  x_hv_ok :: "string \<Rightarrow> bool"
  x_hv_visible :: "string \<Rightarrow> bool"
  x_hn_ok :: "string \<Rightarrow> bool"
  x_status_ok :: "u16 \<Rightarrow> bool"
  x_reason :: "status \<Rightarrow> string option"
  x_pq_parse :: "string \<Rightarrow> (string \<times> string option) option"
  x_uri_parts_ok :: "uri \<Rightarrow> bool"
  x_uri_parse :: "string \<Rightarrow> uri option"
  x_uri_show :: "uri \<Rightarrow> string"
  x_gunzip :: "string \<Rightarrow> nat \<Rightarrow> string option"

record os =
  os_exists :: "string \<Rightarrow> bool"
  os_meta :: "string \<Rightarrow> (bool \<times> u32) option"
  os_euid_root :: bool

text \<open>\<^verbatim>\<open>str::parse::<IpNetwork>()\<close> and \<^verbatim>\<open>IpNetwork::contains\<close>.\<close>

definition parse_network :: "ext \<Rightarrow> string \<Rightarrow> ip_network option" where
  "parse_network X s = (if x_net_ok X s then Some (IpNetwork s) else None)"

fun net_contains :: "ext \<Rightarrow> ip_network \<Rightarrow> ip_addr \<Rightarrow> bool" where
  "net_contains X (IpNetwork s) ip = x_net_contains X s ip"

text \<open>\<^verbatim>\<open>Regex::new\<close>, \<^verbatim>\<open>is_match\<close> and \<^verbatim>\<open>replace\<close>.\<close>

definition regex_new :: "ext \<Rightarrow> string \<Rightarrow> regex option" where
  "regex_new X p = (if x_re_ok X p then Some (Regex p) else None)"

fun re_is_match :: "ext \<Rightarrow> regex \<Rightarrow> string \<Rightarrow> bool" where
  "re_is_match X (Regex p) s = x_re_is_match X p s"

fun re_replace :: "ext \<Rightarrow> regex \<Rightarrow> string \<Rightarrow> string \<Rightarrow> string" where
  "re_replace X (Regex p) s r = x_re_replace X p s r"

text \<open>
  \<^verbatim>\<open>HeaderValue::to_str\<close> (the value's own bytes when they are visible ASCII),
  \<^verbatim>\<open>HeaderValue::from_str\<close> and \<^verbatim>\<open>HeaderName::from_bytes\<close> on a lower-case token.
\<close>

definition hv_to_str :: "ext \<Rightarrow> string \<Rightarrow> string option" where
  "hv_to_str X v = (if x_hv_visible X v then Some v else None)"

definition hv_from_str :: "ext \<Rightarrow> string \<Rightarrow> string option" where
  "hv_from_str X s = (if x_hv_ok X s then Some s else None)"

definition hn_from_bytes :: "ext \<Rightarrow> string \<Rightarrow> string option" where
  "hn_from_bytes X s = (if x_hn_ok X s then Some s else None)"

definition status_from_u16 :: "ext \<Rightarrow> u16 \<Rightarrow> status option" where
  "status_from_u16 X n = (if x_status_ok X n then Some (unat n) else None)"

text \<open>\<^verbatim>\<open>Display\<close> of an address.\<close>

fun show_ip :: "ext \<Rightarrow> ip_addr \<Rightarrow> string" where
  "show_ip X (V4 a) = show_ipv4 a"
| "show_ip X (V6 a) = x_show_v6 X a"

section \<open>Header maps\<close>

definition hm_get_all :: "header_map \<Rightarrow> string \<Rightarrow> string list" where
  "hm_get_all m k = map snd (filter (\<lambda>p. fst p = k) m)"

definition hm_get :: "header_map \<Rightarrow> string \<Rightarrow> string option" where
  "hm_get m k = (case hm_get_all m k of [] \<Rightarrow> None | v # _ \<Rightarrow> Some v)"

definition hm_contains_key :: "header_map \<Rightarrow> string \<Rightarrow> bool" where
  "hm_contains_key m k \<longleftrightarrow> hm_get_all m k \<noteq> []"

text \<open>
  What the \<^verbatim>\<open>http\<close> crate documents: \<^verbatim>\<open>remove\<close> drops every value of the name, \<^verbatim>\<open>insert\<close> leaves the
  new value as its only one, and both keep the values of every other name.
\<close>

definition header_laws :: "ext \<Rightarrow> bool" where
  "header_laws X \<longleftrightarrow>
     (\<forall>m k k'. hm_get_all (x_hm_remove X m k) k' = (if k' = k then [] else hm_get_all m k'))
   \<and> (\<forall>m k v k'. hm_get_all (x_hm_insert X m k v) k' = (if k' = k then [v] else hm_get_all m k'))"

lemma get_all_remove [simp]:
  "header_laws X \<Longrightarrow> hm_get_all (x_hm_remove X m k) k' = (if k' = k then [] else hm_get_all m k')"
  unfolding header_laws_def by blast

lemma get_all_insert [simp]:
  "header_laws X \<Longrightarrow>
     hm_get_all (x_hm_insert X m k v) k' = (if k' = k then [v] else hm_get_all m k')"
  unfolding header_laws_def by blast

lemma get_remove [simp]:
  "header_laws X \<Longrightarrow> hm_get (x_hm_remove X m k) k' = (if k' = k then None else hm_get m k')"
  by (simp add: hm_get_def)

lemma get_insert [simp]:
  "header_laws X \<Longrightarrow> hm_get (x_hm_insert X m k v) k' = (if k' = k then Some v else hm_get m k')"
  by (simp add: hm_get_def)

lemma contains_key_get: "hm_contains_key m k \<longleftrightarrow> hm_get m k \<noteq> None"
  by (cases "hm_get_all m k") (simp_all add: hm_contains_key_def hm_get_def)

lemma hm_get_None: "hm_get m k = None \<longleftrightarrow> hm_get_all m k = []"
  by (cases "hm_get_all m k") (simp_all add: hm_get_def)

lemma in_get_all: "v \<in> set (hm_get_all m k) \<longleftrightarrow> (k, v) \<in> set m"
  by (auto simp: hm_get_all_def image_iff)

section \<open>A concrete instance\<close>

text \<open>
  An instance of the parameters for the examples: header maps as lists in insertion order,
  \<^verbatim>\<open>127.0.0.0/8\<close> as the only network, exact strings as patterns.
\<close>

definition sample_ext :: ext where
  "sample_ext =
     \<lparr>x_lower = (\<lambda>s i. [s ! i]), x_upper = (\<lambda>s i. [s ! i]), x_show_v6 = (\<lambda>_. ''::''),
      x_hash_ip = (\<lambda>_. 7), x_hash_session = (\<lambda>_ _. 7),
      x_net_ok = (\<lambda>s. s = ''127.0.0.0/8''),
      x_net_contains = (\<lambda>s ip. s = ''127.0.0.0/8''
         \<and> (case ip of V4 a \<Rightarrow> v4_is_loopback a | V6 _ \<Rightarrow> False)),
      x_re_ok = (\<lambda>_. True), x_re_is_match = (\<lambda>p s. p = s), x_re_replace = (\<lambda>p s r. r),
      x_hm_insert = (\<lambda>m k v. filter (\<lambda>p. fst p \<noteq> k) m @ [(k, v)]),
      x_hm_remove = (\<lambda>m k. filter (\<lambda>p. fst p \<noteq> k) m),
      x_hv_ok = (\<lambda>_. True), x_hv_visible = list_all is_ascii, x_hn_ok = (\<lambda>_. True),
      x_status_ok = (\<lambda>n. 100 \<le> n \<and> n < 1000), x_reason = (\<lambda>_. None),
      x_pq_parse = (\<lambda>s. Some (s, None)), x_uri_parts_ok = (\<lambda>_. True),
      x_uri_parse = (\<lambda>s. Some \<lparr>u_authority = None, u_pq = Some (s, None)\<rparr>),
      x_uri_show = (\<lambda>u. case u_authority u of Some a \<Rightarrow> a | None \<Rightarrow> uri_path u),
      x_gunzip = (\<lambda>s n. Some (take n s))\<rparr>"

lemma sample_ext_header_laws: "header_laws sample_ext"
proof -
  have r: "hm_get_all (filter (\<lambda>p. fst p \<noteq> k) m) k' = (if k' = k then [] else hm_get_all m k')"
    for m k k'
    by (induction m) (auto simp: hm_get_all_def)
  have a: "hm_get_all (m @ [(k, v)]) k' = hm_get_all m k' @ (if k' = k then [v] else [])"
    for m k v k'
    by (simp add: hm_get_all_def)
  show ?thesis by (simp add: header_laws_def sample_ext_def r a)
qed

end
