(* ===== verification/Flexd_Http.thy ===== *)
theory Flexd_Http
  imports Flexd_Externs
begin

text \<open>
  Requests and responses as the handlers see them, and the parts of a request's environment that
  are not the program's: the file system, the upstream connections, the name server, the clock.
\<close>

section \<open>Messages\<close>

datatype http_version = HTTP_10 | HTTP_11 | HTTP_2 | HTTP_3

record 'b request =
  rq_method :: string
  rq_uri :: uri
  rq_version :: http_version
  rq_headers :: header_map
  rq_body :: 'b

record response =
  rs_status :: status
  rs_headers :: header_map
  rs_body :: string

text \<open>\<^verbatim>\<open>Response::new\<close>.\<close>

definition response_new :: "string \<Rightarrow> response" where
  "response_new body = \<lparr>rs_status = 200, rs_headers = [], rs_body = body\<rparr>"

text \<open>
  A body that is still to be read, by what collecting it under \<^verbatim>\<open>http_body_util::Limited\<close> with a given
  limit gives. The library's promise is that no more than the limit comes through.
\<close>

datatype collect_error = LengthLimit | BodyFailed

type_synonym incoming = "nat \<Rightarrow> collect_error + string"

definition limited_law :: "incoming \<Rightarrow> bool" where
  "limited_law b \<longleftrightarrow> (\<forall>n s. b n = Inr s \<longrightarrow> length s \<le> n)"

section \<open>The environment\<close>

datatype errno = ENOSYS | EXDEV | ELOOP | ENOENT | ENOTDIR | EACCES | OtherErrno

text \<open>An open file: whether its metadata says a regular file, and what reading it to the end gives.\<close>

record fs_file =
  ff_is_file :: "bool option"
  ff_read :: "string option"

text \<open>
  The calls on the file system: opening the root directory, \<^verbatim>\<open>openat2\<close> beneath it with
  \<^verbatim>\<open>RESOLVE_BENEATH\<close> and \<^verbatim>\<open>RESOLVE_NO_MAGICLINKS\<close>, and, for old kernels, \<^verbatim>\<open>canonicalize\<close> and \<^verbatim>\<open>open\<close>.
\<close>

record fs =
  fs_open_dir :: "string \<Rightarrow> bool"
  fs_openat2 :: "string \<Rightarrow> string \<Rightarrow> errno + fs_file"
  fs_canonicalize :: "string \<Rightarrow> string option"
  fs_open :: "string \<Rightarrow> fs_file option"

text \<open>
  What a request sent upstream comes to: the timeout elapsed, the connection failed before
  anything was sent, the transport failed, or a response arrived.
\<close>

datatype send_result =
    Elapsed
  | ConnectFailed
  | TransportFailed
  | Answered status header_map incoming

text \<open>
  The pooled HTTP client, for a request to a server address, indexed by the candidate tried so that
  equal requests may fare differently. \<open>e_resolves\<close> is the name it asks the resolver for: none when it
  reuses a connection, when the host is an address literal, or when the time runs out before. \<open>e_send\<close>
  is what the request comes to, given the addresses the resolver returned.
\<close>

record env =
  e_fs :: fs
  e_resolves :: "string \<Rightarrow> nat \<Rightarrow> string request \<Rightarrow> string option"
  e_send :: "string \<Rightarrow> nat \<Rightarrow> string request \<Rightarrow> socket_addr list option \<Rightarrow> send_result"
  e_dns :: "string \<Rightarrow> socket_addr list option"
  e_tcp :: "socket_addr \<Rightarrow> bool"
  e_now :: instant
  e_later :: instant
  e_timestamp :: string

section \<open>A concrete environment\<close>

text \<open>
  An environment for the examples: a site with one page, reachable upstreams that answer 200, a
  name server that knows one loopback name.
\<close>

definition sample_env :: env where
  "sample_env =
     \<lparr>e_fs = \<lparr>fs_open_dir = (\<lambda>_. True),
              fs_openat2 = (\<lambda>_ rel. if rel = ''index.html''
                 then Inr \<lparr>ff_is_file = Some True, ff_read = Some ''hi''\<rparr> else Inl ENOENT),
              fs_canonicalize = (\<lambda>p. Some p), fs_open = (\<lambda>_. None)\<rparr>,
      e_resolves = (\<lambda>addr _ _. if addr = ''app:80'' then Some ''app'' else None),
      e_send = (\<lambda>_ _ _ _. Answered 200 [] (\<lambda>n. if 2 \<le> n then Inr ''ok'' else Inl LengthLimit)),
      e_dns = (\<lambda>h. if h = ''app'' then Some [(V4 (Ipv4 127 0 0 1), 0)] else None),
      e_tcp = (\<lambda>_. True), e_now = 0, e_later = 0, e_timestamp = ''01/Jan/2025:00:00:00 +0000''\<rparr>"

end
