(* ===== verification/Flexd_Logging.thy ===== *)
theory Flexd_Logging
  imports Flexd_Http
begin

text \<open>
  \<^verbatim>\<open>logging.rs\<close>: the access log. The file handle is the list of entries written through it; the
  timestamp is an argument. The lemmas show that one call writes one line.
\<close>

section \<open>Operations\<close>

record access_logger =
  al_path :: string
  al_file :: "string list option"

text \<open>\<^verbatim>\<open>char::is_control\<close>, on the bytes of a character: C0, DEL and C1.\<close>

definition is_control :: "string \<Rightarrow> bool" where
  "is_control ch =
     (case ch of
        [c] \<Rightarrow> code c < 32 \<or> code c = 127
      | [a, b] \<Rightarrow> code a = 194 \<and> 128 \<le> code b \<and> code b < 160
      | _ \<Rightarrow> False)"

definition safe_text :: "string \<Rightarrow> string" where
  "safe_text s = concat (filter (\<lambda>ch. \<not> (is_control ch \<and> ch \<noteq> [byte 9])) (str_chars s))"

definition log_entry ::
  "string \<Rightarrow> string \<Rightarrow> string \<Rightarrow> string \<Rightarrow> nat \<Rightarrow> nat \<Rightarrow> string \<Rightarrow> string" where
  "log_entry timestamp remote_addr method uri status bytes_sent user_agent =
     remote_addr @ '' - - ['' @ timestamp @ ''] '' @ [CHR 0x22] @ method @ '' '' @ safe_text uri
     @ '' HTTP/1.1'' @ [CHR 0x22] @ '' '' @ show_nat status @ '' '' @ show_nat bytes_sent @ '' ''
     @ [CHR 0x22] @ ''-'' @ [CHR 0x22] @ '' '' @ [CHR 0x22] @ safe_text user_agent @ [CHR 0x22]
     @ [byte 10]"

text \<open>\<open>opened\<close> is whether the operating system created and opened the file.\<close>

definition logger_new :: "bool \<Rightarrow> string \<Rightarrow> access_logger option" where
  "logger_new opened path =
     (if opened then Some \<lparr>al_path = path, al_file = Some []\<rparr> else None)"

definition logger_log ::
  "access_logger \<Rightarrow> string \<Rightarrow> string \<Rightarrow> string \<Rightarrow> string \<Rightarrow> nat \<Rightarrow> nat \<Rightarrow> string \<Rightarrow> access_logger" where
  "logger_log l timestamp remote_addr method uri status bytes_sent user_agent =
     (case al_file l of
        None \<Rightarrow> l
      | Some lines \<Rightarrow>
          l \<lparr>al_file := Some (lines @
               [log_entry timestamp remote_addr method uri status bytes_sent user_agent])\<rparr>)"

definition logger_reopen :: "bool \<Rightarrow> access_logger \<Rightarrow> unit option \<times> access_logger" where
  "logger_reopen opened l =
     (if opened then (Some (), l \<lparr>al_file := Some []\<rparr>) else (None, l))"

section \<open>Characters of well-formed text\<close>

lemma utf8_lead_width:
  assumes "utf8_lead (code c) = Some (n, lo, hi)"
  shows "utf8_width c = Suc n \<and> (0 < n \<longrightarrow> 192 \<le> code c)"
  using assms by (auto simp: utf8_lead_def utf8_width_def split: if_splits)

lemma str_chars_valid:
  "utf8_valid s \<Longrightarrow> ch \<in> set (str_chars s) \<Longrightarrow>
     \<exists>c r. ch = c # r \<and> list_all is_cont r \<and> (r \<noteq> [] \<longrightarrow> 192 \<le> code c)"
proof (induction s rule: utf8_valid.induct)
  case 1
  then show ?case by simp
next
  case (2 c s)
  from "2.prems"(1) obtain n lo hi where l: "utf8_lead (code c) = Some (n, lo, hi)"
    and n: "n \<le> length s" "list_all is_cont (take n s)" and v: "utf8_valid (drop n s)"
    by (auto split: option.splits)
  note w = utf8_lead_width [OF l]
  show ?case
  proof (cases "ch \<in> set (str_chars (drop n s))")
    case True
    then show ?thesis using "2.IH" [OF l _ _ v] by blast
  next
    case False
    with "2.prems"(2) w have "ch = c # take n s" by simp
    with n w show ?thesis by (cases "n = 0") auto
  qed
qed

lemma no_control_in_safe:
  assumes "utf8_valid s" "x \<in> set (safe_text s)" "code x < 32 \<or> code x = 127"
  shows "x = byte 9"
proof -
  from assms(2) obtain ch where ch: "ch \<in> set (str_chars s)" "x \<in> set ch"
    "\<not> (is_control ch \<and> ch \<noteq> [byte 9])" by (auto simp: safe_text_def)
  from str_chars_valid [OF assms(1) ch(1)] obtain c r
    where c: "ch = c # r" "list_all is_cont r" "r \<noteq> [] \<longrightarrow> 192 \<le> code c" by blast
  have "x \<notin> set r" using c(2) assms(3) by (auto simp: list_all_iff is_cont_def)
  with ch(2) c have "x = c" by simp
  then have "r = []" using c(3) assms(3) by auto
  with ch(3) c \<open>x = c\<close> assms(3) show ?thesis by (auto simp: is_control_def)
qed

text \<open>
  One request writes one line: whatever the request's path and user agent hold, the entry has no
  line break but the one that ends it and no escape or other ASCII control character but tabs.
\<close>

theorem log_entry_one_line:
  assumes "utf8_valid uri" "utf8_valid user_agent"
    and "list_all (\<lambda>c. 32 \<le> code c \<and> code c \<noteq> 127) (timestamp @ remote_addr @ method)"
  shows "\<exists>l. log_entry timestamp remote_addr method uri status bytes user_agent = l @ [byte 10]
    \<and> list_all (\<lambda>c. 32 \<le> code c \<and> code c \<noteq> 127 \<or> c = byte 9) l"
proof -
  let ?ok = "\<lambda>c. 32 \<le> code c \<and> code c \<noteq> 127 \<or> c = byte 9"
  have t: "list_all ?ok (safe_text s)" if "utf8_valid s" for s
    using no_control_in_safe [OF that] by (fastforce simp: list_all_iff not_less)
  have n: "list_all ?ok (show_nat k)" for k
    by (auto simp: list_all_iff dest: show_nat_digits)
  have "list_all ?ok timestamp" "list_all ?ok remote_addr" "list_all ?ok method"
    using assms(3) by (auto simp: list_all_iff)
  with t [OF assms(1)] t [OF assms(2)] n show ?thesis by (simp add: log_entry_def)
qed

theorem log_entry_one_line_witness:
  "\<exists>l. log_entry ''now'' ''192.0.2.7'' ''GET'' (''/a'' @ [byte 10, byte 27] @ ''b'') 200 2 ''-'' = l @ [byte 10]
    \<and> list_all (\<lambda>c. 32 \<le> code c \<and> code c \<noteq> 127 \<or> c = byte 9) l"
  by (rule log_entry_one_line) (simp_all add: utf8_lead_def)

end
