(* ===== verification/Flexd_Geoip.thy ===== *)
theory Flexd_Geoip
  imports Flexd_Http
begin

text \<open>
  \<^verbatim>\<open>geoip.rs\<close>: the lookup of a client address in a MaxMind database. An opened database is what the
  reader answers: \<open>None\<close> for a failed lookup, \<open>Some None\<close> for an address without data, else the
  strings at each path of the record.
\<close>

record geoip_info =
  gi_country :: "string option"
  gi_city :: "string option"
  gi_continent :: "string option"
  gi_iso_code :: "string option"

type_synonym mmdb = "ip_addr \<Rightarrow> (string list \<Rightarrow> string option) option option"

type_synonym geoip_service = mmdb

definition geoip_new :: "os \<Rightarrow> (string \<Rightarrow> mmdb option) \<Rightarrow> string \<Rightarrow> geoip_service option" where
  "geoip_new os open_readfile db_path =
     (if \<not> os_exists os db_path then None else open_readfile db_path)"

definition geoip_lookup :: "geoip_service \<Rightarrow> ip_addr \<Rightarrow> geoip_info option" where
  "geoip_lookup reader ip =
     (case reader ip of
        Some (Some decode_path) \<Rightarrow>
          Some \<lparr>gi_country = decode_path [''country'', ''names'', ''en''],
                gi_city = decode_path [''city'', ''names'', ''en''],
                gi_continent = decode_path [''continent'', ''names'', ''en''],
                gi_iso_code = decode_path [''country'', ''iso_code'']\<rparr>
      | _ \<Rightarrow> None)"

end
