(* ===== verification/Flexd_Config.thy ===== *)
theory Flexd_Config
  imports Flexd_Externs
begin

text \<open>
  \<^verbatim>\<open>config.rs\<close>: the configuration schema as records, one per struct with the fields in the order
  of the source, the defaults serde fills in, and \<^verbatim>\<open>Config::validate\<close> with the checks in the order
  the code makes them. Every \<^verbatim>\<open>bail!\<close> and every failing \<^verbatim>\<open>?\<close> is a constructor of \<open>cfg_error\<close>. The
  lemmas turn a passed validation into the facts the other components use.
\<close>

section \<open>Schema\<close>

record upstream_server =
  us_address :: string
  us_weight :: u32

record upstream_ref =
  up_name :: string
  up_servers :: "upstream_server list"
  up_strategy :: string

record handler_type =
  h_type :: string
  h_root :: "string option"
  h_upstream :: "upstream_ref option"
  h_target :: "string option"
  h_status :: "u16 option"
  h_ab_split :: "string option"

record location =
  loc_pattern :: string
  loc_match_type :: string
  loc_handler :: handler_type

record rewrite_rule =
  rw_pattern :: string
  rw_replacement :: string
  rw_flag :: string

record ab_group =
  g_name :: string
  g_upstream :: string
  g_weight :: u32

record ab_split =
  sp_name :: string
  sp_sticky :: bool
  sp_groups :: "ab_group list"

record listen_directive =
  ld_port :: u16
  ld_protocol :: string
  ld_address :: "string option"

record webhook_config =
  wh_url :: string
  wh_timeout :: u64
  wh_auth_header :: "string option"

record eab_config =
  eab_kid :: string
  eab_hmac_key :: string

record acme_config =
  ac_enabled :: bool
  ac_email :: string
  ac_ca_endpoint :: string
  ac_staging :: bool
  ac_domains :: "string list"
  ac_challenge_types :: "string list"
  ac_dns_webhook :: "webhook_config option"
  ac_eab :: "eab_config option"
  ac_renewal_window :: u32
  ac_http_challenge_port :: "u16 option"
  ac_agree_tos :: bool
  ac_ca_root :: "string option"
  ac_cert_dir :: string
  ac_renewal_check_interval_secs :: "u64 option"

record ssl_settings =
  ssl_certificate :: "string option"
  ssl_certificate_key :: "string option"
  ssl_acme :: "acme_config option"
  ssl_protocols :: "string list"

record reset_rate_limit =
  rr_count :: usize
  rr_window_seconds :: u64

record http_block =
  hb_listen :: "listen_directive list"
  hb_server_name :: "string list"
  hb_root :: "string option"
  hb_ssl :: "ssl_settings option"
  hb_http2 :: bool
  hb_http3 :: bool
  hb_locations :: "location list"
  hb_rewrites :: "rewrite_rule list"
  hb_geoip_db :: "string option"
  hb_ab_splits :: "ab_split list"
  hb_access_log :: string
  hb_max_header_size :: "usize option"
  hb_max_body_size :: "usize option"
  hb_reject_ambiguous_framing :: bool
  hb_normalize_headers_before_proxy :: bool
  hb_http2_max_reset_rate :: "reset_rate_limit option"
  hb_http3_max_dynamic_table_size :: "usize option"
  hb_host_header_policy :: string
  hb_allowed_hosts :: "string list option"
  hb_reject_headers_with_control_chars :: bool
  hb_allow_connect :: bool
  hb_connect_upstream :: "upstream_ref option"
  hb_connect_allowed_targets :: "string list option"
  hb_trusted_proxies :: "string list option"
  hb_upstream_allowed_networks :: "string list option"
  hb_max_header_count :: "usize option"
  hb_max_decompression_ratio :: "usize option"
  hb_max_decompression_size :: "usize option"
  hb_upstreams :: "upstream_ref list"
  hb_dns_cache_ttl_seconds :: "u64 option"
  hb_hsts_max_age :: "u64 option"
  hb_max_upstream_response_size :: "usize option"

record stream_block =
  st_listen :: listen_directive
  st_upstream :: upstream_ref
  st_ssl :: "ssl_settings option"

record mail_block =
  ml_listen :: "listen_directive list"
  ml_protocol :: string
  ml_upstream :: upstream_ref
  ml_ssl :: "ssl_settings option"
  ml_auth_required :: bool
  ml_max_line_length :: "usize option"

datatype worker_processes = Auto string | Count usize

record timeout_settings =
  to_idle :: u64
  to_request :: u64
  to_keepalive :: u64
  to_proxy_read :: u64

record global_settings =
  gl_worker_processes :: worker_processes
  gl_error_log :: string
  gl_pid_file :: "string option"
  gl_user :: "string option"
  gl_timeouts :: "timeout_settings option"

record config =
  cf_global :: global_settings
  cf_http :: "http_block list"
  cf_stream :: "stream_block list"
  cf_mail :: "mail_block option"

section \<open>Defaults\<close>

definition default_worker_processes :: worker_processes where
  "default_worker_processes = Auto ''auto''"

definition default_error_log :: string where
  "default_error_log = ''./logs/error.log''"

definition default_timeouts :: timeout_settings where
  "default_timeouts = \<lparr>to_idle = 75, to_request = 30, to_keepalive = 75, to_proxy_read = 60\<rparr>"

definition default_tls_protocols :: "string list" where
  "default_tls_protocols = [''TLSv1.2'', ''TLSv1.3'']"

definition default_acme :: acme_config where
  "default_acme =
     \<lparr>ac_enabled = False, ac_email = [],
      ac_ca_endpoint = ''https://acme-v02.api.letsencrypt.org/directory'',
      ac_staging = False, ac_domains = [],
      ac_challenge_types = [''http-01'', ''tls-alpn-01''],
      ac_dns_webhook = None, ac_eab = None, ac_renewal_window = 30,
      ac_http_challenge_port = None, ac_agree_tos = False, ac_ca_root = None,
      ac_cert_dir = ''./acme'', ac_renewal_check_interval_secs = None\<rparr>"

text \<open>An \<^verbatim>\<open>[[http]]\<close> block in which only the listeners are given.\<close>

definition default_http_block :: "listen_directive list \<Rightarrow> http_block" where
  "default_http_block ls =
     \<lparr>hb_listen = ls, hb_server_name = [], hb_root = None, hb_ssl = None, hb_http2 = True,
      hb_http3 = False, hb_locations = [], hb_rewrites = [], hb_geoip_db = None,
      hb_ab_splits = [], hb_access_log = ''./logs/access.log'', hb_max_header_size = None,
      hb_max_body_size = None, hb_reject_ambiguous_framing = True,
      hb_normalize_headers_before_proxy = True, hb_http2_max_reset_rate = None,
      hb_http3_max_dynamic_table_size = None, hb_host_header_policy = ''strict'',
      hb_allowed_hosts = None, hb_reject_headers_with_control_chars = True,
      hb_allow_connect = False, hb_connect_upstream = None, hb_connect_allowed_targets = None,
      hb_trusted_proxies = None, hb_upstream_allowed_networks = None,
      hb_max_header_count = None, hb_max_decompression_ratio = None,
      hb_max_decompression_size = None, hb_upstreams = [], hb_dns_cache_ttl_seconds = None,
      hb_hsts_max_age = None, hb_max_upstream_response_size = None\<rparr>"

section \<open>Validation\<close>

datatype cfg_error =
    AbWeights string u32
  | AbUnknownUpstream string string string
  | BadListenAddress string
  | UnknownStrategy string string
  | ZeroWeight string string
  | BadLocationRegex string
  | UnknownMatchType string
  | UnknownAbSplit string string
  | NoUpstreamServers string
  | BadRewritePattern string
  | UnknownRewriteFlag string string
  | BadTrustedProxy string
  | EmptyConnectTarget
  | BadHostPolicy string
  | ListPolicyEmpty
  | BadAllowedNetwork string
  | PrivateUpstream string
  | ProhibitedTls string
  | UnsupportedTls string
  | AcmeEmptyEmail
  | AcmeTos
  | AcmeDomain string
  | AcmeStagingProduction
  | AcmePrivilegedPort u16
  | SecretNotFound string string
  | SecretNotFile string string
  | SecretPermissions string string u32
  | EabKidEmpty
  | AcmeCaRoot string
  | AcmeDnsWebhook
  | TlsCertificateMissing string
  | TlsKeyMissing string
  | ConnectNoUpstream
  | StreamPort nat
  | StreamUpstreamName nat
  | StreamNoServers nat
  | StreamAddress nat string
  | MailPort
  | MailUpstreamName

text \<open>The sum of weights is a \<^verbatim>\<open>u32\<close> and wraps around in a release build.\<close>

definition sum_weights :: "ab_group list \<Rightarrow> u32" where
  "sum_weights gs = sum_list (map g_weight gs)"

definition check_ab_split :: "http_block \<Rightarrow> ab_split \<Rightarrow> cfg_error check" where
  "check_ab_split hb sp =
     checks
      [ensure (sum_weights (sp_groups sp) = 100)
         (AbWeights (sp_name sp) (sum_weights (sp_groups sp))),
       for_each (\<lambda>g. ensure (list_ex (\<lambda>u. up_name u = g_upstream g) (hb_upstreams hb))
                        (AbUnknownUpstream (sp_name sp) (g_name g) (g_upstream g)))
         (sp_groups sp)]"

definition check_listen :: "listen_directive \<Rightarrow> cfg_error check" where
  "check_listen l =
     for_opt (\<lambda>a. ensure (parse_ip_addr a \<noteq> None) (BadListenAddress a)) (ld_address l)"

definition check_upstream :: "upstream_ref \<Rightarrow> cfg_error check" where
  "check_upstream u =
     checks
      [ensure (up_strategy u \<in> {''round-robin'', ''least-conn'', ''ip-hash''})
         (UnknownStrategy (up_name u) (up_strategy u)),
       for_each (\<lambda>s. ensure (us_weight s \<noteq> 0) (ZeroWeight (up_name u) (us_address s)))
         (up_servers u)]"

definition check_upstreams :: "http_block \<Rightarrow> cfg_error check" where
  "check_upstreams hb =
     checks
      [for_each check_upstream (hb_upstreams hb),
       for_each (\<lambda>l. for_opt check_upstream (h_upstream (loc_handler l))) (hb_locations hb),
       for_opt check_upstream (hb_connect_upstream hb)]"

definition is_proxy_type :: "string \<Rightarrow> bool" where
  "is_proxy_type t \<longleftrightarrow> t \<in> {''proxy'', ''reverse_proxy''}"

definition has_servers :: "upstream_ref option \<Rightarrow> bool" where
  "has_servers u \<longleftrightarrow> (case u of None \<Rightarrow> False | Some u \<Rightarrow> up_servers u \<noteq> [])"

definition list_first :: "'a list \<Rightarrow> 'a option" where
  "list_first xs = (case xs of [] \<Rightarrow> None | x # _ \<Rightarrow> Some x)"

definition check_location :: "ext \<Rightarrow> http_block \<Rightarrow> location \<Rightarrow> cfg_error check" where
  "check_location X hb l =
     checks
      [if loc_match_type l \<in> {''exact'', ''prefix''} then Inr ()
       else if loc_match_type l = ''regex''
       then ensure (regex_new X (loc_pattern l) \<noteq> None) (BadLocationRegex (loc_pattern l))
       else Inl (UnknownMatchType (loc_match_type l)),
       if is_proxy_type (h_type (loc_handler l))
       then (case h_ab_split (loc_handler l) of
               Some n \<Rightarrow>
                 ensure (list_ex (\<lambda>s. sp_name s = n) (hb_ab_splits hb))
                   (UnknownAbSplit (loc_pattern l) n)
             | None \<Rightarrow>
                 ensure (has_servers (h_upstream (loc_handler l))
                         \<or> has_servers (list_first (hb_upstreams hb)))
                   (NoUpstreamServers (loc_pattern l)))
       else Inr ()]"

definition check_rewrite :: "ext \<Rightarrow> rewrite_rule \<Rightarrow> cfg_error check" where
  "check_rewrite X r =
     checks
      [ensure (regex_new X (rw_pattern r) \<noteq> None) (BadRewritePattern (rw_pattern r)),
       ensure (rw_flag r \<in> {''break'', ''last'', ''redirect'', ''permanent''})
         (UnknownRewriteFlag (rw_pattern r) (rw_flag r))]"

definition check_trusted_proxies :: "ext \<Rightarrow> http_block \<Rightarrow> cfg_error check" where
  "check_trusted_proxies X hb =
     for_opt (for_each (\<lambda>c. ensure (parse_network X c \<noteq> None) (BadTrustedProxy c)))
       (hb_trusted_proxies hb)"

definition check_connect_targets :: "http_block \<Rightarrow> cfg_error check" where
  "check_connect_targets hb =
     for_opt (for_each (\<lambda>t. ensure (trim t \<noteq> []) EmptyConnectTarget))
       (hb_connect_allowed_targets hb)"

definition check_host_policy :: "http_block \<Rightarrow> cfg_error check" where
  "check_host_policy hb =
     checks
      [ensure (hb_host_header_policy hb \<in> {''strict'', ''any'', ''list''})
         (BadHostPolicy (hb_host_header_policy hb)),
       ensure (\<not> (hb_host_header_policy hb = ''list''
                 \<and> (case hb_allowed_hosts hb of None \<Rightarrow> True | Some h \<Rightarrow> h = [])
                 \<and> hb_server_name hb = []))
         ListPolicyEmpty]"

text \<open>
  \<^verbatim>\<open>validate_upstream_address\<close>: the host is what stands before the last colon.
\<close>

definition v_is_private :: "ip_addr \<Rightarrow> bool" where
  "v_is_private ip =
     (case ip of
        V4 a \<Rightarrow> v4_is_private a \<or> v4_is_loopback a \<or> v4_is_link_local a \<or> v4_is_multicast a
      | V6 a \<Rightarrow> v6_is_loopback a \<or> v6_is_multicast a)"

definition validate_upstream_address ::
  "ext \<Rightarrow> string \<Rightarrow> string list option \<Rightarrow> cfg_error check" where
  "validate_upstream_address X addr allowed =
     (let host = (case rsplit_once CHR '':'' addr of None \<Rightarrow> addr | Some (h, _) \<Rightarrow> h) in
      case parse_ip_addr host of
        None \<Rightarrow> Inr ()
      | Some ip \<Rightarrow>
          if v_is_private ip
          then (case allowed of
                  Some nets \<Rightarrow>
                    ensure (list_ex (\<lambda>c. case parse_network X c of
                                           Some n \<Rightarrow> net_contains X n ip
                                         | None \<Rightarrow> False) nets)
                      (PrivateUpstream addr)
                | None \<Rightarrow> Inl (PrivateUpstream addr))
          else Inr ())"

definition check_networks :: "ext \<Rightarrow> http_block \<Rightarrow> cfg_error check" where
  "check_networks X hb =
     checks
      [for_opt (for_each (\<lambda>c. ensure (parse_network X c \<noteq> None) (BadAllowedNetwork c)))
         (hb_upstream_allowed_networks hb),
       for_each (\<lambda>u. for_each (\<lambda>s. validate_upstream_address X (us_address s)
                                      (hb_upstream_allowed_networks hb))
                       (up_servers u))
         (hb_upstreams hb)]"

definition check_protocol :: "ext \<Rightarrow> string \<Rightarrow> cfg_error check" where
  "check_protocol X p =
     (let u = to_uppercase (x_upper X) p in
      if u \<in> {''TLSV1.2'', ''TLSV1.3''} then Inr ()
      else if u \<in> {''SSLV3'', ''TLSV1.0'', ''TLSV1.1''} then Inl (ProhibitedTls p)
      else Inl (UnsupportedTls p))"

text \<open>\<^verbatim>\<open>matches_wildcard\<close>; the slices start after an ASCII prefix and cannot panic.\<close>

definition matches_wildcard :: "string \<Rightarrow> string \<Rightarrow> bool" where
  "matches_wildcard pattern domain =
     (if starts_with pattern ''*.''
      then ends_with domain (drop 1 pattern) \<or> domain = drop 2 pattern
      else pattern = domain)"

text \<open>
  \<^verbatim>\<open>check_secret_file\<close>: the file exists, is a regular file and has no permission bits for group
  or others.
\<close>

definition insecure_bits :: "u32 \<Rightarrow> bool" where
  "insecure_bits mode \<longleftrightarrow> unat mode mod 64 \<noteq> 0"

definition check_secret_file :: "os \<Rightarrow> string \<Rightarrow> string \<Rightarrow> cfg_error check" where
  "check_secret_file os path what =
     (case os_meta os path of
        None \<Rightarrow> Inl (SecretNotFound what path)
      | Some (is_file, mode) \<Rightarrow>
          if \<not> is_file then Inl (SecretNotFile what path)
          else ensure (\<not> insecure_bits mode)
                 (SecretPermissions what path (of_nat (unat mode mod 512))))"

definition check_acme :: "os \<Rightarrow> http_block \<Rightarrow> acme_config \<Rightarrow> cfg_error check" where
  "check_acme os hb ac =
     (if \<not> ac_enabled ac then Inr ()
      else
       checks
        [ensure (ac_email ac \<noteq> []) AcmeEmptyEmail,
         ensure (ac_agree_tos ac) AcmeTos,
         for_each (\<lambda>d. ensure (list_ex (\<lambda>s. s = d \<or> matches_wildcard s d) (hb_server_name hb))
                          (AcmeDomain d))
           (ac_domains ac),
         ensure (\<not> (ac_staging ac
                   \<and> str_contains (ac_ca_endpoint ac) ''acme-v02.api.letsencrypt.org''
                   \<and> \<not> str_contains (ac_ca_endpoint ac) ''staging''))
           AcmeStagingProduction,
         (let port = (case ac_http_challenge_port ac of None \<Rightarrow> 80 | Some p \<Rightarrow> p) in
          ensure (\<not> (port < 1024 \<and> \<not> os_euid_root os)) (AcmePrivilegedPort port)),
         for_opt (\<lambda>w. for_opt (\<lambda>p. check_secret_file os p ''dns_webhook.auth_header'')
                         (wh_auth_header w))
           (ac_dns_webhook ac),
         for_opt (\<lambda>e. checks
                    [ensure (eab_kid e \<noteq> []) EabKidEmpty,
                     check_secret_file os (eab_hmac_key e) ''eab.hmac_key''])
           (ac_eab ac),
         for_opt (\<lambda>r. ensure (os_exists os r) (AcmeCaRoot r)) (ac_ca_root ac),
         ensure (\<not> (list_ex (\<lambda>c. c = ''dns-01'') (ac_challenge_types ac)
                   \<and> ac_dns_webhook ac = None))
           AcmeDnsWebhook])"

definition check_ssl :: "ext \<Rightarrow> os \<Rightarrow> http_block \<Rightarrow> ssl_settings \<Rightarrow> cfg_error check" where
  "check_ssl X os hb ssl =
     checks
      [for_each (check_protocol X) (ssl_protocols ssl),
       for_opt (check_acme os hb) (ssl_acme ssl),
       for_opt (\<lambda>c. ensure (os_exists os c) (TlsCertificateMissing c)) (ssl_certificate ssl),
       for_opt (\<lambda>k. ensure (os_exists os k) (TlsKeyMissing k)) (ssl_certificate_key ssl)]"

definition check_http_block :: "ext \<Rightarrow> os \<Rightarrow> http_block \<Rightarrow> cfg_error check" where
  "check_http_block X os hb =
     checks
      [for_each (check_ab_split hb) (hb_ab_splits hb),
       for_each check_listen (hb_listen hb),
       check_upstreams hb,
       for_each (check_location X hb) (hb_locations hb),
       for_each (check_rewrite X) (hb_rewrites hb),
       check_trusted_proxies X hb,
       check_connect_targets hb,
       check_host_policy hb,
       check_networks X hb,
       for_opt (check_ssl X os hb) (hb_ssl hb),
       ensure (\<not> (hb_allow_connect hb \<and> hb_connect_upstream hb = None)) ConnectNoUpstream]"

definition check_stream :: "nat \<times> stream_block \<Rightarrow> cfg_error check" where
  "check_stream p =
     (case p of (i, sb) \<Rightarrow>
      checks
       [ensure (\<not> ld_port (st_listen sb) < 1) (StreamPort i),
        ensure (up_name (st_upstream sb) \<noteq> []) (StreamUpstreamName i),
        ensure (up_servers (st_upstream sb) \<noteq> []) (StreamNoServers i),
        for_opt (\<lambda>a. ensure (parse_ip_addr a \<noteq> None) (StreamAddress i a))
          (ld_address (st_listen sb))])"

definition check_mail :: "mail_block \<Rightarrow> cfg_error check" where
  "check_mail m =
     checks
      [for_each (\<lambda>l. ensure (\<not> ld_port l < 1) MailPort) (ml_listen m),
       ensure (up_name (ml_upstream m) \<noteq> []) MailUpstreamName]"

definition validate :: "ext \<Rightarrow> os \<Rightarrow> config \<Rightarrow> cfg_error check" where
  "validate X os cf =
     checks
      [for_each (check_http_block X os) (cf_http cf),
       for_each check_stream (List.enumerate 0 (cf_stream cf)),
       for_opt check_mail (cf_mail cf)]"

text \<open>\<^verbatim>\<open>resolve_upstream\<close>: the first shared pool of that name.\<close>

definition resolve_upstream :: "http_block \<Rightarrow> string \<Rightarrow> upstream_ref option" where
  "resolve_upstream hb n = find (\<lambda>u. up_name u = n) (hb_upstreams hb)"

end
