(* ===== verification/Flexd_Acme.thy ===== *)
theory Flexd_Acme
  imports Flexd_Config
begin

text \<open>
  \<^verbatim>\<open>acme.rs\<close>: the challenge store shared with the request handler and the TLS resolver, the choice
  of certificate in a handshake, the settings of the manager and the answers to the CA's challenges.
  Certificates are a type parameter. What the CA and the other crates answer is in the arguments of the
  operations that consume it. \<^verbatim>\<open>Acme_Issue\<close> has a whole attempt and the retries.
\<close>

section \<open>The challenge store\<close>

record 'c challenge_store =
  st_http01 :: "string \<rightharpoonup> string"
  st_tls_alpn :: "string \<rightharpoonup> 'c"

definition challenge_store_new :: "'c challenge_store" where
  "challenge_store_new = \<lparr>st_http01 = (\<lambda>_. None), st_tls_alpn = (\<lambda>_. None)\<rparr>"

definition put_http01 :: "'c challenge_store \<Rightarrow> string \<Rightarrow> string \<Rightarrow> 'c challenge_store" where
  "put_http01 s token key_auth = s \<lparr>st_http01 := (st_http01 s)(token \<mapsto> key_auth)\<rparr>"

definition get_http01 :: "'c challenge_store \<Rightarrow> string \<Rightarrow> string option" where
  "get_http01 s token = st_http01 s token"

definition put_tls_alpn :: "'c challenge_store \<Rightarrow> string \<Rightarrow> 'c \<Rightarrow> 'c challenge_store" where
  "put_tls_alpn s sni cert = s \<lparr>st_tls_alpn := (st_tls_alpn s)(sni \<mapsto> cert)\<rparr>"

definition get_tls_alpn :: "'c challenge_store \<Rightarrow> string \<Rightarrow> 'c option" where
  "get_tls_alpn s sni = st_tls_alpn s sni"

definition has_tls_alpn :: "'c challenge_store \<Rightarrow> bool" where
  "has_tls_alpn s \<longleftrightarrow> st_tls_alpn s \<noteq> Map.empty"

text \<open>
  The contract of a store of answers: what is put is found, other keys are untouched. It holds of
  both maps of the challenge store.
\<close>

locale answer_store =
  fixes put :: "'s \<Rightarrow> 'k \<Rightarrow> 'v \<Rightarrow> 's"
    and get :: "'s \<Rightarrow> 'k \<Rightarrow> 'v option"
  assumes get_put: "get (put s k v) k' = (if k' = k then Some v else get s k')"
begin

lemma get_after_puts:
  "(k, v) \<in> set kvs \<Longrightarrow> distinct (map fst kvs) \<Longrightarrow> get (fold (\<lambda>(k, v) s. put s k v) kvs s) k = Some v"
proof (induction kvs arbitrary: s)
  case Nil
  then show ?case by simp
next
  case (Cons kv kvs)
  obtain k' v' where kv: "kv = (k', v')" by (cases kv)
  have other: "k \<notin> fst ` set kvs \<Longrightarrow> get (fold (\<lambda>(k, v) s. put s k v) kvs s) k = get s k" for s
    by (induction kvs arbitrary: s) (auto simp: get_put)
  show ?case
  proof (cases "(k, v) \<in> set kvs")
    case True
    then show ?thesis using Cons by simp
  next
    case False
    with Cons.prems kv have "k = k'" "v = v'" "k \<notin> fst ` set kvs" by auto
    with other show ?thesis by (simp add: kv get_put)
  qed
qed

end

interpretation http01: answer_store put_http01 get_http01
  by unfold_locales (simp add: put_http01_def get_http01_def)

interpretation alpn: answer_store put_tls_alpn get_tls_alpn
  by unfold_locales (simp add: put_tls_alpn_def get_tls_alpn_def)

text \<open>\<^verbatim>\<open>AcmeResolver::resolve\<close>: \<open>alpn\<close> and \<open>sni\<close> are what the client's hello carries.\<close>

definition acme_resolve ::
  "'c \<Rightarrow> 'c challenge_store \<Rightarrow> string list option \<Rightarrow> string option \<Rightarrow> 'c option" where
  "acme_resolve dflt store alpn sni =
     (if (case alpn of Some protos \<Rightarrow> list_ex (\<lambda>p. p = ''acme-tls/1'') protos | None \<Rightarrow> False)
      then (case sni of None \<Rightarrow> None | Some sni \<Rightarrow> get_tls_alpn store sni)
      else Some dflt)"

section \<open>The manager\<close>

record 'c acme_manager =
  am_cfg :: acme_config
  am_server_names :: "string list"
  am_store :: "'c challenge_store"

definition acme_manager_new :: "acme_config \<Rightarrow> string list \<Rightarrow> 'c acme_manager" where
  "acme_manager_new cfg names =
     \<lparr>am_cfg = cfg, am_server_names = names, am_store = challenge_store_new\<rparr>"

definition http_challenge_port :: "'c acme_manager \<Rightarrow> u16" where
  "http_challenge_port m = (case ac_http_challenge_port (am_cfg m) of None \<Rightarrow> 80 | Some p \<Rightarrow> p)"

definition cert_path :: "'c acme_manager \<Rightarrow> string" where
  "cert_path m = ac_cert_dir (am_cfg m) @ ''/cert.pem''"

definition key_path :: "'c acme_manager \<Rightarrow> string" where
  "key_path m = ac_cert_dir (am_cfg m) @ ''/key.pem''"

definition acme_domains :: "'c acme_manager \<Rightarrow> string list" where
  "acme_domains m = (if ac_domains (am_cfg m) = [] then am_server_names m else ac_domains (am_cfg m))"

definition renewal_check_interval :: "'c acme_manager \<Rightarrow> duration" where
  "renewal_check_interval m =
     from_secs (case ac_renewal_check_interval_secs (am_cfg m) of None \<Rightarrow> 3600 | Some s \<Rightarrow> unat s)"

section \<open>One attempt: the authorizations\<close>

datatype challenge_type = Http01 | TlsAlpn01 | Dns01

definition challenge_kind :: "string \<Rightarrow> challenge_type option" where
  "challenge_kind ct =
     (if ct = ''http-01'' then Some Http01
      else if ct = ''tls-alpn-01'' then Some TlsAlpn01
      else if ct = ''dns-01'' then Some Dns01
      else None)"

text \<open>
  A challenge and an authorization as the CA gives them, with what the ACME client computes of a
  challenge and what telling the CA that it is ready comes to. An authorization may fail to be fetched.
\<close>

record acme_challenge =
  ch_type :: challenge_type
  ch_token :: string
  ch_key_auth :: string
  ch_digest :: string
  ch_dns_value :: string
  ch_ready_ok :: bool

record authz =
  az_valid :: bool
  az_domain :: "string option"
  az_challenges :: "acme_challenge list"

datatype acme_error =
    ClientSetup
  | EabRead | EabDecode
  | AccountCreation
  | NoDomains
  | NewOrder
  | FetchAuthorization
  | UnsupportedIdentifier
  | NoChallengeOffered string
  | ChallengeUnavailable string
  | ChallengeCert
  | NoWebhook | WebhookAuth | WebhookSend | WebhookStatus status
  | SetReady
  | PollReady | NotReady
  | KeyGeneration | CsrError
  | FinalizeOrder | PollCertificate
  | Persist

fun pick_challenge :: "string list \<Rightarrow> acme_challenge list \<Rightarrow> challenge_type option" where
  "pick_challenge [] offered = None"
| "pick_challenge (ct # cts) offered =
     (case challenge_kind ct of
        Some want \<Rightarrow>
          if list_ex (\<lambda>c. ch_type c = want) offered then Some want else pick_challenge cts offered
      | None \<Rightarrow> pick_challenge cts offered)"

text \<open>
  What the other side of the calls is: the certificate generator of \<^verbatim>\<open>rcgen\<close>, reading a file as text, and
  the webhook, by the response status to a posted record, \<open>None\<close> when sending fails.
\<close>

record webhook_post =
  wp_url :: string
  wp_timeout :: duration
  wp_authorization :: "string option"
  wp_domain :: string
  wp_token :: string
  wp_value :: string

record 'c acme_calls =
  cl_self_signed :: "string \<Rightarrow> string \<Rightarrow> 'c option"
  cl_read_string :: "string \<Rightarrow> string option"
  cl_post :: "webhook_post \<Rightarrow> status option"

definition build_tls_alpn_cert :: "'c acme_calls \<Rightarrow> string \<Rightarrow> string \<Rightarrow> 'c option" where
  "build_tls_alpn_cert K domain digest =
     (if length digest \<noteq> 32 then None else cl_self_signed K domain digest)"

definition post_dns_webhook ::
  "'c acme_calls \<Rightarrow> acme_config \<Rightarrow> string \<Rightarrow> string \<Rightarrow> string \<Rightarrow> acme_error + unit" where
  "post_dns_webhook K cfg domain token dns_value =
     (case ac_dns_webhook cfg of
        None \<Rightarrow> Inl NoWebhook
      | Some w \<Rightarrow>
          (case (case wh_auth_header w of
                   None \<Rightarrow> Some None
                 | Some path \<Rightarrow> map_option (\<lambda>v. Some (trim v)) (cl_read_string K path)) of
             None \<Rightarrow> Inl WebhookAuth
           | Some auth \<Rightarrow>
               (case cl_post K \<lparr>wp_url = wh_url w, wp_timeout = from_secs (unat (wh_timeout w)),
                       wp_authorization = auth, wp_domain = domain, wp_token = token,
                       wp_value = dns_value\<rparr> of
                  None \<Rightarrow> Inl WebhookSend
                | Some st \<Rightarrow> if 200 \<le> st \<and> st < 300 then Inr () else Inl (WebhookStatus st))))"

text \<open>
  One authorization: the answer is staged in the store, or posted, before the CA is told that the
  challenge is ready. The store is shared, so it keeps what was staged when a later step fails.
\<close>

definition stage_challenge ::
  "'c acme_calls \<Rightarrow> acme_config \<Rightarrow> 'c challenge_store \<Rightarrow> string \<Rightarrow> acme_challenge
   \<Rightarrow> 'c challenge_store \<times> (acme_error + unit)" where
  "stage_challenge K cfg store domain ch =
     (case ch_type ch of
        Http01 \<Rightarrow> (put_http01 store (ch_token ch) (ch_key_auth ch), Inr ())
      | TlsAlpn01 \<Rightarrow>
          (case build_tls_alpn_cert K domain (ch_digest ch) of
             None \<Rightarrow> (store, Inl ChallengeCert)
           | Some c \<Rightarrow> (put_tls_alpn store domain c, Inr ()))
      | Dns01 \<Rightarrow> (store, post_dns_webhook K cfg domain (ch_token ch) (ch_dns_value ch)))"

fun respond_all ::
  "'c acme_calls \<Rightarrow> acme_config \<Rightarrow> 'c challenge_store \<Rightarrow> authz option list
   \<Rightarrow> 'c challenge_store \<times> (acme_error + unit)" where
  "respond_all K cfg store [] = (store, Inr ())"
| "respond_all K cfg store (None # azs) = (store, Inl FetchAuthorization)"
| "respond_all K cfg store (Some az # azs) =
     (if az_valid az then respond_all K cfg store azs
      else (case az_domain az of
              None \<Rightarrow> (store, Inl UnsupportedIdentifier)
            | Some domain \<Rightarrow>
                (case pick_challenge (ac_challenge_types cfg) (az_challenges az) of
                   None \<Rightarrow> (store, Inl (NoChallengeOffered domain))
                 | Some want \<Rightarrow>
                     (case find (\<lambda>c. ch_type c = want) (az_challenges az) of
                        None \<Rightarrow> (store, Inl (ChallengeUnavailable domain))
                      | Some ch \<Rightarrow>
                          (case stage_challenge K cfg store domain ch of
                             (store, Inl e) \<Rightarrow> (store, Inl e)
                           | (store, Inr _) \<Rightarrow>
                               if \<not> ch_ready_ok ch then (store, Inl SetReady)
                               else respond_all K cfg store azs)))))"

section \<open>Lemmas\<close>

text \<open>The challenge an authorization is answered by.\<close>

definition chosen :: "acme_config \<Rightarrow> authz \<Rightarrow> acme_challenge option" where
  "chosen cfg az =
     Option.bind (pick_challenge (ac_challenge_types cfg) (az_challenges az))
       (\<lambda>want. find (\<lambda>c. ch_type c = want) (az_challenges az))"

lemma stage_keeps:
  assumes "stage_challenge K cfg s d ch = (s', r)" "ch_type ch \<noteq> Http01 \<or> t \<noteq> ch_token ch"
  shows "get_http01 s' t = get_http01 s t"
  using assms
  by (auto simp: stage_challenge_def put_http01_def put_tls_alpn_def get_http01_def
      split: challenge_type.splits option.splits)

text \<open>The tokens of the challenges that the pending authorizations are answered by.\<close>

definition tokens :: "acme_config \<Rightarrow> authz option list \<Rightarrow> string list" where
  "tokens cfg azs =
     List.map_filter (\<lambda>oz. Option.bind oz (\<lambda>az.
        if az_valid az then None else map_option ch_token (chosen cfg az))) azs"

lemma tokens_Cons:
  "tokens cfg (Some az # azs) =
     (if az_valid az then tokens cfg azs
      else (case chosen cfg az of Some ch \<Rightarrow> [ch_token ch] | None \<Rightarrow> []) @ tokens cfg azs)"
  "tokens cfg (None # azs) = tokens cfg azs"
  by (simp_all add: tokens_def map_filter_def split: option.split)

lemma respond_all_pending:
  assumes "respond_all K cfg s (Some az # azs) = (s', Inr ())" "\<not> az_valid az"
  obtains domain ch s2 where "az_domain az = Some domain" "chosen cfg az = Some ch"
    "stage_challenge K cfg s domain ch = (s2, Inr ())" "ch_ready_ok ch"
    "respond_all K cfg s2 azs = (s', Inr ())"
  using assms
  by (auto simp: chosen_def split: option.splits prod.splits sum.splits if_splits)

lemma respond_all_keeps:
  "t \<notin> set (tokens cfg azs) \<Longrightarrow> get_http01 (fst (respond_all K cfg s azs)) t = get_http01 s t"
proof (induction azs arbitrary: s)
  case (Cons oz azs)
  show ?case
  proof (cases oz)
    case (Some az)
    have rest: "t \<notin> set (tokens cfg azs)"
      and ch: "\<And>ch. \<not> az_valid az \<Longrightarrow> chosen cfg az = Some ch \<Longrightarrow> t \<noteq> ch_token ch"
      using Cons.prems by (auto simp: Some tokens_Cons split: if_splits option.splits)
    have staged: "get_http01 s2 t = get_http01 s t"
      if "\<not> az_valid az" "chosen cfg az = Some ch" "stage_challenge K cfg s d ch = (s2, r)" for ch d s2 r
      using stage_keeps [OF that(3)] ch [OF that(1,2)] by blast
    show ?thesis
    proof (cases "az_valid az \<or> az_domain az = None \<or> chosen cfg az = None")
      case True
      then show ?thesis
        using Cons.IH [OF rest, of s] by (auto simp: Some chosen_def split: option.splits)
    next
      case False
      then obtain d ch where d: "az_domain az = Some d" "chosen cfg az = Some ch" "\<not> az_valid az" by auto
      obtain s2 r where st: "stage_challenge K cfg s d ch = (s2, r)"
        by (cases "stage_challenge K cfg s d ch")
      have "fst (respond_all K cfg s (Some az # azs)) = s2
          \<or> fst (respond_all K cfg s (Some az # azs)) = fst (respond_all K cfg s2 azs)"
        using d st by (auto simp: chosen_def split: option.splits sum.splits)
      then show ?thesis
        using staged [OF d(3,2) st] Cons.IH [OF rest, of s2] by (auto simp: Some)
    qed
  qed simp
qed simp

section \<open>Properties\<close>

text \<open>
  Every challenge is staged when the CA is told it is ready. When all authorizations were answered,
  each pending one was answered by the first configured challenge type that the CA offered: the store
  holds the key authorization under the token for http-01, the certificate for its digest was made for
  tls-alpn-01, and the webhook accepted the record for dns-01.
\<close>

theorem challenges_staged:
  assumes "respond_all K cfg s azs = (s', Inr ())" "distinct (tokens cfg azs)"
    and "Some az \<in> set azs" "\<not> az_valid az"
  shows "\<exists>domain ch. az_domain az = Some domain \<and> chosen cfg az = Some ch \<and> ch_ready_ok ch
    \<and> (case ch_type ch of
         Http01 \<Rightarrow> get_http01 s' (ch_token ch) = Some (ch_key_auth ch)
       | TlsAlpn01 \<Rightarrow> length (ch_digest ch) = 32 \<and> cl_self_signed K domain (ch_digest ch) \<noteq> None
       | Dns01 \<Rightarrow> post_dns_webhook K cfg domain (ch_token ch) (ch_dns_value ch) = Inr ())"
  using assms
proof (induction azs arbitrary: s)
  case (Cons oz azs)
  show ?case
  proof (cases "oz = Some az")
    case True
    obtain domain ch s2 where c: "az_domain az = Some domain" "chosen cfg az = Some ch"
      "stage_challenge K cfg s domain ch = (s2, Inr ())" "ch_ready_ok ch"
      "respond_all K cfg s2 azs = (s', Inr ())"
      using respond_all_pending [OF Cons.prems(1) [unfolded True] Cons.prems(4)] by blast
    have "ch_token ch \<notin> set (tokens cfg azs)"
      using Cons.prems(2,4) c(2) True by (simp add: tokens_Cons)
    from respond_all_keeps [OF this, of K s2] c(5)
    have "get_http01 s' (ch_token ch) = get_http01 s2 (ch_token ch)" by simp
    then show ?thesis
      using c(3) by (intro exI [of _ domain] exI [of _ ch])
        (auto simp: c(1,2,4) stage_challenge_def http01.get_put build_tls_alpn_cert_def
          split: challenge_type.splits option.splits if_splits)
  next
    case False
    obtain s2 where "respond_all K cfg s2 azs = (s', Inr ())"
    proof (cases oz)
      case (Some az2)
      show ?thesis
      proof (cases "az_valid az2")
        case False
        show ?thesis using respond_all_pending [OF Cons.prems(1) [unfolded Some] False] that by blast
      qed (use Cons.prems(1) Some that in auto)
    qed (use Cons.prems(1) in simp)
    moreover have "distinct (tokens cfg azs)"
      using Cons.prems(2) by (cases oz) (auto simp: tokens_Cons split: if_splits)
    ultimately show ?thesis using Cons.IH False Cons.prems(3,4) by auto
  qed
qed simp

definition sample_calls :: "nat acme_calls" where
  "sample_calls = \<lparr>cl_self_signed = (\<lambda>_ _. Some 0), cl_read_string = (\<lambda>_. None), cl_post = (\<lambda>_. Some 200)\<rparr>"

definition sample_authz :: authz where
  "sample_authz =
     \<lparr>az_valid = False, az_domain = Some ''a.example'',
      az_challenges = [\<lparr>ch_type = Http01, ch_token = ''tok'', ch_key_auth = ''tok.thumb'', ch_digest = [],
        ch_dns_value = [], ch_ready_ok = True\<rparr>]\<rparr>"

theorem challenges_staged_witness:
  "get_http01 (fst (respond_all sample_calls default_acme
     (challenge_store_new :: nat challenge_store) [Some sample_authz])) ''tok'' = Some ''tok.thumb''"
proof -
  let ?cfg = "default_acme"
  have c: "chosen ?cfg sample_authz = Some (hd (az_challenges sample_authz))"
    by (simp add: chosen_def sample_authz_def default_acme_def challenge_kind_def)
  have r: "respond_all sample_calls ?cfg challenge_store_new [Some sample_authz]
      = (put_http01 challenge_store_new ''tok'' ''tok.thumb'', Inr ())"
    by (simp add: sample_authz_def default_acme_def challenge_kind_def stage_challenge_def)
  have d: "distinct (tokens ?cfg [Some sample_authz])" by (simp add: tokens_def map_filter_def)
  have "\<not> az_valid sample_authz" by (simp add: sample_authz_def)
  from challenges_staged [OF r d _ this] c r show ?thesis by (simp add: sample_authz_def)
qed

text \<open>
  Challenge certificates stay out of ordinary traffic: a handshake that does not offer
  \<^verbatim>\<open>acme-tls/1\<close> gets the default certificate, whatever is staged; one that does gets the staged
  certificate of the name it asks for or none, and never the default one.
\<close>

theorem challenge_cert_isolated:
  "acme_resolve dflt store alpn sni =
     (if \<exists>protos. alpn = Some protos \<and> ''acme-tls/1'' \<in> set protos
      then Option.bind sni (get_tls_alpn store) else Some dflt)"
  by (auto simp: acme_resolve_def list_ex_iff split: option.splits)

end
