(* ===== verification/Upstream_Filter.thy ===== *)
theory Upstream_Filter
  imports Flexd_Externs
begin

unbundle bit_operations_syntax

text \<open>
  \<^verbatim>\<open>security/upstream_filter.rs\<close>: which upstream and CONNECT targets may be reached. The operations
  are the ones of the source. The interface \<open>address_filter\<close> states what a client that vets
  addresses relies on; the filter is its instance. The lemmas give the filter's verdict on every
  printed IPv4 literal, the agreement of the range tests with a table of CIDR blocks, and the
  verdict on IPv4-mapped addresses.
\<close>

section \<open>Operations\<close>

definition split_host_port :: "string \<Rightarrow> string \<times> u16 option" where
  "split_host_port addr =
     (case strip_prefix addr ''['' of
        Some rest \<Rightarrow>
          (case find_char CHR '']'' rest of
             Some e \<Rightarrow>
               (take e rest,
                (case strip_prefix (drop (e + 1) rest) '':'' of
                   None \<Rightarrow> None | Some p \<Rightarrow> parse_u16 p))
           | None \<Rightarrow> (addr, None))
      | None \<Rightarrow>
          if 1 < length (filter (\<lambda>c. c = CHR '':'') addr) then (addr, None)
          else (case rsplit_once CHR '':'' addr of
                  Some (host, port) \<Rightarrow>
                    (case parse_u16 port of Some p \<Rightarrow> (host, Some p) | None \<Rightarrow> (addr, None))
                | None \<Rightarrow> (addr, None)))"

fun restricted_v4 :: "ipv4_addr \<Rightarrow> bool" where
  "restricted_v4 (Ipv4 a b c d) \<longleftrightarrow>
     v4_is_private (Ipv4 a b c d)
     \<or> v4_is_loopback (Ipv4 a b c d)
     \<or> v4_is_link_local (Ipv4 a b c d)
     \<or> v4_is_multicast (Ipv4 a b c d)
     \<or> v4_is_broadcast (Ipv4 a b c d)
     \<or> v4_is_unspecified (Ipv4 a b c d)
     \<or> v4_is_documentation (Ipv4 a b c d)
     \<or> a = 0
     \<or> a = 100 \<and> b AND 0xc0 = 64"

definition restricted_v6 :: "ipv6_addr \<Rightarrow> bool" where
  "restricted_v6 v6 =
     (case to_ipv4_mapped v6 of
        Some mapped \<Rightarrow> restricted_v4 mapped
      | None \<Rightarrow>
          v6_is_loopback v6
          \<or> v6_is_multicast v6
          \<or> v6_is_unspecified v6
          \<or> hd (segments v6) AND 0xfe00 = 0xfc00
          \<or> hd (segments v6) AND 0xffc0 = 0xfe80)"

fun is_restricted :: "ip_addr \<Rightarrow> bool" where
  "is_restricted (V4 v4) = restricted_v4 v4"
| "is_restricted (V6 v6) = restricted_v6 v6"

fun canonical :: "ip_addr \<Rightarrow> ip_addr" where
  "canonical (V6 v6) = (case to_ipv4_mapped v6 of Some a \<Rightarrow> V4 a | None \<Rightarrow> V6 v6)"
| "canonical (V4 v4) = V4 v4"

definition ip_allowed :: "ext \<Rightarrow> ip_addr \<Rightarrow> ip_network list \<Rightarrow> bool" where
  "ip_allowed X ip nets =
     (if \<not> is_restricted ip then True
      else list_ex (\<lambda>net. net_contains X net ip \<or> net_contains X net (canonical ip)) nets)"

definition parse_networks :: "ext \<Rightarrow> string list option \<Rightarrow> ip_network list" where
  "parse_networks X allowed =
     List.map_filter (parse_network X) (case allowed of None \<Rightarrow> [] | Some cs \<Rightarrow> cs)"

text \<open>The error carries the address, as the message does.\<close>

definition is_upstream_allowed :: "ext \<Rightarrow> string \<Rightarrow> string list option \<Rightarrow> string + unit" where
  "is_upstream_allowed X addr allowed =
     (case parse_ip_addr (fst (split_host_port addr)) of
        Some ip \<Rightarrow>
          if \<not> ip_allowed X ip (parse_networks X allowed) then Inl addr else Inr ()
      | None \<Rightarrow> Inr ())"

section \<open>A reference table\<close>

text \<open>The restricted IPv4 ranges as CIDR blocks of 32-bit addresses.\<close>

fun v4_value :: "ipv4_addr \<Rightarrow> nat" where
  "v4_value (Ipv4 a b c d) = ((unat a * 256 + unat b) * 256 + unat c) * 256 + unat d"

definition restricted_blocks :: "(ipv4_addr \<times> nat) list" where
  "restricted_blocks =
     [(Ipv4 0 0 0 0, 8), (Ipv4 10 0 0 0, 8), (Ipv4 100 64 0 0, 10), (Ipv4 127 0 0 0, 8),
      (Ipv4 169 254 0 0, 16), (Ipv4 172 16 0 0, 12), (Ipv4 192 0 2 0, 24),
      (Ipv4 192 168 0 0, 16), (Ipv4 198 51 100 0, 24), (Ipv4 203 0 113 0, 24),
      (Ipv4 224 0 0 0, 4), (Ipv4 255 255 255 255, 32)]"

definition in_block :: "ipv4_addr \<Rightarrow> ipv4_addr \<times> nat \<Rightarrow> bool" where
  "in_block v blk = (case blk of (base, len) \<Rightarrow>
     v4_value v div 2 ^ (32 - len) = v4_value base div 2 ^ (32 - len))"

section \<open>The contract of an address filter\<close>

text \<open>
  A client that connects only to permitted addresses never reaches a restricted one outside the
  operator's allowlist.
\<close>

locale address_filter =
  fixes permitted :: "ip_addr \<Rightarrow> bool"
    and restricted :: "ip_addr \<Rightarrow> bool"
    and listed :: "ip_addr \<Rightarrow> bool"
  assumes public_permitted: "\<not> restricted ip \<Longrightarrow> permitted ip"
    and restricted_permitted: "restricted ip \<Longrightarrow> permitted ip \<longleftrightarrow> listed ip"
begin

lemma permitted_iff: "permitted ip \<longleftrightarrow> \<not> restricted ip \<or> listed ip"
  using public_permitted restricted_permitted by blast

lemma vetted_all:
  "list_all (permitted \<circ> fst) (as :: socket_addr list)
     \<longleftrightarrow> (\<forall>(ip, p)\<in>set as. restricted ip \<longrightarrow> listed ip)"
  by (induction as) (auto simp: permitted_iff)

lemma first_refused:
  assumes "\<not> list_all (permitted \<circ> fst) as"
  shows "\<exists>ip. ip \<in> fst ` set (as :: socket_addr list) \<and> restricted ip \<and> \<not> listed ip"
  using assms by (induction as) (auto simp: permitted_iff)

end

definition listed_in :: "ext \<Rightarrow> ip_network list \<Rightarrow> ip_addr \<Rightarrow> bool" where
  "listed_in X nets ip \<longleftrightarrow>
     (\<exists>net\<in>set nets. net_contains X net ip \<or> net_contains X net (canonical ip))"

interpretation upf: address_filter "\<lambda>ip. ip_allowed X ip nets" is_restricted "listed_in X nets"
  for X nets
  by unfold_locales (auto simp: ip_allowed_def listed_in_def list_ex_iff)

section \<open>Ports and hosts\<close>

lemma digits_from_append:
  "digits_from bound radix acc (xs @ ys) =
     (case digits_from bound radix acc xs of
        None \<Rightarrow> None | Some a \<Rightarrow> digits_from bound radix a ys)"
  by (induction xs arbitrary: acc) (auto split: option.splits)

lemma digits_from_show_nat:
  "n < bound \<Longrightarrow> 10 \<le> bound \<Longrightarrow> digits_from bound 10 0 (show_nat n) = Some n"
proof (induction n rule: show_nat.induct)
  case (1 n)
  show ?case
  proof (cases "n < 10")
    case True
    with "1.prems" show ?thesis
      by (simp add: show_nat.simps [of n] to_digit_digit_char)
  next
    case False
    with "1.prems" have "n div 10 < bound" by linarith
    with "1.IH" [OF False] "1.prems"
    have "digits_from bound 10 0 (show_nat (n div 10)) = Some (n div 10)" by blast
    with False "1.prems" show ?thesis
      by (simp add: show_nat.simps [of n] digits_from_append to_digit_digit_char)
  qed
qed

lemma show_nat_not_empty [simp]: "show_nat n \<noteq> []"
  by (simp add: show_nat.simps [of n])

lemma parse_u16_show_nat: "parse_u16 (show_nat (unat p)) = Some p"
proof -
  have "unat p < 65536" by (rule unat_u16_less)
  then have d: "digits_from 65536 10 0 (show_nat (unat p)) = Some (unat p)"
    by (simp add: digits_from_show_nat)
  have "CHR ''+'' \<notin> set (show_nat (unat p))" by (rule not_in_show_nat) simp
  then have "uint_from_str_radix (2 ^ 16) 10 (show_nat (unat p)) = Some (unat p)"
    using d by (cases "show_nat (unat p)") (auto simp: uint_from_str_radix_def Let_def)
  then show ?thesis by (simp add: parse_u16_def)
qed

lemma count_colon: "CHR '':'' \<notin> set s \<Longrightarrow> filter (\<lambda>c. c = CHR '':'') s = []"
  by (auto simp: filter_empty_conv)

lemma split_host_port_plain:
  assumes "CHR '':'' \<notin> set host" "CHR '':'' \<notin> set port" "\<not> prefix ''['' host" "host \<noteq> []"
  shows "split_host_port (host @ '':'' @ port) =
    (case parse_u16 port of Some p \<Rightarrow> (host, Some p) | None \<Rightarrow> (host @ '':'' @ port, None))"
proof -
  have "strip_prefix (host @ '':'' @ port) ''['' = None"
    using assms(3,4) by (cases host) (auto simp: strip_prefix_def)
  then show ?thesis
    using assms(1,2) rsplit_once_append [of "CHR '':''" port host]
    by (simp add: split_host_port_def count_colon split: option.splits)
qed

lemma show_ipv4_first: "show_ipv4 v \<noteq> []" "\<not> prefix ''['' (show_ipv4 v)"
proof -
  have b: "CHR ''['' \<notin> set (show_nat n)" for n by (rule not_in_show_nat) simp
  show "show_ipv4 v \<noteq> []" by (cases v) simp
  have "CHR ''['' \<notin> set (show_ipv4 v)" using b by (cases v) simp
  then show "\<not> prefix ''['' (show_ipv4 v)" by (auto dest: set_mono_prefix)
qed

lemma parse_ip_addr_show_ipv4_more:
  assumes "no_digit_first r" "r \<noteq> []"
  shows "parse_ip_addr (show_ipv4 v @ r) = None"
proof (cases v)
  case (Ipv4 a b c d)
  have "read_ipv4_addr (show_ipv4 v @ r) = Some (v, r)"
    using read_octet_show(2) [OF assms(1), of 3 d]
    by (simp add: Ipv4 read_ipv4_addr_def read_octet_show)
  with assms(2) show ?thesis by (simp add: parse_ip_addr_def)
qed

lemma listed_in_parse_networks:
  "listed_in X (parse_networks X (Some cs)) ip \<longleftrightarrow>
     (\<exists>c\<in>set cs. x_net_ok X c
        \<and> (x_net_contains X c ip \<or> x_net_contains X c (canonical ip)))"
  by (force simp: listed_in_def parse_networks_def map_filter_def parse_network_def)

lemma cgnat_mask: "(b::u8) AND 0xc0 = 64 \<longleftrightarrow> unat b div 64 = 1"
proof -
  have m: "(0xc0 :: u8) = NOT (mask 6)" by (simp add: mask_eq_exp_minus_1)
  have "b AND 0xc0 = 64 \<longleftrightarrow> unat (b AND NOT (mask 6)) = unat (64::u8)"
    unfolding m by (simp only: word_unat_eq_iff)
  then show ?thesis by (simp add: unat_and_not_mask)
qed

lemma mult_add_eq: "y < n \<Longrightarrow> (x::nat) * n + y = k \<longleftrightarrow> x = k div n \<and> y = k mod n"
  by (metis add.commute div_mult_mod_eq div_mult_self1 div_less add.left_neutral mod_less mod_mult_self1 not_less0)

lemma v4_value_div:
  "v4_value (Ipv4 a b c d) div 256 = (unat a * 256 + unat b) * 256 + unat c"
  "v4_value (Ipv4 a b c d) div 65536 = unat a * 256 + unat b"
  "v4_value (Ipv4 a b c d) div 16777216 = unat a"
  "v4_value (Ipv4 a b c d) div 4194304 = unat a * 4 + unat b div 64"
  "v4_value (Ipv4 a b c d) div 1048576 = unat a * 16 + unat b div 16"
  "v4_value (Ipv4 a b c d) div 268435456 = unat a div 16"
proof -
  note less = unat_u8_less [of a] unat_u8_less [of b] unat_u8_less [of c] unat_u8_less [of d]
  show 1: "v4_value (Ipv4 a b c d) div 256 = (unat a * 256 + unat b) * 256 + unat c"
    using less by (simp add: div_mult_self3)
  have "v4_value (Ipv4 a b c d) div (256 * 256) = unat a * 256 + unat b"
    unfolding div_mult2_eq 1 using less by simp
  then show 2: "v4_value (Ipv4 a b c d) div 65536 = unat a * 256 + unat b" by simp
  have "v4_value (Ipv4 a b c d) div (65536 * 256) = unat a"
    unfolding div_mult2_eq 2 using less by simp
  then show 3: "v4_value (Ipv4 a b c d) div 16777216 = unat a" by simp
  have "v4_value (Ipv4 a b c d) div (65536 * 64) = unat a * 4 + unat b div 64"
    unfolding div_mult2_eq 2 using div_mult_self1 [of 64 "unat b" "unat a * 4"] by (simp add: algebra_simps)
  then show "v4_value (Ipv4 a b c d) div 4194304 = unat a * 4 + unat b div 64" by simp
  have "v4_value (Ipv4 a b c d) div (65536 * 16) = unat a * 16 + unat b div 16"
    unfolding div_mult2_eq 2 using div_mult_self1 [of 16 "unat b" "unat a * 16"] by (simp add: algebra_simps)
  then show "v4_value (Ipv4 a b c d) div 1048576 = unat a * 16 + unat b div 16" by simp
  have "v4_value (Ipv4 a b c d) div (16777216 * 16) = unat a div 16"
    unfolding div_mult2_eq 3 by simp
  then show "v4_value (Ipv4 a b c d) div 268435456 = unat a div 16" by simp
qed

lemma split_host_port_ipv4:
  "split_host_port (show_ipv4 v @ '':'' @ show_nat (unat (port :: u16))) = (show_ipv4 v, Some port)"
proof -
  have "CHR '':'' \<notin> set (show_nat (unat port))" by (rule not_in_show_nat) simp
  then show ?thesis
    using split_host_port_plain [OF colon_not_in_show_ipv4 _ show_ipv4_first(2,1)]
    by (simp add: parse_u16_show_nat)
qed

section \<open>Properties\<close>

text \<open>
  The verdict of the filter on an IPv4 literal with a port, for every address, every port and
  every allowlist: it passes exactly when the address is in no restricted range or some
  well-formed network of the allowlist contains it.
\<close>

theorem is_upstream_allowed_ipv4:
  "is_upstream_allowed X (show_ipv4 v @ '':'' @ show_nat (unat (port :: u16))) allowed = Inr ()
   \<longleftrightarrow> \<not> restricted_v4 v
      \<or> (\<exists>c\<in>set (case allowed of None \<Rightarrow> [] | Some cs \<Rightarrow> cs).
            x_net_ok X c \<and> x_net_contains X c (V4 v))"
proof -
  have "split_host_port (show_ipv4 v @ '':'' @ show_nat (unat port)) = (show_ipv4 v, Some port)"
    by (rule split_host_port_ipv4)
  moreover have "listed_in X (parse_networks X allowed) (V4 v) \<longleftrightarrow>
      (\<exists>c\<in>set (case allowed of None \<Rightarrow> [] | Some cs \<Rightarrow> cs).
         x_net_ok X c \<and> x_net_contains X c (V4 v))"
    using listed_in_parse_networks [of X "case allowed of None \<Rightarrow> [] | Some cs \<Rightarrow> cs" "V4 v"]
    by (cases allowed) (simp_all add: parse_networks_def listed_in_def)
  ultimately show ?thesis
    by (auto simp: is_upstream_allowed_def parse_show_ipv4 upf.permitted_iff)
qed

theorem is_upstream_allowed_ipv4_witness:
  "is_upstream_allowed sample_ext (show_ipv4 (Ipv4 127 0 0 1) @ '':'' @ show_nat (unat (9081 :: u16)))
     None \<noteq> Inr ()
   \<and> is_upstream_allowed sample_ext (show_ipv4 (Ipv4 127 0 0 1) @ '':'' @ show_nat (unat (9081 :: u16)))
     (Some [''127.0.0.0/8'']) = Inr ()"
  unfolding is_upstream_allowed_ipv4 by (simp add: sample_ext_def)

text \<open>
  The octet tests of \<^verbatim>\<open>restricted_v4\<close>, bit mask included, select exactly the addresses of the
  twelve CIDR blocks of the table.
\<close>

theorem restricted_v4_blocks:
  "restricted_v4 v \<longleftrightarrow> list_ex (in_block v) restricted_blocks"
proof (cases v)
  case (Ipv4 a b c d)
  note less = unat_u8_less [of a] unat_u8_less [of b] unat_u8_less [of c] unat_u8_less [of d]
  have q: "unat b div 64 < 4" "unat b div 16 < 16" using less by simp_all
  have r: "unat a div 16 = 14 \<longleftrightarrow> 224 \<le> unat a \<and> unat a \<le> 239"
    "unat b div 16 = Suc 0 \<longleftrightarrow> 16 \<le> unat b \<and> unat b \<le> 31" by linarith+
  have t: "65536 * unat a + unat b * 256 + unat c = k
      \<longleftrightarrow> unat a = k div 256 div 256 \<and> unat b = k div 256 mod 256 \<and> unat c = k mod 256" for k
    using mult_add_eq [OF less(3), of "unat a * 256 + unat b" k]
      mult_add_eq [OF less(2), of "unat a" "k div 256"]
    by (simp add: algebra_simps)
  have blocks: "list_ex (in_block v) restricted_blocks \<longleftrightarrow>
      unat a = 0 \<or> unat a = 10 \<or> unat a = 100 \<and> unat b div 64 = 1 \<or> unat a = 127
      \<or> unat a = 169 \<and> unat b = 254 \<or> unat a = 172 \<and> 16 \<le> unat b \<and> unat b \<le> 31
      \<or> unat a = 192 \<and> unat b = 0 \<and> unat c = 2 \<or> unat a = 192 \<and> unat b = 168
      \<or> unat a = 198 \<and> unat b = 51 \<and> unat c = 100 \<or> unat a = 203 \<and> unat b = 0 \<and> unat c = 113
      \<or> 224 \<le> unat a \<and> unat a \<le> 239
      \<or> unat a = 255 \<and> unat b = 255 \<and> unat c = 255 \<and> unat d = 255"
  proof -
    have "v4_value v = v4_value (Ipv4 255 255 255 255) \<longleftrightarrow>
        unat a = 255 \<and> unat b = 255 \<and> unat c = 255 \<and> unat d = 255"
      unfolding Ipv4 v4_value.simps by (simp only: mult_add_eq less) (simp add: conj_assoc)
    then show ?thesis
      unfolding Ipv4
      by (simp add: restricted_blocks_def in_block_def v4_value_div mult_add_eq less q r t conj_assoc
          del: v4_value.simps)
  qed
  have "restricted_v4 v \<longleftrightarrow>
      (unat a = 10 \<or> unat a = 172 \<and> 16 \<le> unat b \<and> unat b \<le> 31 \<or> unat a = 192 \<and> unat b = 168)
      \<or> unat a = 127 \<or> unat a = 169 \<and> unat b = 254 \<or> 224 \<le> unat a \<and> unat a \<le> 239
      \<or> unat a = 255 \<and> unat b = 255 \<and> unat c = 255 \<and> unat d = 255
      \<or> unat a = 0 \<and> unat b = 0 \<and> unat c = 0 \<and> unat d = 0
      \<or> (unat a = 192 \<and> unat b = 0 \<and> unat c = 2 \<or> unat a = 198 \<and> unat b = 51 \<and> unat c = 100
          \<or> unat a = 203 \<and> unat b = 0 \<and> unat c = 113)
      \<or> unat a = 0 \<or> unat a = 100 \<and> unat b div 64 = 1"
    unfolding Ipv4 restricted_v4.simps v4_is_private.simps v4_is_loopback.simps
      v4_is_link_local.simps v4_is_multicast.simps v4_is_broadcast.simps v4_is_unspecified.simps
      v4_is_documentation.simps cgnat_mask unfolding word_unat_eq_iff word_le_nat_alt
    by simp
  then show ?thesis unfolding blocks by argo
qed

text \<open>
  C33. The verdict of the filter on an IPv4 literal with a port, for every address, every port and every
  allowlist, against a table: a literal passes exactly when it is in none of the twelve CIDR blocks of
  the table, or some well-formed network of the allowlist contains it.
\<close>

theorem filter_verdict_ipv4:
  "is_upstream_allowed X (show_ipv4 v @ '':'' @ show_nat (unat (port :: u16))) allowed = Inr ()
   \<longleftrightarrow> \<not> list_ex (in_block v) restricted_blocks
      \<or> (\<exists>c\<in>set (case allowed of None \<Rightarrow> [] | Some cs \<Rightarrow> cs). x_net_ok X c \<and> x_net_contains X c (V4 v))"
  unfolding is_upstream_allowed_ipv4 restricted_v4_blocks by (rule refl)

theorem filter_verdict_ipv4_witness:
  "is_upstream_allowed sample_ext (show_ipv4 (Ipv4 100 64 0 9) @ '':'' @ show_nat (unat (80 :: u16))) None \<noteq> Inr ()
   \<and> is_upstream_allowed sample_ext (show_ipv4 (Ipv4 127 0 0 1) @ '':'' @ show_nat (unat (80 :: u16)))
     (Some [''127.0.0.0/8'']) = Inr ()"
  unfolding filter_verdict_ipv4 by (simp add: sample_ext_def restricted_blocks_def in_block_def)

text \<open>
  An IPv4-mapped IPv6 address is judged by the address it embeds: it is restricted exactly when
  the embedded one is, and an allowlist entry for the embedded one admits it.
\<close>

theorem mapped_judged_as_v4:
  "is_restricted (V6 (to_ipv6_mapped v)) = is_restricted (V4 v)
   \<and> (ip_allowed X (V4 v) nets \<longrightarrow> ip_allowed X (V6 (to_ipv6_mapped v)) nets)"
  by (auto simp: restricted_v6_def upf.permitted_iff listed_in_def)

theorem mapped_judged_as_v4_witness:
  "ip_allowed sample_ext (V4 (Ipv4 127 0 0 1)) [IpNetwork ''127.0.0.0/8'']
   \<and> ip_allowed sample_ext (V6 (Ipv6 0 0 0 0 0 0xffff 0x7f00 1)) [IpNetwork ''127.0.0.0/8'']"
proof -
  have m: "to_ipv6_mapped (Ipv4 127 0 0 1) = Ipv6 0 0 0 0 0 0xffff 0x7f00 1"
    by (simp add: u16_from_be_bytes_def)
  have a: "ip_allowed sample_ext (V4 (Ipv4 127 0 0 1)) [IpNetwork ''127.0.0.0/8'']"
    by (simp add: ip_allowed_def sample_ext_def)
  show ?thesis
    using a mapped_judged_as_v4 [of "Ipv4 127 0 0 1" sample_ext "[IpNetwork ''127.0.0.0/8'']"]
    unfolding m by blast
qed

text \<open>
  The forms an authority can take are taken apart as written: a host without a colon or a
  bracketed host, with a decimal port.
\<close>

theorem split_host_port_roundtrip:
  assumes "CHR '':'' \<notin> set host" "host \<noteq> []" "\<not> prefix ''['' host" "CHR '']'' \<notin> set v6"
  shows "split_host_port (host @ '':'' @ show_nat (unat (p :: u16))) = (host, Some p)
    \<and> split_host_port host = (host, None)
    \<and> split_host_port (''['' @ v6 @ '']:'' @ show_nat (unat p)) = (v6, Some p)
    \<and> split_host_port (''['' @ v6 @ '']'') = (v6, None)"
proof -
  have "CHR '':'' \<notin> set (show_nat (unat p))" by (rule not_in_show_nat) simp
  then have 1: "split_host_port (host @ '':'' @ show_nat (unat p)) = (host, Some p)"
    using assms by (simp add: split_host_port_plain [simplified] parse_u16_show_nat)
  have 2: "split_host_port host = (host, None)"
    using assms(1,3)
    by (simp add: split_host_port_def strip_prefix_def count_colon
        rsplit_once_None [THEN iffD2])
  have 3: "split_host_port (''['' @ v6 @ '']'' @ r) =
      (v6, case strip_prefix r '':'' of None \<Rightarrow> None | Some p \<Rightarrow> parse_u16 p)" for r
    using find_char_append [OF assms(4), of r] by (simp add: split_host_port_def strip_prefix_def)
  have 4: "split_host_port (''['' @ v6 @ '']'') = (v6, None)"
    using 3 [of "[]"] by (simp add: strip_prefix_def)
  have "split_host_port (''['' @ v6 @ '']:'' @ show_nat (unat p)) = (v6, Some p)"
    using 3 [of "'':'' @ show_nat (unat p)"] by (simp add: strip_prefix_def parse_u16_show_nat)
  with 1 2 4 show ?thesis by blast
qed

theorem split_host_port_roundtrip_witness:
  "split_host_port (''flexd.example'' @ '':'' @ show_nat (unat (8080 :: u16)))
     = (''flexd.example'', Some 8080)
   \<and> split_host_port ''flexd.example'' = (''flexd.example'', None)
   \<and> split_host_port (''['' @ ''::1'' @ '']:'' @ show_nat (unat (8080 :: u16))) = (''::1'', Some 8080)
   \<and> split_host_port (''['' @ ''::1'' @ '']'') = (''::1'', None)"
  by (rule split_host_port_roundtrip [of "''flexd.example''" "''::1''" 8080]) simp_all

text \<open>
  A port that is not a 16-bit number makes the filter take the whole authority for a host name,
  which it lets through: a literal of any restricted range passes without an allowlist.
\<close>

theorem bad_port_bypasses_filter:
  assumes "parse_u16 port = None" "CHR '':'' \<notin> set port"
  shows "is_upstream_allowed X (show_ipv4 v @ '':'' @ port) allowed = Inr ()"
proof -
  have "split_host_port (show_ipv4 v @ '':'' @ port) = (show_ipv4 v @ '':'' @ port, None)"
    using split_host_port_plain [OF colon_not_in_show_ipv4 assms(2) show_ipv4_first(2,1)] assms(1)
    by simp
  moreover have "parse_ip_addr (show_ipv4 v @ '':'' @ port) = None"
    by (rule parse_ip_addr_show_ipv4_more) (simp_all add: no_digit_first_def to_digit_def digit_val_def)
  ultimately show ?thesis by (simp add: is_upstream_allowed_def)
qed

theorem bad_port_bypasses_filter_witness:
  "restricted_v4 (Ipv4 127 0 0 1) \<and> parse_u16 ''99999'' = None
   \<and> is_upstream_allowed sample_ext (show_ipv4 (Ipv4 127 0 0 1) @ '':'' @ ''99999'') None
     = Inr ()"
proof -
  have p: "parse_u16 ''99999'' = None"
    by (simp add: parse_u16_def uint_from_str_radix_def to_digit_def digit_val_def)
  show ?thesis
    using bad_port_bypasses_filter [OF p, of sample_ext "Ipv4 127 0 0 1" None] p by simp
qed

end
