(* ===== verification/Flexd_Headers.thy ===== *)
theory Flexd_Headers
  imports Upstream_Filter
begin

text \<open>
  \<^verbatim>\<open>security/headers.rs\<close>: hop-by-hop stripping, the trusted-proxy boundary, redaction and the CR/LF
  check. The lemmas give the values of every header name after each operation, under the
  documented behaviour \<open>header_laws\<close> of the header map.
\<close>

section \<open>Operations\<close>

definition HOP_BY_HOP :: "string list" where
  "HOP_BY_HOP =
     [''connection'', ''keep-alive'', ''transfer-encoding'', ''te'', ''trailer'', ''upgrade'',
      ''proxy-authorization'', ''proxy-authenticate'']"

definition NOMINATION_EXEMPT :: "string list" where
  "NOMINATION_EXEMPT = [''host'', ''content-length'']"

definition nominated :: "ext \<Rightarrow> header_map \<Rightarrow> string list" where
  "nominated X headers =
     filter (\<lambda>t. t \<noteq> [] \<and> t \<notin> set NOMINATION_EXEMPT)
       (map (\<lambda>t. to_ascii_lowercase (trim t))
         (concat (map (split_char CHR '','')
           (List.map_filter (hv_to_str X) (hm_get_all headers ''connection'')))))"

definition strip_hop_by_hop :: "ext \<Rightarrow> header_map \<Rightarrow> header_map" where
  "strip_hop_by_hop X headers =
     (let headers =
        fold (\<lambda>token h.
                case hn_from_bytes X token of
                  Some name \<Rightarrow> x_hm_remove X h name
                | None \<Rightarrow> h)
          (nominated X headers) headers
      in fold (\<lambda>name h. x_hm_remove X h name) HOP_BY_HOP headers)"

definition ATTRIBUTION :: "string list" where
  "ATTRIBUTION =
     [''x-forwarded-for'', ''forwarded'', ''x-real-ip'', ''x-forwarded-host'', ''x-forwarded-proto'']"

text \<open>\<^verbatim>\<open>Vec<&str>::join\<close>.\<close>

fun str_join :: "string \<Rightarrow> string list \<Rightarrow> string" where
  "str_join sep [] = []"
| "str_join sep [x] = x"
| "str_join sep (x # y # ys) = x @ sep @ str_join sep (y # ys)"

text \<open>
  Insert a header if its value is well formed (\<^verbatim>\<open>if let Ok(v) = HeaderValue::from_str(..)\<close>), and the
  same under the guard that the name is absent.
\<close>

definition insert_str :: "ext \<Rightarrow> string \<Rightarrow> string \<Rightarrow> header_map \<Rightarrow> header_map" where
  "insert_str X name s h =
     (case hv_from_str X s of Some v \<Rightarrow> x_hm_insert X h name v | None \<Rightarrow> h)"

definition insert_absent :: "ext \<Rightarrow> string \<Rightarrow> string \<Rightarrow> header_map \<Rightarrow> header_map" where
  "insert_absent X name s h = (if \<not> hm_contains_key h name then insert_str X name s h else h)"

definition apply_forwarding_policy ::
  "ext \<Rightarrow> header_map \<Rightarrow> ip_addr \<Rightarrow> string \<Rightarrow> string option \<Rightarrow> ip_network list \<Rightarrow> header_map" where
  "apply_forwarding_policy X headers client scheme original_host trusted_proxies =
     (let trusted = list_ex (\<lambda>n. net_contains X n client) trusted_proxies;
          joined = str_join '', ''
            (List.map_filter (hv_to_str X) (hm_get_all headers ''x-forwarded-for''));
          prior_xff = (if trusted then (if joined \<noteq> [] then Some joined else None) else None);
          headers = (if trusted then headers
                     else fold (\<lambda>name h. x_hm_remove X h name) ATTRIBUTION headers);
          xff = (case prior_xff of
                   Some prev \<Rightarrow> prev @ '', '' @ show_ip X client
                 | None \<Rightarrow> show_ip X client);
          headers = insert_str X ''x-forwarded-for'' xff headers;
          headers = insert_absent X ''x-real-ip'' (show_ip X client) headers;
          headers = insert_absent X ''x-forwarded-proto'' scheme headers
      in if \<not> hm_contains_key headers ''x-forwarded-host''
         then (case original_host of
                 Some host \<Rightarrow> x_hm_insert X headers ''x-forwarded-host'' host
               | None \<Rightarrow> headers)
         else headers)"

definition normalize_headers :: "ext \<Rightarrow> header_map \<Rightarrow> header_map" where
  "normalize_headers X headers = strip_hop_by_hop X headers"

definition SENSITIVE :: "string list" where
  "SENSITIVE = [''authorization'', ''cookie'', ''proxy-authorization'', ''set-cookie'']"

definition redact_sensitive_headers :: "ext \<Rightarrow> header_map \<Rightarrow> (string \<times> string) list" where
  "redact_sensitive_headers X headers =
     map (\<lambda>(name, value).
            (let name_str = to_lowercase (x_lower X) name;
                 value_str =
                   (if name_str \<in> set SENSITIVE then ''[REDACTED]''
                    else (case hv_to_str X value of Some s \<Rightarrow> s | None \<Rightarrow> ''[INVALID]''))
             in (name_str, value_str)))
       headers"

definition validate_header_values :: "ext \<Rightarrow> header_map \<Rightarrow> bool" where
  "validate_header_values X headers =
     list_all (\<lambda>(_, v).
        case hv_to_str X v of
          Some s \<Rightarrow> byte 13 \<notin> set s \<and> byte 10 \<notin> set s
        | None \<Rightarrow> False) headers"

section \<open>Values after each operation\<close>

lemma get_all_fold_remove:
  assumes "header_laws X"
  shows "hm_get_all (fold (\<lambda>n h. x_hm_remove X h n) ns h) k =
    (if k \<in> set ns then [] else hm_get_all h k)"
  using assms by (induction ns arbitrary: h) auto

lemma get_all_fold_nominated:
  assumes "header_laws X"
  shows "hm_get_all (fold (\<lambda>t h. case hn_from_bytes X t of
        Some name \<Rightarrow> x_hm_remove X h name | None \<Rightarrow> h) ts h) k =
    (if k \<in> set ts \<and> x_hn_ok X k then [] else hm_get_all h k)"
  using assms by (induction ts arbitrary: h) (auto simp: hn_from_bytes_def split: option.splits)

lemma in_nominated:
  "k \<in> set (nominated X h) \<longleftrightarrow>
     k \<noteq> [] \<and> k \<notin> set NOMINATION_EXEMPT
     \<and> (\<exists>v t. (''connection'', v) \<in> set h \<and> x_hv_visible X v
          \<and> t \<in> set (split_char CHR '','' v) \<and> k = to_ascii_lowercase (trim t))"
  by (auto simp: nominated_def map_filter_def hv_to_str_def in_get_all image_iff
      split: if_splits)

lemma strip_get_all:
  "header_laws X \<Longrightarrow> hm_get_all (strip_hop_by_hop X h) k =
    (if k \<in> set HOP_BY_HOP \<or> k \<in> set (nominated X h) \<and> x_hn_ok X k then [] else hm_get_all h k)"
  unfolding strip_hop_by_hop_def Let_def
  by (simp only: get_all_fold_remove get_all_fold_nominated) auto

lemma get_all_insert_str:
  "header_laws X \<Longrightarrow> hm_get_all (insert_str X n s h) k =
     (if k = n \<and> x_hv_ok X s then [s] else hm_get_all h k)"
  by (auto simp: insert_str_def hv_from_str_def)

lemma get_all_insert_absent:
  "header_laws X \<Longrightarrow> hm_get_all (insert_absent X n s h) k =
     (if k = n \<and> hm_get_all h n = [] \<and> x_hv_ok X s then [s] else hm_get_all h k)"
  by (simp add: insert_absent_def hm_contains_key_def get_all_insert_str)

lemma map_filter_to_str: "List.map_filter (hv_to_str X) vs = filter (x_hv_visible X) vs"
  by (induction vs) (auto simp: map_filter_simps hv_to_str_def)

lemmas forwarding_values =
  apply_forwarding_policy_def Let_def hm_contains_key_def get_all_insert_str get_all_insert_absent
  get_all_fold_remove map_filter_to_str

section \<open>Properties\<close>

text \<open>
  C27. Stripping decides the fate of every header: the eight hop-by-hop headers go, and so does each
  name some readable \<^verbatim>\<open>Connection\<close> value nominates, \<^verbatim>\<open>host\<close> and \<^verbatim>\<open>content-length\<close> excepted; every
  other header keeps all its values in order.
\<close>

theorem strip_hop_by_hop_spec:
  assumes "header_laws X"
  shows "hm_get_all (strip_hop_by_hop X h) k =
    (if k \<in> set HOP_BY_HOP
        \<or> (k \<noteq> [] \<and> k \<notin> {''host'', ''content-length''} \<and> x_hn_ok X k
           \<and> (\<exists>v t. (''connection'', v) \<in> set h \<and> x_hv_visible X v
                \<and> t \<in> set (split_char CHR '','' v) \<and> k = to_ascii_lowercase (trim t)))
     then [] else hm_get_all h k)"
  by (simp add: strip_get_all [OF assms] in_nominated NOMINATION_EXEMPT_def conj_ac)

theorem strip_hop_by_hop_spec_witness:
  "hm_get_all (strip_hop_by_hop sample_ext
     [(''connection'', ''close,X-Secret''), (''x-secret'', ''t''), (''host'', ''a'')]) ''x-secret'' = []"
proof -
  have "''x-secret'' = to_ascii_lowercase (trim ''X-Secret'')"
    using trim_visible(1) [of "CHR ''X''" "CHR ''t''" "''-Secre''"]
      by simp code_simp
  moreover have "x_hv_visible sample_ext ''close,X-Secret''"
    by (simp add: sample_ext_def is_ascii_def)
  ultimately have "\<exists>v t. (''connection'', v) \<in> set [(''connection'', ''close,X-Secret''),
      (''x-secret'', ''t''), (''host'', ''a'')] \<and> x_hv_visible sample_ext v
      \<and> t \<in> set (split_char CHR '','' v) \<and> ''x-secret'' = to_ascii_lowercase (trim t)"
    by (intro exI [of _ "''close,X-Secret''"] exI [of _ "''X-Secret''"]) simp
  then show ?thesis
    unfolding strip_hop_by_hop_spec [OF sample_ext_header_laws]
    by (simp add: sample_ext_def)
qed



text \<open>
  From a trusted proxy the chain is extended: the client's address is appended to the readable
  prior values of \<^verbatim>\<open>X-Forwarded-For\<close>, and \<^verbatim>\<open>X-Real-IP\<close>, \<^verbatim>\<open>X-Forwarded-Proto\<close>,
  \<^verbatim>\<open>X-Forwarded-Host\<close> and \<^verbatim>\<open>Forwarded\<close> keep the values they arrived with.
\<close>

theorem trusted_attribution_extended:
  assumes "header_laws X" "list_ex (\<lambda>n. net_contains X n client) trusted"
    and "prior = str_join '', '' (filter (x_hv_visible X) (hm_get_all h ''x-forwarded-for''))"
    and "x_hv_ok X (if prior = [] then show_ip X client else prior @ '', '' @ show_ip X client)"
  shows "hm_get_all (apply_forwarding_policy X h client scheme original_host trusted)
      ''x-forwarded-for'' =
        [if prior = [] then show_ip X client else prior @ '', '' @ show_ip X client]
    \<and> (k \<noteq> ''x-forwarded-for'' \<and> hm_get_all h k \<noteq> []
       \<longrightarrow> hm_get_all (apply_forwarding_policy X h client scheme original_host trusted) k
         = hm_get_all h k)"
  using assms(1,2,4) assms(3) [symmetric]
  by (cases "prior = []") (auto simp: forwarding_values split: option.split)

theorem trusted_attribution_extended_witness:
  "hm_get_all (apply_forwarding_policy sample_ext [(''x-forwarded-for'', ''1.2.3.4'')]
     (V4 (Ipv4 127 0 0 1)) ''http'' None [IpNetwork ''127.0.0.0/8'']) ''x-forwarded-for''
   = [''1.2.3.4, '' @ show_ip sample_ext (V4 (Ipv4 127 0 0 1))]"
proof -
  have t: "list_ex (\<lambda>n. net_contains sample_ext n (V4 (Ipv4 127 0 0 1))) [IpNetwork ''127.0.0.0/8'']"
    by (simp add: sample_ext_def)
  have p: "''1.2.3.4'' = str_join '', '' (filter (x_hv_visible sample_ext)
      (hm_get_all [(''x-forwarded-for'', ''1.2.3.4'')] ''x-forwarded-for''))"
    by (simp add: sample_ext_def hm_get_all_def is_ascii_def)
  have "x_hv_ok sample_ext s" for s by (simp add: sample_ext_def)
  from trusted_attribution_extended [OF sample_ext_header_laws t p this]
  show ?thesis by simp
qed

text \<open>
  Redaction lists every header once, in order, and never shows the value of a sensitive one;
  other readable values are shown as they are.
\<close>

theorem redaction_hides_sensitive:
  "length (redact_sensitive_headers X h) = length h
   \<and> (\<forall>i<length h. \<exists>n w. redact_sensitive_headers X h ! i = (n, w)
        \<and> n = to_lowercase (x_lower X) (fst (h ! i))
        \<and> w = (if n \<in> {''authorization'', ''cookie'', ''proxy-authorization'', ''set-cookie''}
               then ''[REDACTED]''
               else if x_hv_visible X (snd (h ! i)) then snd (h ! i) else ''[INVALID]''))"
  by (auto simp: redact_sensitive_headers_def Let_def SENSITIVE_def hv_to_str_def
      split: prod.splits)

theorem redaction_hides_sensitive_witness:
  "redact_sensitive_headers sample_ext [(''cookie'', ''secret'')] ! 0 = (''cookie'', ''[REDACTED]'')"
proof -
  have "to_lowercase (x_lower sample_ext) ''cookie'' = ''cookie''" by code_simp
  then show ?thesis
    using redaction_hides_sensitive [of sample_ext "[(''cookie'', ''secret'')]"] by auto
qed

end
