(* ===== verification/Flexd_Interfaces.thy ===== *)
theory Flexd_Interfaces
  imports Flexd_Prelude "HOL-Library.AList" "HOL-Library.Multiset"
begin

text \<open>
  Two contracts that several components share. \<open>weighted_pick\<close> is the loop that accumulates weights
  until a point falls below the sum: the load balancer and the A/B router run it, at different
  word lengths. \<open>capped_store\<close> is a table that is cleared when it is full before an entry is put:
  the sticky sessions and the DNS cache are such tables. What follows from the contracts is
  proved here once.
\<close>

section \<open>Picking by cumulative weight\<close>

lemma unat_sum_list:
  "sum_list (map unat (ws :: 'w::len word list)) < 2 ^ LENGTH('w) \<Longrightarrow>
     unat (sum_list ws) = sum_list (map unat ws)"
proof (induction ws)
  case (Cons w ws)
  then have "unat (sum_list ws) = sum_list (map unat ws)" by simp
  with Cons.prems show ?case using unat_add_lem [of w "sum_list ws"] by simp
qed simp

locale weighted_pick =
  fixes weight :: "'a \<Rightarrow> 'w::len word"
    and pick :: "'w word \<Rightarrow> 'w word \<Rightarrow> 'a list \<Rightarrow> 'a option"
  assumes pick_Nil: "pick c p [] = None"
    and pick_Cons: "pick c p (x # xs) =
      (if p < c + weight x then Some x else pick (c + weight x) p xs)"
begin

definition total :: "'a list \<Rightarrow> nat" where
  "total xs = sum_list (map (unat \<circ> weight) xs)"

lemma total_simps [simp]:
  "total [] = 0" "total (x # xs) = unat (weight x) + total xs" "total (xs @ ys) = total xs + total ys"
  by (simp_all add: total_def)

lemma step_sum:
  assumes "unat c + total (x # xs) < 2 ^ LENGTH('w)"
  shows "unat (c + weight x) = unat c + unat (weight x)"
  using assms unat_add_lem [of c "weight x"] by simp

lemma pick_at:
  assumes "unat c + total (ys @ x # zs) < 2 ^ LENGTH('w)"
    and "unat c + total ys \<le> unat p" "unat p < unat c + total ys + unat (weight x)"
  shows "pick c p (ys @ x # zs) = Some x"
  using assms
proof (induction ys arbitrary: c)
  case Nil
  then show ?case using step_sum [of c x zs] by (simp add: pick_Cons word_less_nat_alt)
next
  case (Cons y ys)
  have "unat (c + weight y) = unat c + unat (weight y)"
    using Cons.prems(1) by (intro step_sum [of c y "ys @ x # zs"]) simp
  then show ?case
    using Cons.IH [of "c + weight y"] Cons.prems by (simp add: pick_Cons word_less_nat_alt)
qed

lemma pick_Some:
  assumes "unat c + total xs < 2 ^ LENGTH('w)" "unat c \<le> unat p" "pick c p xs = Some x"
  shows "\<exists>ys zs. xs = ys @ x # zs \<and> unat c + total ys \<le> unat p
    \<and> unat p < unat c + total ys + unat (weight x)"
  using assms
proof (induction xs arbitrary: c)
  case Nil
  then show ?case by (simp add: pick_Nil)
next
  case (Cons y xs)
  have s: "unat (c + weight y) = unat c + unat (weight y)"
    by (rule step_sum [OF Cons.prems(1)])
  show ?case
  proof (cases "p < c + weight y")
    case True
    with Cons.prems s show ?thesis
      by (intro exI [of _ "[]"] exI [of _ xs]) (simp add: pick_Cons word_less_nat_alt)
  next
    case False
    with Cons.prems(3) have "pick (c + weight y) p xs = Some x" by (simp add: pick_Cons)
    moreover have "unat (c + weight y) \<le> unat p" using False by (simp add: word_less_nat_alt)
    ultimately obtain ys zs where "xs = ys @ x # zs"
      "unat (c + weight y) + total ys \<le> unat p"
      "unat p < unat (c + weight y) + total ys + unat (weight x)"
      using Cons.IH [of "c + weight y"] Cons.prems(1) s by auto
    with s show ?thesis by (intro exI [of _ "y # ys"] exI [of _ zs]) simp
  qed
qed

lemma pick_mem: "pick c p xs = Some x \<Longrightarrow> x \<in> set xs"
  by (induction xs arbitrary: c) (auto simp: pick_Nil pick_Cons split: if_splits)

lemma pick_total:
  "unat c + total xs < 2 ^ LENGTH('w) \<Longrightarrow> unat p < unat c + total xs \<Longrightarrow> unat c \<le> unat p
     \<Longrightarrow> pick c p xs \<noteq> None"
proof (induction xs arbitrary: c)
  case Nil
  then show ?case by simp
next
  case (Cons y xs)
  have "unat (c + weight y) = unat c + unat (weight y)" by (rule step_sum [OF Cons.prems(1)])
  with Cons.IH [of "c + weight y"] Cons.prems show ?case
    by (simp add: pick_Cons word_less_nat_alt word_le_nat_alt)
qed

lemma pick_interval:
  assumes "distinct (ys @ x # zs)" "total (ys @ x # zs) < 2 ^ LENGTH('w)"
    "n < total (ys @ x # zs)"
  shows "pick 0 (of_nat n) (ys @ x # zs) = Some x
    \<longleftrightarrow> total ys \<le> n \<and> n < total ys + unat (weight x)"
proof -
  have n: "unat (of_nat n :: 'w word) = n"
    using assms(2,3) by (intro unat_of_nat_small) simp
  show ?thesis
  proof
    assume "pick 0 (of_nat n) (ys @ x # zs) = Some x"
    then obtain ys' zs' where d: "ys @ x # zs = ys' @ x # zs'" "total ys' \<le> n"
      "n < total ys' + unat (weight x)"
      using pick_Some [of 0 "ys @ x # zs" "of_nat n" x] assms(2) n by auto
    moreover have "ys = ys'"
    proof -
      have "takeWhile (\<lambda>a. a \<noteq> x) (ys @ x # zs) = ys"
        using assms(1) by (auto simp: takeWhile_append)
      moreover have "distinct (ys' @ x # zs')" using assms(1) d(1) by simp
      then have "takeWhile (\<lambda>a. a \<noteq> x) (ys' @ x # zs') = ys'"
        by (auto simp: takeWhile_append)
      ultimately show ?thesis using d(1) by simp
    qed
    ultimately show "total ys \<le> n \<and> n < total ys + unat (weight x)" by simp
  next
    assume "total ys \<le> n \<and> n < total ys + unat (weight x)"
    then show "pick 0 (of_nat n) (ys @ x # zs) = Some x"
      using assms(2) n by (intro pick_at) simp_all
  qed
qed

text \<open>Each element is picked by as many points as it has weight.\<close>

lemma pick_share:
  assumes "distinct xs" "total xs < 2 ^ LENGTH('w)" "x \<in> set xs"
  shows "card {n. n < total xs \<and> pick 0 (of_nat n) xs = Some x} = unat (weight x)"
proof -
  from assms(3) obtain ys zs where xs: "xs = ys @ x # zs" by (auto simp: in_set_conv_decomp)
  have "{n. n < total xs \<and> pick 0 (of_nat n) xs = Some x}
      = {total ys..<total ys + unat (weight x)}"
    using pick_interval [of ys x zs] assms(1,2) xs by auto
  then show ?thesis by simp
qed

end

section \<open>Tables that are cleared when full\<close>

text \<open>
  \<open>look\<close> is a lookup by key, \<open>put\<close> stores an entry, \<open>size\<close> counts entries.
\<close>

locale capped_store =
  fixes cap :: nat
    and size :: "'s \<Rightarrow> nat"
    and look :: "'s \<Rightarrow> 'k \<Rightarrow> 'v option"
    and put :: "'s \<Rightarrow> 'k \<Rightarrow> 'v \<Rightarrow> 's"
  assumes cap_pos: "0 < cap"
    and put_room: "size s < cap \<Longrightarrow> size (put s k v) \<le> Suc (size s)"
    and put_full: "cap \<le> size s \<Longrightarrow> size (put s k v) = 1"
    and look_put: "look (put s k v) k = Some v"
    and look_other: "k' \<noteq> k \<Longrightarrow> size s < cap \<Longrightarrow> look (put s k v) k' = look s k'"
    and look_cleared: "k' \<noteq> k \<Longrightarrow> cap \<le> size s \<Longrightarrow> look (put s k v) k' = None"
begin

definition put_all :: "('k \<times> 'v) list \<Rightarrow> 's \<Rightarrow> 's" where
  "put_all kvs s = fold (\<lambda>(k, v) s. put s k v) kvs s"

lemma size_put: "size s \<le> cap \<Longrightarrow> size (put s k v) \<le> cap"
  using put_room [of s k v] put_full [of s k v] cap_pos by (cases "size s < cap") auto

lemma size_put_all: "size s \<le> cap \<Longrightarrow> size (put_all kvs s) \<le> cap"
  by (induction kvs arbitrary: s) (auto simp: put_all_def size_put)

text \<open>An entry stays, or is gone; it never changes unless its key is put again.\<close>

lemma look_put_all:
  "k \<notin> fst ` set kvs \<Longrightarrow> look (put_all kvs s) k = look s k \<or> look (put_all kvs s) k = None"
proof (induction kvs arbitrary: s)
  case Nil
  then show ?case by (simp add: put_all_def)
next
  case (Cons kv kvs)
  obtain k' v where kv: "kv = (k', v)" by (cases kv)
  have ne: "k \<noteq> k'" and rest: "k \<notin> fst ` set kvs" using Cons.prems kv by auto
  have "look (put s k' v) k = look s k \<or> look (put s k' v) k = None"
    using look_other [OF ne, of s v] look_cleared [OF ne, of s v] by (cases "size s < cap") auto
  then show ?case using Cons.IH [OF rest, of "put s k' v"] by (auto simp: put_all_def kv)
qed

end

section \<open>Association lists as hash maps\<close>

lemma map_of_clear_update:
  "map_of (AList.update k v m) = (map_of m)(k \<mapsto> v)"
  by (rule update_conv')

lemma length_update_le: "length (AList.update k v m) \<le> Suc (length m)"
  by (induction m) auto

end
