(* ===== verification/Pinning_Resolver.thy ===== *)
theory Pinning_Resolver
  imports Upstream_Filter Flexd_Interfaces
begin

text \<open>
  \<^verbatim>\<open>resolver.rs\<close>: the DNS resolver that vets every answer and pins it for a time. The name server's
  answer and the clock are arguments of each call. \<open>resolve_checked\<close> awaits the answer between its
  lookup in the cache and its store, so other tasks may run in between: \<open>resolver_step\<close> is the
  relation of the atomic parts, and what is cached is an invariant of it.
\<close>

section \<open>Operations\<close>

definition MAX_CACHE_ENTRIES :: nat where
  "MAX_CACHE_ENTRIES = 4096"

record cache_entry =
  ce_addrs :: "socket_addr list"
  ce_expires :: instant

type_synonym dns_cache = "(string \<times> cache_entry) list"

record pinning_resolver =
  pr_allowed :: "ip_network list"
  pr_cache :: dns_cache
  pr_ttl :: duration

datatype dns_error = NotFound string | PermissionDenied string ip_addr | LookupFailed

definition resolver_new :: "ip_network list \<Rightarrow> duration \<Rightarrow> pinning_resolver" where
  "resolver_new allowed ttl = \<lparr>pr_allowed = allowed, pr_cache = [], pr_ttl = ttl\<rparr>"

definition cached :: "pinning_resolver \<Rightarrow> string \<Rightarrow> instant \<Rightarrow> pinning_resolver \<times> socket_addr list option" where
  "cached r host now =
     (case map_of (pr_cache r) host of
        Some entry \<Rightarrow>
          if now < ce_expires entry then (r, Some (ce_addrs entry))
          else (r \<lparr>pr_cache := AList.delete host (pr_cache r)\<rparr>, None)
      | None \<Rightarrow> (r, None))"

definition cache_put :: "dns_cache \<Rightarrow> string \<Rightarrow> cache_entry \<Rightarrow> dns_cache" where
  "cache_put c host entry =
     AList.update host entry (if MAX_CACHE_ENTRIES \<le> length c then [] else c)"

definition cache_store ::
  "pinning_resolver \<Rightarrow> string \<Rightarrow> socket_addr list \<Rightarrow> instant \<Rightarrow> pinning_resolver" where
  "cache_store r host addrs now =
     r \<lparr>pr_cache := cache_put (pr_cache r) host \<lparr>ce_addrs = addrs, ce_expires = now + pr_ttl r\<rparr>\<rparr>"

text \<open>\<^verbatim>\<open>resolve_checked\<close> from the answer on: \<open>None\<close> is a failed lookup.\<close>

definition vet_answer ::
  "ext \<Rightarrow> pinning_resolver \<Rightarrow> string \<Rightarrow> socket_addr list option \<Rightarrow> instant
   \<Rightarrow> pinning_resolver \<times> (dns_error + socket_addr list)" where
  "vet_answer X r host answer now =
     (case answer of
        None \<Rightarrow> (r, Inl LookupFailed)
      | Some addrs \<Rightarrow>
          if addrs = [] then (r, Inl (NotFound host))
          else (case find (\<lambda>sa. \<not> ip_allowed X (fst sa) (pr_allowed r)) addrs of
                  Some sa \<Rightarrow> (r, Inl (PermissionDenied host (fst sa)))
                | None \<Rightarrow> (cache_store r host addrs now, Inr addrs)))"

definition resolve_checked ::
  "ext \<Rightarrow> pinning_resolver \<Rightarrow> string \<Rightarrow> instant \<Rightarrow> socket_addr list option \<Rightarrow> instant
   \<Rightarrow> pinning_resolver \<times> (dns_error + socket_addr list)" where
  "resolve_checked X r host now answer later =
     (case cached r host now of
        (r, Some addrs) \<Rightarrow> (r, Inr addrs)
      | (r, None) \<Rightarrow> vet_answer X r host answer later)"

section \<open>Interleaved calls\<close>

inductive resolver_step :: "ext \<Rightarrow> pinning_resolver \<Rightarrow> pinning_resolver \<Rightarrow> bool"
  for X where
  lookup: "resolver_step X r (fst (cached r host now))"
| answered: "resolver_step X r (fst (vet_answer X r host answer now))"

definition vetted :: "ext \<Rightarrow> pinning_resolver \<Rightarrow> bool" where
  "vetted X r \<longleftrightarrow>
     (\<forall>host e. map_of (pr_cache r) host = Some e
        \<longrightarrow> ce_addrs e \<noteq> [] \<and> list_all (\<lambda>sa. ip_allowed X (fst sa) (pr_allowed r)) (ce_addrs e))"

interpretation dns: capped_store MAX_CACHE_ENTRIES length map_of cache_put
proof
  fix s :: dns_cache and k v
  show "length s < MAX_CACHE_ENTRIES \<Longrightarrow> length (cache_put s k v) \<le> Suc (length s)"
    by (simp add: cache_put_def length_update_le)
qed (simp_all add: cache_put_def MAX_CACHE_ENTRIES_def map_of_clear_update)

lemma cached_allowed [simp]: "pr_allowed (fst (cached r host now)) = pr_allowed r"
  by (simp add: cached_def split: option.split)

lemma vet_answer_allowed [simp]: "pr_allowed (fst (vet_answer X r host answer now)) = pr_allowed r"
  by (simp add: vet_answer_def cache_store_def split: option.split)

lemma cached_cache:
  "map_of (pr_cache (fst (cached r host now))) h = Some e \<Longrightarrow> map_of (pr_cache r) h = Some e"
  by (auto simp: cached_def delete_conv' split: option.splits if_splits)

lemma cached_vetted: "vetted X r \<Longrightarrow> vetted X (fst (cached r host now))"
  unfolding vetted_def by (metis cached_allowed cached_cache)

lemma cache_put_Some:
  "map_of (cache_put c host e) h = Some e' \<Longrightarrow> (h = host \<and> e' = e) \<or> map_of c h = Some e'"
  by (auto simp: cache_put_def map_of_clear_update split: if_splits)

lemma find_refused_None:
  "find (\<lambda>sa. \<not> ip_allowed X (fst sa) nets) as = None
     \<longleftrightarrow> list_all (\<lambda>sa. ip_allowed X (fst sa) nets) as"
  by (induction as) auto

lemma vet_answer_vetted:
  assumes "vetted X r"
  shows "vetted X (fst (vet_answer X r host answer now))"
proof -
  have "vetted X (cache_store r host addrs now)"
    if "addrs \<noteq> []" "list_all (\<lambda>sa. ip_allowed X (fst sa) (pr_allowed r)) addrs" for addrs
    using that assms by (auto simp: vetted_def cache_store_def dest!: cache_put_Some)
  then show ?thesis
    using assms
    by (auto simp: vet_answer_def find_refused_None split: option.splits)
qed

lemma resolver_steps_vetted:
  assumes "(resolver_step X)\<^sup>*\<^sup>* r r'" "vetted X r"
  shows "vetted X r' \<and> pr_allowed r' = pr_allowed r"
  using assms
proof (induction rule: rtranclp_induct)
  case (step y z)
  from step(2) step.IH step.prems show ?case
    by cases (auto simp: cached_vetted vet_answer_vetted)
qed simp

lemma resolver_reachable_vetted:
  assumes "(resolver_step X)\<^sup>*\<^sup>* (resolver_new allowed ttl) r"
  shows "vetted X r \<and> pr_allowed r = allowed \<and> pr_ttl r = ttl \<and> length (pr_cache r) \<le> MAX_CACHE_ENTRIES"
  using assms
proof (induction rule: rtranclp_induct)
  case base
  show ?case by (simp add: vetted_def resolver_new_def)
next
  case (step r r')
  have size: "length (AList.delete h (pr_cache r)) \<le> MAX_CACHE_ENTRIES" for h
    using step.IH length_delete_le [of h "pr_cache r"] by simp
  from step(2) show ?case
  proof cases
    case (lookup host now)
    with step.IH size cached_vetted show ?thesis
      by (auto simp: cached_def split: option.split)
  next
    case (answered host answer now)
    with step.IH vet_answer_vetted dns.size_put show ?thesis
      by (auto simp: vet_answer_def cache_store_def split: option.split)
  qed
qed

text \<open>A call on a vetted cache returns addresses that pass the filter, and at least one.\<close>

lemma resolve_checked_vets:
  assumes "vetted X r" "snd (resolve_checked X r host now answer later) = Inr addrs"
  shows "addrs \<noteq> [] \<and> list_all (\<lambda>sa. ip_allowed X (fst sa) (pr_allowed r)) addrs"
proof (cases "cached r host now")
  case (Pair r' hit)
  show ?thesis
  proof (cases hit)
    case (Some a)
    then obtain e where "map_of (pr_cache r) host = Some e" "ce_addrs e = addrs"
      using assms(2) Pair
      by (auto simp: resolve_checked_def cached_def split: option.splits if_splits)
    with assms(1) show ?thesis by (auto simp: vetted_def)
  next
    case None
    have "pr_allowed r' = pr_allowed r" using Pair cached_allowed [of r host now] by simp
    then show ?thesis
      using assms(2) Pair None
      by (auto simp: resolve_checked_def vet_answer_def find_refused_None
          split: option.splits if_splits)
  qed
qed

lemma resolved_permitted:
  assumes "(resolver_step X)\<^sup>*\<^sup>* (resolver_new allowed ttl) r"
    and "snd (resolve_checked X r host now answer later) = Inr addrs"
  shows "addrs \<noteq> [] \<and> (\<forall>(ip, port)\<in>set addrs. is_restricted ip \<longrightarrow> listed_in X allowed ip)"
proof -
  have inv: "vetted X r" "pr_allowed r = allowed" using resolver_reachable_vetted [OF assms(1)] by auto
  have "addrs \<noteq> [] \<and> list_all ((\<lambda>ip. ip_allowed X ip allowed) \<circ> fst) addrs"
    using resolve_checked_vets [OF inv(1) assms(2)] inv(2) by (simp add: comp_def)
  then show ?thesis by (simp add: upf.vetted_all)
qed

section \<open>Properties\<close>

text \<open>
  C14. No address a caller gets is restricted unless the operator listed it, whatever the name server
  answers, now or earlier, and however calls interleave: from a cache reached by any sequence of
  lookups and answers, a call that succeeds returns at least one address and only permitted ones.
\<close>

theorem resolved_addresses_vetted:
  assumes "(resolver_step X)\<^sup>*\<^sup>* (resolver_new allowed ttl) r"
    and "snd (resolve_checked X r host now answer later) = Inr addrs"
  shows "addrs \<noteq> [] \<and> (\<forall>(ip, port)\<in>set addrs. is_restricted ip \<longrightarrow> listed_in X allowed ip)"
  by (rule resolved_permitted [OF assms])

theorem resolved_addresses_vetted_witness:
  "is_restricted (V4 (Ipv4 127 0 0 1))
   \<and> snd (resolve_checked sample_ext (resolver_new [IpNetwork ''127.0.0.0/8''] 30) ''app'' 0
        (Some [(V4 (Ipv4 127 0 0 1), 0)]) 1) = Inr [(V4 (Ipv4 127 0 0 1), 0)]
   \<and> listed_in sample_ext [IpNetwork ''127.0.0.0/8''] (V4 (Ipv4 127 0 0 1))"
proof -
  have r: "snd (resolve_checked sample_ext (resolver_new [IpNetwork ''127.0.0.0/8''] 30) ''app'' 0
        (Some [(V4 (Ipv4 127 0 0 1), 0)]) 1) = Inr [(V4 (Ipv4 127 0 0 1), 0)]"
    by (simp add: resolve_checked_def cached_def vet_answer_def resolver_new_def ip_allowed_def
        sample_ext_def)
  show ?thesis
    using r resolved_addresses_vetted [OF rtranclp.rtrancl_refl r] by simp
qed

text \<open>
  An answer with one address the filter refuses is refused whole, the error names the first such
  address, and the cache does not change.
\<close>

theorem mixed_answer_refused:
  assumes "sa \<in> set addrs" "\<not> ip_allowed X (fst sa) (pr_allowed r)"
  shows "\<exists>ip. vet_answer X r host (Some addrs) now = (r, Inl (PermissionDenied host ip))
    \<and> ip \<in> fst ` set addrs \<and> is_restricted ip \<and> \<not> listed_in X (pr_allowed r) ip"
proof -
  from assms obtain sa' where f: "find (\<lambda>sa. \<not> ip_allowed X (fst sa) (pr_allowed r)) addrs = Some sa'"
    by (cases "find (\<lambda>sa. \<not> ip_allowed X (fst sa) (pr_allowed r)) addrs") (auto simp: find_refused_None list_all_iff)
  then have "sa' \<in> set addrs" "\<not> ip_allowed X (fst sa') (pr_allowed r)"
    by (auto simp: find_Some_iff)
  with f assms(1) show ?thesis by (auto simp: vet_answer_def upf.permitted_iff)
qed

theorem mixed_answer_refused_witness:
  "\<exists>ip. vet_answer sample_ext (resolver_new [] 30) ''app''
      (Some [(V4 (Ipv4 8 8 8 8), 0), (V4 (Ipv4 127 0 0 1), 0)]) 0
    = (resolver_new [] 30, Inl (PermissionDenied ''app'' ip))"
  using mixed_answer_refused [of "(V4 (Ipv4 127 0 0 1), 0)"
      "[(V4 (Ipv4 8 8 8 8), 0), (V4 (Ipv4 127 0 0 1), 0)]" sample_ext "resolver_new [] 30" "''app''" 0]
  by (auto simp: ip_allowed_def resolver_new_def)

text \<open>
  Answers are pinned: after a name resolved, every call for it within the time to live gets the
  same addresses without looking at the name server's answer, and from then on it is asked anew.
\<close>

theorem answer_pinned:
  assumes "vet_answer X r host (Some addrs) now = (r', Inr addrs)"
  shows "resolve_checked X r' host t answer t' =
    (if t < now + pr_ttl r then (r', Inr addrs)
     else vet_answer X (r' \<lparr>pr_cache := AList.delete host (pr_cache r')\<rparr>) host answer t')"
proof -
  have "r' = cache_store r host addrs now"
    using assms by (auto simp: vet_answer_def split: option.splits if_splits)
  then have "map_of (pr_cache r') host = Some \<lparr>ce_addrs = addrs, ce_expires = now + pr_ttl r\<rparr>"
    by (simp add: cache_store_def dns.look_put)
  then show ?thesis by (simp add: resolve_checked_def cached_def)
qed

theorem answer_pinned_witness:
  "snd (resolve_checked sample_ext
     (fst (vet_answer sample_ext (resolver_new [] 30) ''app'' (Some [(V4 (Ipv4 8 8 8 8), 0)]) 5))
     ''app'' 20 (Some [(V4 (Ipv4 127 0 0 1), 0)]) 21) = Inr [(V4 (Ipv4 8 8 8 8), 0)]"
proof -
  let ?v = "vet_answer sample_ext (resolver_new [] 30) ''app'' (Some [(V4 (Ipv4 8 8 8 8), 0)]) 5"
  have "snd ?v = Inr [(V4 (Ipv4 8 8 8 8), 0)]"
    by (simp add: vet_answer_def resolver_new_def ip_allowed_def)
  then have v: "?v = (fst ?v, Inr [(V4 (Ipv4 8 8 8 8), 0)])" by (metis prod.collapse)
  show ?thesis
    unfolding answer_pinned [OF v] by (simp add: resolver_new_def)
qed

end
