(* ===== verification/Flexd_Proxy.thy ===== *)
theory Flexd_Proxy
  imports Flexd_Http Flexd_Headers Pinning_Resolver
begin

text \<open>
  \<^verbatim>\<open>proxy.rs\<close>: one forward attempt. The pooled client is the environment's \<open>e_resolves\<close> and \<open>e_send\<close>, with
  the pinning resolver in between; what is built for it and what is made of its answer are the
  definitions here. The lemmas say what an upstream
  sees of a client's request and what a client sees of an upstream's response.
\<close>

section \<open>Operations\<close>

datatype proxy_error = PConnect | PStatus status

record proxy_client =
  pc_resolver :: pinning_resolver
  pc_request_timeout :: duration
  pc_max_response_size :: usize
  pc_trusted_proxies :: "ip_network list"
  pc_apply_attribution_policy :: bool

definition proxy_client_new ::
  "ip_network list \<Rightarrow> duration \<Rightarrow> duration \<Rightarrow> usize \<Rightarrow> ip_network list \<Rightarrow> bool \<Rightarrow> proxy_client" where
  "proxy_client_new allowed_networks dns_ttl request_timeout max_response_size trusted_proxies policy =
     \<lparr>pc_resolver = resolver_new allowed_networks dns_ttl, pc_request_timeout = request_timeout,
      pc_max_response_size = max_response_size, pc_trusted_proxies = trusted_proxies,
      pc_apply_attribution_policy = policy\<rparr>"

text \<open>The request for the upstream, up to the call of the client.\<close>

definition upstream_headers ::
  "ext \<Rightarrow> proxy_client \<Rightarrow> header_map \<Rightarrow> ip_addr \<Rightarrow> string \<Rightarrow> header_map" where
  "upstream_headers X pc parts_headers client_ip scheme =
     (let original_host = hm_get parts_headers ''host'';
          headers = strip_hop_by_hop X parts_headers;
          headers = x_hm_remove X headers ''content-length''
      in if pc_apply_attribution_policy pc
         then apply_forwarding_policy X headers client_ip scheme original_host (pc_trusted_proxies pc)
         else headers)"

definition upstream_request ::
  "ext \<Rightarrow> proxy_client \<Rightarrow> string \<Rightarrow> string request \<Rightarrow> ip_addr \<Rightarrow> string
   \<Rightarrow> proxy_error + string request" where
  "upstream_request X pc upstream_addr req client_ip scheme =
     (case x_uri_parse X (''http://'' @ upstream_addr
             @ (case u_pq (rq_uri req) of Some pq \<Rightarrow> pq_as_str pq | None \<Rightarrow> ''/'')) of
        None \<Rightarrow> Inl (PStatus 502)
      | Some upstream_uri \<Rightarrow>
          (let headers = upstream_headers X pc (rq_headers req) client_ip scheme in
           case (case hm_get (rq_headers req) ''host'' of
                   Some h \<Rightarrow> Some h
                 | None \<Rightarrow> hv_from_str X upstream_addr) of
             None \<Rightarrow> Inl (PStatus 502)
           | Some host_value \<Rightarrow>
               Inr \<lparr>rq_method = rq_method req, rq_uri = upstream_uri, rq_version = HTTP_11,
                    rq_headers = x_hm_insert X headers ''host'' host_value,
                    rq_body = rq_body req\<rparr>))"

text \<open>The answer of the client, turned into the response or the error.\<close>

definition downstream_response ::
  "ext \<Rightarrow> proxy_client \<Rightarrow> send_result \<Rightarrow> proxy_error + response" where
  "downstream_response X pc r =
     (case r of
        Elapsed \<Rightarrow> Inl (PStatus 504)
      | ConnectFailed \<Rightarrow> Inl PConnect
      | TransportFailed \<Rightarrow> Inl (PStatus 502)
      | Answered st headers body \<Rightarrow>
          if hm_contains_key headers ''content-length'' \<and> hm_contains_key headers ''transfer-encoding''
          then Inl (PStatus 502)
          else (case body (unat (pc_max_response_size pc)) of
                  Inl _ \<Rightarrow> Inl (PStatus 502)
                | Inr bytes \<Rightarrow>
                    Inr \<lparr>rs_status = st, rs_headers = strip_hop_by_hop X headers, rs_body = bytes\<rparr>))"

text \<open>
  The call of the client. Its connector was built with the pinning resolver, so a connection to a name
  goes to the addresses \<^verbatim>\<open>resolve_checked\<close> vetted, and a resolution that fails is a failure to connect.
\<close>

definition client_request ::
  "ext \<Rightarrow> env \<Rightarrow> proxy_client \<Rightarrow> nat \<Rightarrow> string \<Rightarrow> string request \<Rightarrow> proxy_client \<times> send_result" where
  "client_request X E pc idx upstream_addr up =
     (case e_resolves E upstream_addr idx up of
        None \<Rightarrow> (pc, e_send E upstream_addr idx up None)
      | Some name \<Rightarrow>
          (case resolve_checked X (pc_resolver pc) name (e_now E) (e_dns E name) (e_later E) of
             (r, Inl _) \<Rightarrow> (pc \<lparr>pc_resolver := r\<rparr>, ConnectFailed)
           | (r, Inr addrs) \<Rightarrow> (pc \<lparr>pc_resolver := r\<rparr>, e_send E upstream_addr idx up (Some addrs))))"

definition forward ::
  "ext \<Rightarrow> env \<Rightarrow> proxy_client \<Rightarrow> nat \<Rightarrow> string \<Rightarrow> string request \<Rightarrow> ip_addr \<Rightarrow> string
   \<Rightarrow> proxy_client \<times> (proxy_error + response)" where
  "forward X E pc idx upstream_addr req client_ip scheme =
     (case upstream_request X pc upstream_addr req client_ip scheme of
        Inl e \<Rightarrow> (pc, Inl e)
      | Inr up \<Rightarrow>
          (case client_request X E pc idx upstream_addr up of
             (pc, r) \<Rightarrow> (pc, downstream_response X pc r)))"

section \<open>Lemmas\<close>

lemma upstream_request_Inr:
  "upstream_request X pc addr req ip scheme = Inr up \<Longrightarrow>
     rq_method up = rq_method req \<and> rq_body up = rq_body req
     \<and> (\<exists>host. rq_headers up =
          x_hm_insert X (upstream_headers X pc (rq_headers req) ip scheme) ''host'' host
        \<and> (hm_get (rq_headers req) ''host'' = Some host
           \<or> hm_get (rq_headers req) ''host'' = None \<and> host = addr))"
  by (auto simp: upstream_request_def Let_def hv_from_str_def split: option.splits if_splits)

lemma resolve_checked_steps:
  "(resolver_step X)\<^sup>*\<^sup>* r (fst (resolve_checked X r name now answer later))"
proof (cases "cached r name now")
  case (Pair r' hit)
  have l: "resolver_step X r r'" using resolver_step.lookup [of X r name now] Pair by simp
  show ?thesis
  proof (cases hit)
    case None
    have "resolver_step X r' (fst (vet_answer X r' name answer later))" by (rule resolver_step.answered)
    with l Pair None show ?thesis by (simp add: resolve_checked_def)
  next
    case (Some a)
    with l Pair show ?thesis by (simp add: resolve_checked_def)
  qed
qed

text \<open>An attempt changes nothing of the client but the resolver's cache, by steps of the resolver.\<close>

lemma client_request_client:
  "\<exists>r. fst (client_request X E pc idx addr up) = pc \<lparr>pc_resolver := r\<rparr>
     \<and> (resolver_step X)\<^sup>*\<^sup>* (pc_resolver pc) r"
proof (cases "e_resolves E addr idx up")
  case None
  then show ?thesis by (intro exI [of _ "pc_resolver pc"]) (simp add: client_request_def)
next
  case (Some name)
  then show ?thesis
    using resolve_checked_steps [of X "pc_resolver pc" name "e_now E" "e_dns E name" "e_later E"]
    by (auto simp: client_request_def split: prod.splits sum.splits)
qed

lemma forward_client:
  "\<exists>r. fst (forward X E pc idx addr req ip scheme) = pc \<lparr>pc_resolver := r\<rparr>
     \<and> (resolver_step X)\<^sup>*\<^sup>* (pc_resolver pc) r"
proof (cases "upstream_request X pc addr req ip scheme")
  case (Inl e)
  then show ?thesis by (intro exI [of _ "pc_resolver pc"]) (simp add: forward_def)
next
  case (Inr up)
  then show ?thesis
    using client_request_client [of X E pc idx addr up]
    by (cases "client_request X E pc idx addr up") (simp add: forward_def)
qed

lemma client_request_sends:
  "snd (client_request X E pc idx addr up) = ConnectFailed
     \<or> (\<exists>as. snd (client_request X E pc idx addr up) = e_send E addr idx up as)"
  by (auto simp: client_request_def split: option.split prod.split sum.split)

text \<open>
  What an attempt depends on: the answers of the server at its address, reached without the resolver
  or at addresses that are permitted.
\<close>

lemma client_request_env:
  assumes "vetted X (pc_resolver pc)"
    and "e_resolves E addr = e_resolves E' addr" "e_dns E = e_dns E'" "e_now E = e_now E'"
    "e_later E = e_later E'"
    and "\<And>as. (\<forall>a\<in>set (case as of Some l \<Rightarrow> l | None \<Rightarrow> []). ip_allowed X (fst a) (pr_allowed (pc_resolver pc)))
      \<Longrightarrow> e_send E addr idx up as = e_send E' addr idx up as"
  shows "client_request X E pc idx addr up = client_request X E' pc idx addr up"
proof (cases "e_resolves E addr idx up")
  case None
  then show ?thesis using assms(2) assms(6) [of None] by (simp add: client_request_def)
next
  case (Some name)
  have "e_send E addr idx up (Some as) = e_send E' addr idx up (Some as)"
    if "snd (resolve_checked X (pc_resolver pc) name now answer later) = Inr as" for as now answer later
    using resolve_checked_vets [OF assms(1) that] assms(6) [of "Some as"] by (auto simp: list_all_iff)
  note agree = this
  obtain r res where r: "resolve_checked X (pc_resolver pc) name (e_now E) (e_dns E name) (e_later E) = (r, res)"
    by (cases "resolve_checked X (pc_resolver pc) name (e_now E) (e_dns E name) (e_later E)")
  with agree [of "e_now E" "e_dns E name" "e_later E"] show ?thesis
    using Some assms(2-5) by (cases res) (simp_all add: client_request_def)
qed

lemma forwarding_keeps:
  "header_laws X \<Longrightarrow> k \<notin> set ATTRIBUTION \<Longrightarrow>
     hm_get_all (apply_forwarding_policy X h ip scheme oh trusted) k = hm_get_all h k"
  by (auto simp: forwarding_values ATTRIBUTION_def split: option.split)

lemma hop_not_attribution:
  "k \<in> set HOP_BY_HOP \<or> k = ''content-length'' \<Longrightarrow> k \<notin> set ATTRIBUTION \<and> k \<noteq> ''host''"
  by (elim disjE) (auto simp: HOP_BY_HOP_def ATTRIBUTION_def)





end
