(* ===== verification/Flexd_Balance.thy ===== *)
theory Flexd_Balance
  imports Flexd_Config Flexd_Interfaces
begin

text \<open>
  \<^verbatim>\<open>balance.rs\<close>: the load balancer. Its pools are a map from upstream names to their cursor and
  gauges; the operations that change them return the balancer. Cursor, gauges and weights keep
  their 64 bits. The lemmas show that the candidates are a permutation of the servers, that the
  rotation is fair by weight, that least-conn picks a least loaded server, and that the gauges
  count the live guards.
\<close>

section \<open>State\<close>

record pool_state =
  ps_rr_cursor :: usize
  ps_inflight :: "usize list"

type_synonym balancer = "string \<rightharpoonup> pool_state"

text \<open>A guard holds its pool: a named one, or state of its own for an unknown name.\<close>

record inflight_guard =
  ig_pool :: "string option"
  ig_idx :: nat

definition fresh_pool :: "nat \<Rightarrow> pool_state" where
  "fresh_pool n = \<lparr>ps_rr_cursor = 0, ps_inflight = replicate n 0\<rparr>"

definition pool_add :: "upstream_ref \<Rightarrow> balancer \<Rightarrow> balancer" where
  "pool_add u b =
     (case b (up_name u) of
        None \<Rightarrow> b(up_name u \<mapsto> fresh_pool (length (up_servers u)))
      | Some _ \<Rightarrow> b)"

definition balancer_new :: "http_block \<Rightarrow> balancer" where
  "balancer_new hb =
     (let b = fold pool_add (hb_upstreams hb) (\<lambda>_. None);
          b = fold (\<lambda>l b. case h_upstream (loc_handler l) of Some u \<Rightarrow> pool_add u b | None \<Rightarrow> b)
                (hb_locations hb) b
      in (case hb_connect_upstream hb of Some u \<Rightarrow> pool_add u b | None \<Rightarrow> b))"

definition for_upstream :: "upstream_ref \<Rightarrow> balancer" where
  "for_upstream u = [up_name u \<mapsto> fresh_pool (length (up_servers u))]"

definition pool_of :: "balancer \<Rightarrow> string \<Rightarrow> nat \<Rightarrow> pool_state" where
  "pool_of b name servers =
     (case b name of Some p \<Rightarrow> p | None \<Rightarrow> fresh_pool servers)"

section \<open>Weights\<close>

definition server_weight :: "upstream_server \<Rightarrow> u64" where
  "server_weight s = ucast (max (us_weight s) 1)"

definition weight_of :: "upstream_ref \<Rightarrow> nat \<Rightarrow> u64" where
  "weight_of u idx =
     (if idx < length (up_servers u) then server_weight (up_servers u ! idx) else 1)"

definition total_weight :: "upstream_ref \<Rightarrow> u64" where
  "total_weight u = max (sum_list (map server_weight (up_servers u))) 1"

fun point_loop :: "u64 \<Rightarrow> u64 \<Rightarrow> (nat \<times> upstream_server) list \<Rightarrow> (nat \<times> upstream_server) option" where
  "point_loop cumulative point [] = None"
| "point_loop cumulative point (p # ps) =
     (let cumulative = cumulative + server_weight (snd p) in
      if point < cumulative then Some p else point_loop cumulative point ps)"

definition index_for_point :: "upstream_ref \<Rightarrow> u64 \<Rightarrow> nat" where
  "index_for_point u point =
     (case point_loop 0 point (List.enumerate 0 (up_servers u)) of
        Some (i, _) \<Rightarrow> i
      | None \<Rightarrow> 0)"

section \<open>Selection\<close>

text \<open>\<^verbatim>\<open>sort_by\<close> is stable; \<open>gt\<close> says that the comparison yields \<^verbatim>\<open>Greater\<close>.\<close>

fun insert_by :: "('a \<Rightarrow> 'a \<Rightarrow> bool) \<Rightarrow> 'a \<Rightarrow> 'a list \<Rightarrow> 'a list" where
  "insert_by gt x [] = [x]"
| "insert_by gt x (y # ys) = (if gt x y then y # insert_by gt x ys else x # y # ys)"

definition sort_by :: "('a \<Rightarrow> 'a \<Rightarrow> bool) \<Rightarrow> 'a list \<Rightarrow> 'a list" where
  "sort_by gt xs = foldr (insert_by gt) xs []"

definition load_of :: "pool_state \<Rightarrow> nat \<Rightarrow> u64" where
  "load_of p i = (if i < length (ps_inflight p) then ps_inflight p ! i else 0) + 1"

definition load_greater :: "pool_state \<Rightarrow> upstream_ref \<Rightarrow> nat \<Rightarrow> nat \<Rightarrow> bool" where
  "load_greater p u a b \<longleftrightarrow> load_of p b * weight_of u a < load_of p a * weight_of u b"

definition ring_order :: "nat \<Rightarrow> nat \<Rightarrow> nat list" where
  "ring_order primary n = map (\<lambda>off. (primary + off) mod n) [0..<n]"

definition candidates :: "ext \<Rightarrow> balancer \<Rightarrow> upstream_ref \<Rightarrow> ip_addr \<Rightarrow> balancer \<times> nat list" where
  "candidates X b u client =
     (let n = length (up_servers u) in
      if n = 0 then (b, [])
      else if n = 1 then (b, [0])
      else let pool = pool_of b (up_name u) n in
        if up_strategy u = ''least-conn''
        then (b, sort_by (load_greater pool u) [0..<n])
        else if up_strategy u = ''ip-hash''
        then (b, ring_order (index_for_point u (x_hash_ip X client mod total_weight u)) n)
        else let tick = ps_rr_cursor pool;
                 b' = (case b (up_name u) of
                         Some p \<Rightarrow> b(up_name u \<mapsto> p \<lparr>ps_rr_cursor := tick + 1\<rparr>)
                       | None \<Rightarrow> b)
          in (b', ring_order (index_for_point u (tick mod total_weight u)) n))"

text \<open>\<^verbatim>\<open>gauge.fetch_add(1)\<close> and \<^verbatim>\<open>fetch_sub(1)\<close> at an index, where there is one.\<close>

definition bump :: "usize \<Rightarrow> nat \<Rightarrow> pool_state \<Rightarrow> pool_state" where
  "bump d i p =
     (if i < length (ps_inflight p)
      then p \<lparr>ps_inflight := (ps_inflight p)[i := ps_inflight p ! i + d]\<rparr> else p)"

definition track :: "balancer \<Rightarrow> upstream_ref \<Rightarrow> nat \<Rightarrow> balancer \<times> inflight_guard" where
  "track b u idx =
     (case b (up_name u) of
        Some p \<Rightarrow> (b(up_name u \<mapsto> bump 1 idx p), \<lparr>ig_pool = Some (up_name u), ig_idx = idx\<rparr>)
      | None \<Rightarrow> (b, \<lparr>ig_pool = None, ig_idx = idx\<rparr>))"

definition guard_drop :: "balancer \<Rightarrow> inflight_guard \<Rightarrow> balancer" where
  "guard_drop b g =
     (case ig_pool g of
        None \<Rightarrow> b
      | Some name \<Rightarrow>
          (case b name of Some p \<Rightarrow> b(name \<mapsto> bump (- 1) (ig_idx g) p) | None \<Rightarrow> b))"

section \<open>The rotation by weight\<close>

interpretation bal: weighted_pick "\<lambda>p :: nat \<times> upstream_server. server_weight (snd p)" point_loop
  by unfold_locales (simp_all add: Let_def)

lemma server_weight_bounds: "0 < unat (server_weight s)" "unat (server_weight s) < 2 ^ 32"
proof -
  have u: "unat (server_weight s) = unat (max (us_weight s) 1)"
    by (simp add: server_weight_def unsigned_ucast_eq take_bit_nat_eq_self less_trans [OF unat_u32_less])
  show "unat (server_weight s) < 2 ^ 32" unfolding u by (rule unat_u32_less)
  have "1 \<le> max (us_weight s) 1" by simp
  then show "0 < unat (server_weight s)" unfolding u word_le_nat_alt by simp
qed

definition weight_sum :: "upstream_ref \<Rightarrow> nat" where
  "weight_sum u = sum_list (map (unat \<circ> server_weight) (up_servers u))"

lemma weight_sum_le: "sum_list (map (unat \<circ> server_weight) ss) \<le> length ss * (2 ^ 32 - 1)"
proof (induction ss)
  case (Cons s ss)
  have "unat (server_weight s) \<le> 2 ^ 32 - 1" using server_weight_bounds(2) [of s] by simp
  with Cons show ?case by simp
qed simp

lemma weight_sum_small: "length (up_servers u) < 2 ^ 32 \<Longrightarrow> weight_sum u < 2 ^ 64"
proof -
  assume "length (up_servers u) < 2 ^ 32"
  then have "length (up_servers u) * (2 ^ 32 - 1) \<le> (2 ^ 32 - 1) * (2 ^ 32 - 1)" by simp
  with weight_sum_le [of "up_servers u"] show ?thesis by (simp add: weight_sum_def)
qed

lemma weight_sum_ge: "length ss \<le> sum_list (map (unat \<circ> server_weight) ss)"
proof (induction ss)
  case (Cons s ss)
  with server_weight_bounds(1) [of s] show ?case by simp
qed simp

lemma unat_total_weight:
  assumes "length (up_servers u) < 2 ^ 32" "up_servers u \<noteq> []"
  shows "unat (total_weight u) = weight_sum u" "0 < weight_sum u"
proof -
  have s: "unat (sum_list (map server_weight (up_servers u))) = weight_sum u"
    using weight_sum_small [OF assms(1)] unat_sum_list [of "map server_weight (up_servers u)"]
    by (simp add: weight_sum_def)
  show p: "0 < weight_sum u"
    using weight_sum_ge [of "up_servers u"] assms(2) by (cases "up_servers u") (auto simp: weight_sum_def)
  with s have "1 \<le> sum_list (map server_weight (up_servers u))" by (simp add: word_le_nat_alt)
  then show "unat (total_weight u) = weight_sum u" using s by (simp add: total_weight_def max_def)
qed

lemma total_enumerate: "bal.total (List.enumerate k ss) = sum_list (map (unat \<circ> server_weight) ss)"
  by (induction ss arbitrary: k) simp_all

lemma index_for_point_less:
  "up_servers u \<noteq> [] \<Longrightarrow> index_for_point u p < length (up_servers u)"
proof (cases "point_loop 0 p (List.enumerate 0 (up_servers u))")
  case (Some a)
  then have "a \<in> set (List.enumerate 0 (up_servers u))" by (rule bal.pick_mem)
  with Some show ?thesis
    by (cases a) (simp add: index_for_point_def in_set_enumerate_eq)
qed (simp add: index_for_point_def)

lemma index_for_point_share:
  assumes "length (up_servers u) < 2 ^ 32" "i < length (up_servers u)"
  shows "card {n. n < weight_sum u \<and> index_for_point u (of_nat n) = i} = unat (weight_of u i)"
proof -
  let ?xs = "List.enumerate 0 (up_servers u)"
  have t: "bal.total ?xs = weight_sum u" by (simp add: total_enumerate weight_sum_def)
  have small: "bal.total ?xs < 2 ^ 64" using weight_sum_small [OF assms(1)] t by simp
  have x: "(i, up_servers u ! i) \<in> set ?xs" using assms(2) by (simp add: in_set_enumerate_eq)
  have eq: "index_for_point u (of_nat n) = i
      \<longleftrightarrow> point_loop 0 (of_nat n) ?xs = Some (i, up_servers u ! i)" if n: "n < weight_sum u" for n
  proof -
    have "unat (of_nat n :: u64) = n"
      using n small t by (intro unat_of_nat_small) simp
    then obtain a where a: "point_loop 0 (of_nat n) ?xs = Some a"
      using bal.pick_total [of 0 ?xs "of_nat n"] small n t by auto
    then have "a \<in> set ?xs" by (rule bal.pick_mem)
    then have "up_servers u ! fst a = snd a" by (simp add: in_set_enumerate_eq)
    then show ?thesis by (cases a) (auto simp: index_for_point_def a)
  qed
  have "card {n. n < bal.total ?xs \<and> point_loop 0 (of_nat n) ?xs = Some (i, up_servers u ! i)}
      = unat (weight_of u i)"
    using bal.pick_share [OF _ _ x] small assms(2) by (simp add: weight_of_def distinct_enumerate)
  moreover have "{n. n < weight_sum u \<and> index_for_point u (of_nat n) = i}
      = {n. n < bal.total ?xs \<and> point_loop 0 (of_nat n) ?xs = Some (i, up_servers u ! i)}"
    using eq t by auto
  ultimately show ?thesis by simp
qed

text \<open>As many consecutive numbers as the modulus hit every residue once.\<close>

lemma mod_window_inj: "inj_on (\<lambda>j. (k + j) mod W) {..<(W::nat)}"
proof (rule linorder_inj_onI')
  fix x y assume "x \<in> {..<W}" "y \<in> {..<W}" "x < y"
  then have "\<not> W dvd y - x" by (auto dest: dvd_imp_le)
  with \<open>x < y\<close> show "(k + x) mod W \<noteq> (k + y) mod W"
    using mod_eq_dvd_iff_nat [of "k + x" "k + y" W] by auto
qed

lemma mod_window_surj: "0 < W \<Longrightarrow> (\<lambda>j. (k + j) mod W) ` {..<(W::nat)} = {..<W}"
  by (intro endo_inj_surj mod_window_inj) auto

lemma mod_window:
  assumes "0 < W"
  shows "card {j. j < W \<and> P ((k + j) mod W)} = card {r. r < (W::nat) \<and> P r}"
proof (rule bij_betw_same_card [of "\<lambda>j. (k + j) mod W"])
  show "bij_betw (\<lambda>j. (k + j) mod W) {j. j < W \<and> P ((k + j) mod W)} {r. r < W \<and> P r}"
    unfolding bij_betw_def
  proof
    show "inj_on (\<lambda>j. (k + j) mod W) {j. j < W \<and> P ((k + j) mod W)}"
      by (rule inj_on_subset [OF mod_window_inj]) auto
    show "(\<lambda>j. (k + j) mod W) ` {j. j < W \<and> P ((k + j) mod W)} = {r. r < W \<and> P r}"
    proof (intro equalityI subsetI)
      fix r assume "r \<in> {r. r < W \<and> P r}"
      moreover from this mod_window_surj [OF assms, of k]
      obtain j where "j < W" "r = (k + j) mod W" by blast
      ultimately show "r \<in> (\<lambda>j. (k + j) mod W) ` {j. j < W \<and> P ((k + j) mod W)}" by blast
    qed (use assms in auto)
  qed
qed

lemma count_list_map_upt: "count_list (map f [0..<n]) a = card {j. j < n \<and> f j = a}"
proof -
  have "count_list (map f [0..<n]) a = length (filter (\<lambda>j. f j = a) [0..<n])"
    by (induction n) simp_all
  also have "\<dots> = card (set (filter (\<lambda>j. f j = a) [0..<n]))"
    by (simp only: distinct_card distinct_filter distinct_upt)
  finally show ?thesis by (simp add: conj_commute)
qed

section \<open>Orders\<close>

lemma mset_insert_by: "mset (insert_by gt x xs) = add_mset x (mset xs)"
  by (induction xs) auto

lemma mset_sort_by: "mset (sort_by gt xs) = mset xs"
  by (induction xs) (simp_all add: sort_by_def mset_insert_by)

lemma mset_ring_order:
  assumes "primary < n"
  shows "mset (ring_order primary n) = mset [0..<n]"
proof -
  have "distinct (ring_order primary n)"
    using mod_window_inj [of primary n] by (simp add: ring_order_def distinct_map atLeast0LessThan)
  moreover have "set (ring_order primary n) = set [0..<n]"
    using mod_window_surj [of n primary] assms by (simp add: ring_order_def atLeast0LessThan)
  ultimately show ?thesis
    using set_eq_iff_mset_eq_distinct [of "ring_order primary n" "[0..<n]"] by simp
qed

lemma sort_by_head:
  assumes "sort_by gt xs = y # ys" "x \<in> set xs"
    and "\<And>a b c. \<not> gt a b \<Longrightarrow> \<not> gt b c \<Longrightarrow> \<not> gt a c" "\<And>a b. gt a b \<Longrightarrow> \<not> gt b a"
  shows "\<not> gt y x"
  using assms(1,2)
proof (induction xs arbitrary: x y ys)
  case Nil
  then show ?case by simp
next
  case (Cons a xs)
  show ?case
  proof (cases "sort_by gt xs")
    case Nil
    then have "xs = []" using mset_sort_by [of gt xs] by simp
    with Cons.prems assms(4) show ?thesis by (auto simp: sort_by_def)
  next
    case (Cons z zs)
    have h: "\<not> gt z w" if "w \<in> set xs" for w using Cons.IH [OF Cons] that by simp
    have s: "insert_by gt a (z # zs) = y # ys"
      using Cons.prems(1) Cons by (simp add: sort_by_def)
    show ?thesis
    proof (cases "gt a z")
      case True
      then have "y = z" "\<not> gt z a" using s assms(4) by auto
      with h Cons.prems(2) show ?thesis by auto
    next
      case False
      then have "y = a" using s by simp
      with False h assms(3) [of a z] assms(4) [of a a] Cons.prems(2) show ?thesis by auto
    qed
  qed
qed

lemma ratio_trans:
  assumes "0 < (y2::nat)" "x1 * y2 \<le> y1 * x2" "y1 * z2 \<le> z1 * y2"
  shows "x1 * z2 \<le> z1 * x2"
proof -
  have "(x1 * z2) * y2 = (x1 * y2) * z2" by simp
  also have "\<dots> \<le> (y1 * x2) * z2" using assms(2) by (rule mult_le_mono1)
  also have "\<dots> = (y1 * z2) * x2" by simp
  also have "\<dots> \<le> (z1 * y2) * x2" using assms(3) by (rule mult_le_mono1)
  finally have "(x1 * z2) * y2 \<le> (z1 * x2) * y2" by (simp only: ac_simps)
  with assms(1) show ?thesis by simp
qed

text \<open>A pool of two servers for the examples.\<close>

definition sample_pool :: upstream_ref where
  "sample_pool =
     \<lparr>up_name = ''app'',
      up_servers = [\<lparr>us_address = ''app1:80'', us_weight = 3\<rparr>,
                    \<lparr>us_address = ''app2:80'', us_weight = 1\<rparr>],
      up_strategy = ''round-robin''\<rparr>"

lemma fresh_pool_2:
  "fresh_pool 2 = \<lparr>ps_rr_cursor = 0, ps_inflight = [0, 0]\<rparr>"
  "fresh_pool (Suc (Suc 0)) = \<lparr>ps_rr_cursor = 0, ps_inflight = [0, 0]\<rparr>"
  by (simp_all add: fresh_pool_def numeral_2_eq_2)

lemma hd_ring_order: "primary < n \<Longrightarrow> hd (ring_order primary n) = primary"
  by (cases n) (simp_all add: ring_order_def upt_conv_Cons del: upt_Suc)

section \<open>Gauges\<close>

text \<open>
  The traffic of guards: requests are tracked and guards dropped in any order. The live guards
  are a multiset.
\<close>

inductive gauge_step ::
  "balancer \<times> inflight_guard multiset \<Rightarrow> balancer \<times> inflight_guard multiset \<Rightarrow> bool" where
  tracked: "track b u idx = (b', g) \<Longrightarrow> gauge_step (b, G) (b', add_mset g G)"
| dropped: "g \<in># G \<Longrightarrow> gauge_step (b, G) (guard_drop b g, G - {#g#})"
| selected: "candidates X b u client = (b', cs) \<Longrightarrow> gauge_step (b, G) (b', G)"

definition live_guards :: "inflight_guard multiset \<Rightarrow> string \<Rightarrow> nat \<Rightarrow> nat" where
  "live_guards G name i = count G \<lparr>ig_pool = Some name, ig_idx = i\<rparr>"

definition gauges_ok :: "balancer \<times> inflight_guard multiset \<Rightarrow> bool" where
  "gauges_ok s \<longleftrightarrow>
     (\<forall>name p i. fst s name = Some p \<longrightarrow> i < length (ps_inflight p)
        \<longrightarrow> ps_inflight p ! i = of_nat (live_guards (snd s) name i))"

lemma bump_inflight:
  "length (ps_inflight (bump d i p)) = length (ps_inflight p)"
  "j < length (ps_inflight p) \<Longrightarrow>
     ps_inflight (bump d i p) ! j = ps_inflight p ! j + (if j = i then d else 0)"
  by (simp_all add: bump_def)

lemma gauge_step_ok:
  assumes "gauge_step s s'" "gauges_ok s"
  shows "gauges_ok s'"
  using assms(1)
proof cases
  case (tracked b u idx b' g G)
  then show ?thesis
    using assms(2)
    by (cases "b (up_name u)")
       (auto simp: track_def gauges_ok_def live_guards_def bump_inflight split: if_splits)
next
  case (dropped g G b)
  obtain po i where g: "g = \<lparr>ig_pool = po, ig_idx = i\<rparr>" by (cases g)
  have "0 < count G g" using dropped(3) by simp
  then have c: "of_nat (count G g - 1) = (of_nat (count G g) :: usize) - 1"
    by (simp add: of_nat_diff Suc_leI)
  show ?thesis
  proof (cases "po = None \<or> b (the po) = None")
    case True
    then show ?thesis
      using assms(2) dropped
      by (auto simp: guard_drop_def gauges_ok_def live_guards_def g split: option.splits)
  next
    case False
    then obtain name p where "po = Some name" "b name = Some p" by auto
    then show ?thesis
      using assms(2) dropped c
      by (auto simp: guard_drop_def gauges_ok_def live_guards_def g bump_inflight)
  qed
next
  case (selected X b u client b' cs G)
  then have "b' = b \<or> (\<exists>p. b (up_name u) = Some p
      \<and> b' = b(up_name u \<mapsto> p \<lparr>ps_rr_cursor := ps_rr_cursor p + 1\<rparr>))"
    by (auto simp: candidates_def Let_def pool_of_def split: if_splits option.splits)
  with assms(2) selected show ?thesis by (auto simp: gauges_ok_def split: if_splits)
qed

definition all_fresh :: "balancer \<Rightarrow> bool" where
  "all_fresh b \<longleftrightarrow> (\<forall>name p. b name = Some p \<longrightarrow> (\<exists>k. p = fresh_pool k))"

lemma pool_add_fresh: "all_fresh b \<Longrightarrow> all_fresh (pool_add u b)"
  by (auto simp: all_fresh_def pool_add_def split: option.splits)

lemma fold_fresh:
  "all_fresh b \<Longrightarrow> (\<And>x b. all_fresh b \<Longrightarrow> all_fresh (f x b)) \<Longrightarrow> all_fresh (fold f xs b)"
  by (induction xs arbitrary: b) simp_all

lemma balancer_new_fresh: "all_fresh (balancer_new hb)"
proof -
  have 1: "all_fresh (fold pool_add us (\<lambda>_. None))" for us
    by (rule fold_fresh) (simp_all add: all_fresh_def pool_add_fresh [unfolded all_fresh_def])
  have 2: "all_fresh (fold (\<lambda>l b. case h_upstream (loc_handler l) of
      Some u \<Rightarrow> pool_add u b | None \<Rightarrow> b) ls b)" if "all_fresh b" for ls b
    using that by (rule fold_fresh) (simp add: pool_add_fresh split: option.split)
  show ?thesis
    unfolding balancer_new_def Let_def
    using 2 [OF 1, of "hb_locations hb" "hb_upstreams hb"] by (auto simp: pool_add_fresh split: option.split)
qed

lemma fresh_gauges_ok: "all_fresh b \<Longrightarrow> gauges_ok (b, {#})"
  by (fastforce simp: all_fresh_def gauges_ok_def live_guards_def fresh_pool_def)

lemma mset_candidates: "mset (snd (candidates X b u client)) = mset [0..<length (up_servers u)]"
proof (cases "up_servers u = []")
  case False
  then have "index_for_point u p < length (up_servers u)" for p by (rule index_for_point_less)
  then show ?thesis
    by (simp add: candidates_def Let_def mset_sort_by mset_ring_order)
qed (simp add: candidates_def)

text \<open>Balancers that differ in their cursors only: the same pools with the same gauges.\<close>

definition turned :: "balancer \<Rightarrow> balancer \<Rightarrow> bool" where
  "turned b b' \<longleftrightarrow> (\<forall>name. map_option ps_inflight (b' name) = map_option ps_inflight (b name))"

lemma turned_refl [simp]: "turned b b"
  by (simp add: turned_def)

lemma turned_trans: "turned a b \<Longrightarrow> turned b c \<Longrightarrow> turned a c"
  by (simp add: turned_def)

lemma candidates_turned: "turned b (fst (candidates X b u client))"
  by (auto simp: turned_def candidates_def Let_def split: option.split)

lemma bump_undo: "bump (- 1) i (bump 1 i p) = p"
  by (simp add: bump_def)

lemma track_drop:
  assumes "track b u idx = (b', g)"
  shows "guard_drop b' g = b"
proof (cases "b (up_name u)")
  case (Some p)
  with assms have "b' = b(up_name u \<mapsto> bump 1 idx p)"
    "g = \<lparr>ig_pool = Some (up_name u), ig_idx = idx\<rparr>" by (simp_all add: track_def)
  then have "guard_drop b' g = b(up_name u \<mapsto> p)" by (simp add: guard_drop_def bump_undo)
  with Some show ?thesis by (simp add: fun_upd_idem)
qed (use assms in \<open>auto simp: track_def guard_drop_def\<close>)

section \<open>Properties\<close>

text \<open>
  Whatever the strategy, the balancer's state and the client, the candidates are every server of
  the pool exactly once: fail-over tries each server before it gives up, and none twice.
\<close>

theorem candidates_permutation:
  "mset (snd (candidates X b u client)) = mset [0..<length (up_servers u)]"
  by (rule mset_candidates)

fun rr_run :: "ext \<Rightarrow> balancer \<Rightarrow> upstream_ref \<Rightarrow> ip_addr list \<Rightarrow> nat list" where
  "rr_run X b u [] = []"
| "rr_run X b u (ip # ips) =
     (case candidates X b u ip of (b', cs) \<Rightarrow> hd cs # rr_run X b' u ips)"

definition rotates :: "upstream_ref \<Rightarrow> bool" where
  "rotates u \<longleftrightarrow> up_strategy u \<noteq> ''least-conn'' \<and> up_strategy u \<noteq> ''ip-hash''
     \<and> 2 \<le> length (up_servers u)"

lemma rr_run_ticks:
  assumes "rotates u" "b (up_name u) = Some p"
  shows "rr_run X b u ips =
    map (\<lambda>j. index_for_point u ((ps_rr_cursor p + of_nat j) mod total_weight u)) [0..<length ips]"
  using assms(2)
proof (induction ips arbitrary: b p)
  case Nil
  then show ?case by simp
next
  case (Cons ip ips)
  let ?i = "index_for_point u (ps_rr_cursor p mod total_weight u)"
  let ?p = "p \<lparr>ps_rr_cursor := ps_rr_cursor p + 1\<rparr>"
  have "up_servers u \<noteq> []" using assms(1) by (auto simp: rotates_def)
  then have "hd (ring_order ?i (length (up_servers u))) = ?i"
    by (intro hd_ring_order index_for_point_less)
  moreover have "candidates X b u ip =
      (b(up_name u \<mapsto> ?p), ring_order ?i (length (up_servers u)))"
    using assms(1) Cons.prems by (auto simp: candidates_def Let_def rotates_def pool_of_def)
  moreover have "rr_run X (b(up_name u \<mapsto> ?p)) u ips = map (\<lambda>j. index_for_point u
      ((ps_rr_cursor p + of_nat (Suc j)) mod total_weight u)) [0..<length ips]"
    by (subst Cons.IH [of _ ?p]) (simp_all add: add.assoc)
  ultimately show ?case
    by (simp add: upt_conv_Cons map_Suc_upt [symmetric] comp_def del: upt_Suc map_Suc_upt)
qed

text \<open>
  C36. Round-robin is fair by weight: over as many consecutive requests as the weights sum to, each
  server is the first choice exactly as often as its weight says (a weight of zero counts as one),
  from any cursor position that does not wrap on the way.
\<close>

theorem round_robin_fair:
  assumes "rotates u" "length (up_servers u) < 2 ^ 32" "b (up_name u) = Some p"
    and "length ips = unat (total_weight u)"
    and "unat (ps_rr_cursor p) + unat (total_weight u) \<le> 2 ^ 64"
    and "i < length (up_servers u)"
  shows "count_list (rr_run X b u ips) i = unat (weight_of u i)"
proof -
  let ?W = "weight_sum u" and ?k = "unat (ps_rr_cursor p)"
  have ne: "up_servers u \<noteq> []" using assms(1) by (auto simp: rotates_def)
  note W = unat_total_weight [OF assms(2) ne]
  have tick: "(ps_rr_cursor p + of_nat j) mod total_weight u = of_nat ((?k + j) mod ?W)"
    if "j < ?W" for j
  proof -
    have "unat (ps_rr_cursor p + of_nat j) = ?k + j"
    proof -
      have j: "unat (of_nat j :: u64) = j"
        using that weight_sum_small [OF assms(2)] by (intro unat_of_nat_small) simp
      then show ?thesis
        using unat_add_lem [of "ps_rr_cursor p" "of_nat j"] that assms(5) W(1) by simp
    qed
    then have "unat ((ps_rr_cursor p + of_nat j) mod total_weight u) = (?k + j) mod ?W"
      by (simp add: unat_mod_distrib W(1))
    then show ?thesis by (metis of_nat_unat ucast_id)
  qed
  have "rr_run X b u ips = map (\<lambda>j. index_for_point u (of_nat ((?k + j) mod ?W))) [0..<?W]"
    unfolding rr_run_ticks [of u b p X ips, OF assms(1,3)] using assms(4) W(1) tick by simp
  then have "count_list (rr_run X b u ips) i
      = card {j. j < ?W \<and> index_for_point u (of_nat ((?k + j) mod ?W)) = i}"
    by (simp add: count_list_map_upt)
  also have "\<dots> = card {r. r < ?W \<and> index_for_point u (of_nat r) = i}"
    by (rule mod_window [OF W(2)])
  also have "\<dots> = unat (weight_of u i)" by (rule index_for_point_share [OF assms(2,6)])
  finally show ?thesis .
qed

theorem round_robin_fair_witness:
  "count_list (rr_run sample_ext (for_upstream sample_pool) sample_pool
     (replicate 4 (V4 (Ipv4 127 0 0 1)))) 0 = 3"
proof -
  have w: "unat (total_weight sample_pool) = 4" by (simp add: sample_pool_def total_weight_def server_weight_def)
  have "count_list (rr_run sample_ext (for_upstream sample_pool) sample_pool
     (replicate 4 (V4 (Ipv4 127 0 0 1)))) 0 = unat (weight_of sample_pool 0)"
    by (rule round_robin_fair [where p = "fresh_pool 2"])
       (simp_all only: w, simp_all add: sample_pool_def rotates_def for_upstream_def fresh_pool_2)
  then show ?thesis by (simp add: weight_of_def sample_pool_def server_weight_def)
qed

text \<open>
  Least-conn picks a least loaded server: no server has a smaller ratio of in-flight requests
  (the new one counted) to weight than the first candidate, as long as the gauges stay below
  \<open>2 ^ 32 - 1\<close>, where the cross products cannot overflow.
\<close>

theorem least_conn_minimal:
  assumes "up_strategy u = ''least-conn''" "2 \<le> length (up_servers u)"
    and "pool = pool_of b (up_name u) (length (up_servers u))"
    and "\<forall>g\<in>set (ps_inflight pool). unat g < 2 ^ 32 - 1"
    and "snd (candidates X b u client) = primary # rest" "i < length (up_servers u)"
  shows "unat (load_of pool primary) * unat (weight_of u i)
    \<le> unat (load_of pool i) * unat (weight_of u primary)"
proof -
  let ?n = "length (up_servers u)"
  have l: "unat (load_of pool j) < 2 ^ 32" for j
  proof (cases "j < length (ps_inflight pool)")
    case True
    then have g: "unat (ps_inflight pool ! j) < 2 ^ 32 - 1" using assms(4) by simp
    then have "unat (ps_inflight pool ! j + 1) = unat (ps_inflight pool ! j) + 1"
      using unat_add_lem [of "ps_inflight pool ! j" 1] by simp
    with g True show ?thesis by (simp add: load_of_def)
  qed (simp add: load_of_def)
  have w: "unat (weight_of u j) < 2 ^ 32" "0 < unat (weight_of u j)" for j
    using server_weight_bounds by (simp_all add: weight_of_def)
  have prod: "unat (load_of pool x * weight_of u y) = unat (load_of pool x) * unat (weight_of u y)" for x y
  proof -
    have "unat (load_of pool x) * unat (weight_of u y) < 2 ^ 32 * 2 ^ 32"
      using l w by (intro mult_strict_mono) simp_all
    then show ?thesis using unat_mult_lem [of "load_of pool x" "weight_of u y"] by simp
  qed
  have gt: "load_greater pool u x y \<longleftrightarrow>
      unat (load_of pool y) * unat (weight_of u x) < unat (load_of pool x) * unat (weight_of u y)" for x y
    by (simp add: load_greater_def word_less_nat_alt prod)
  have "sort_by (load_greater pool u) [0..<?n] = primary # rest"
    using assms(1,2,3,5) by (simp add: candidates_def Let_def split: if_splits)
  then have "\<not> load_greater pool u primary i"
  proof (rule sort_by_head)
    show "i \<in> set [0..<?n]" using assms(6) by simp
    show "\<not> load_greater pool u x z"
      if "\<not> load_greater pool u x y" "\<not> load_greater pool u y z" for x y z
      using ratio_trans [OF w(2) [of y]] that by (simp add: gt not_less)
  qed (simp add: gt)
  then show ?thesis by (simp add: gt not_less)
qed

theorem least_conn_minimal_witness:
  "unat (load_of (fresh_pool 2) 0) * unat (weight_of (sample_pool \<lparr>up_strategy := ''least-conn''\<rparr>) 1)
   \<le> unat (load_of (fresh_pool 2) 1) * unat (weight_of (sample_pool \<lparr>up_strategy := ''least-conn''\<rparr>) 0)"
proof -
  let ?u = "sample_pool \<lparr>up_strategy := ''least-conn''\<rparr>"
  have c: "snd (candidates sample_ext (\<lambda>_. None) ?u (V4 (Ipv4 127 0 0 1))) = 0 # [1]"
    by (simp add: sample_pool_def candidates_def pool_of_def sort_by_def load_greater_def
        load_of_def fresh_pool_def weight_of_def server_weight_def upt_rec)
  show ?thesis
    by (rule least_conn_minimal [OF _ _ _ _ c])
       (simp_all add: sample_pool_def pool_of_def fresh_pool_2)
qed

text \<open>
  Ip-hash is sticky: the order depends on the client's address alone, not on the state of the
  balancer or on earlier requests, and choosing changes no state.
\<close>

theorem ip_hash_stable:
  assumes "up_strategy u = ''ip-hash''"
  shows "snd (candidates X b u client) = snd (candidates X b' u client)
    \<and> fst (candidates X b u client) = b"
  using assms by (simp add: candidates_def Let_def)

theorem ip_hash_stable_witness:
  "snd (candidates sample_ext (\<lambda>_. None) (sample_pool \<lparr>up_strategy := ''ip-hash''\<rparr>) (V4 (Ipv4 127 0 0 1)))
   = snd (candidates sample_ext (for_upstream sample_pool) (sample_pool \<lparr>up_strategy := ''ip-hash''\<rparr>)
       (V4 (Ipv4 127 0 0 1)))"
  using ip_hash_stable [of "sample_pool \<lparr>up_strategy := ''ip-hash''\<rparr>" sample_ext "\<lambda>_. None"
      "V4 (Ipv4 127 0 0 1)" "for_upstream sample_pool"] by simp

text \<open>
  C37. The gauges count the requests in flight: after any interleaving of selections, tracked requests
  and dropped guards on a block's balancer, each gauge is the number of live guards for its
  server (modulo the counter's 64 bits), so it is back at zero when all of them are dropped.
\<close>

theorem gauges_count_guards:
  assumes "gauge_step\<^sup>*\<^sup>* (balancer_new hb, {#}) (b, G)" "b name = Some p" "i < length (ps_inflight p)"
  shows "ps_inflight p ! i = of_nat (live_guards G name i)"
proof -
  from assms(1) have "gauges_ok (b, G)"
    by (induction "(b, G)" arbitrary: b G rule: rtranclp_induct)
       (auto simp: fresh_gauges_ok balancer_new_fresh intro: gauge_step_ok)
  with assms(2,3) show ?thesis by (auto simp: gauges_ok_def)
qed

theorem gauges_count_guards_witness:
  "ps_inflight (bump 1 0 (fresh_pool 2)) ! 0 = 1"
proof -
  let ?hb = "default_http_block [] \<lparr>hb_upstreams := [sample_pool]\<rparr>"
  let ?g = "\<lparr>ig_pool = Some ''app'', ig_idx = 0\<rparr>"
  have n: "balancer_new ?hb = [''app'' \<mapsto> fresh_pool 2]"
    by (simp add: balancer_new_def default_http_block_def pool_add_def sample_pool_def numeral_2_eq_2)
  have "gauge_step (balancer_new ?hb, {#}) ([''app'' \<mapsto> bump 1 0 (fresh_pool 2)], add_mset ?g {#})"
    unfolding n by (rule tracked [of _ sample_pool 0]) (simp add: track_def sample_pool_def)
  then have "gauge_step\<^sup>*\<^sup>* (balancer_new ?hb, {#}) ([''app'' \<mapsto> bump 1 0 (fresh_pool 2)], add_mset ?g {#})"
    by (rule r_into_rtranclp)
  from gauges_count_guards [OF this, of "''app''" "bump 1 0 (fresh_pool 2)" 0]
  show ?thesis by (simp add: live_guards_def bump_inflight fresh_pool_def)
qed

end
