(* ===== verification/Ab_Split.thy ===== *)
theory Ab_Split
  imports Flexd_Config Flexd_Interfaces
begin

text \<open>
  \<^verbatim>\<open>absplit.rs\<close>: the A/B router. The sticky-session table is an association list (a hash map; its
  length is the map's \<^verbatim>\<open>len\<close>), returned updated. Weights and hashes keep their 32 bits. The lemmas
  give the share of the hash space each group gets, the capacity of the table and how long a
  session stays pinned.
\<close>

section \<open>Operations\<close>

record ab_config =
  abc_groups :: "ab_group list"
  abc_total_weight :: u32
  abc_sticky :: bool

record ab_router =
  ar_splits :: "string \<rightharpoonup> ab_config"
  ar_sticky_sessions :: "(string \<times> string) list"

definition MAX_STICKY_SESSIONS :: nat where
  "MAX_STICKY_SESSIONS = 10000"

definition ab_config_of :: "ab_split \<Rightarrow> ab_config" where
  "ab_config_of sp =
     \<lparr>abc_groups = sp_groups sp, abc_total_weight = sum_list (map g_weight (sp_groups sp)),
      abc_sticky = sp_sticky sp\<rparr>"

definition ab_router_new :: "ab_split list \<Rightarrow> ab_router" where
  "ab_router_new splits =
     \<lparr>ar_splits = fold (\<lambda>sp m. m(sp_name sp \<mapsto> ab_config_of sp)) splits (\<lambda>_. None),
      ar_sticky_sessions = []\<rparr>"

fun group_loop :: "u32 \<Rightarrow> u32 \<Rightarrow> ab_group list \<Rightarrow> ab_group option" where
  "group_loop cumulative hash [] = None"
| "group_loop cumulative hash (g # gs) =
     (let cumulative = cumulative + g_weight g in
      if hash < cumulative then Some g else group_loop cumulative hash gs)"

definition sticky_put :: "(string \<times> string) list \<Rightarrow> string \<Rightarrow> string \<Rightarrow> (string \<times> string) list" where
  "sticky_put sessions session_id gname =
     AList.update session_id gname
       (if MAX_STICKY_SESSIONS \<le> length sessions then [] else sessions)"

definition resolve :: "ext \<Rightarrow> ab_router \<Rightarrow> string \<Rightarrow> string \<Rightarrow> ab_router \<times> string option" where
  "resolve X r split_name session_id =
     (case ar_splits r split_name of
        None \<Rightarrow> (r, None)
      | Some cfg \<Rightarrow>
          (case (if abc_sticky cfg then map_of (ar_sticky_sessions r) session_id else None) of
             Some gname \<Rightarrow> (r, Some gname)
           | None \<Rightarrow>
               if abc_total_weight cfg = 0 then (r, None)
               else let hash = ucast (x_hash_session X session_id split_name) mod abc_total_weight cfg in
                 (case group_loop 0 hash (abc_groups cfg) of
                    Some g \<Rightarrow>
                      (if abc_sticky cfg
                       then r \<lparr>ar_sticky_sessions :=
                                 sticky_put (ar_sticky_sessions r) session_id (g_name g)\<rparr>
                       else r,
                       Some (g_name g))
                  | None \<Rightarrow> (r, map_option g_name (list_first (abc_groups cfg))))))"

text \<open>The router after a sequence of requests, each a split and a session.\<close>

definition resolve_all :: "ext \<Rightarrow> ab_router \<Rightarrow> (string \<times> string) list \<Rightarrow> ab_router" where
  "resolve_all X r reqs = fold (\<lambda>(sp, s) r. fst (resolve X r sp s)) reqs r"

section \<open>The two contracts\<close>

interpretation abw: weighted_pick g_weight group_loop
  by unfold_locales (simp_all add: Let_def)

interpretation sticky: capped_store MAX_STICKY_SESSIONS length map_of sticky_put
proof
  fix s :: "(string \<times> string) list" and k v
  show "length s < MAX_STICKY_SESSIONS \<Longrightarrow> length (sticky_put s k v) \<le> Suc (length s)"
    by (simp add: sticky_put_def length_update_le)
qed (simp_all add: sticky_put_def MAX_STICKY_SESSIONS_def map_of_clear_update)

section \<open>Sequences of requests\<close>

lemma resolve_router:
  "fst (resolve X r sp s) = r
   \<or> (\<exists>g. map_of (ar_sticky_sessions r) s = None
        \<and> fst (resolve X r sp s)
          = r \<lparr>ar_sticky_sessions := sticky_put (ar_sticky_sessions r) s g\<rparr>)"
  by (auto simp: resolve_def Let_def split: option.split)

lemma resolve_splits [simp]: "ar_splits (fst (resolve X r sp s)) = ar_splits r"
  using resolve_router [of X r sp s] by auto

lemma resolve_all_Cons:
  "resolve_all X r ((sp, s) # reqs) = resolve_all X (fst (resolve X r sp s)) reqs"
  by (simp add: resolve_all_def)

lemma resolve_all_splits [simp]: "ar_splits (resolve_all X r reqs) = ar_splits r"
  by (induction reqs arbitrary: r) (auto simp: resolve_all_def)

lemma resolve_cap:
  "length (ar_sticky_sessions r) \<le> MAX_STICKY_SESSIONS \<Longrightarrow>
     length (ar_sticky_sessions (fst (resolve X r sp s))) \<le> MAX_STICKY_SESSIONS"
  using resolve_router [of X r sp s] by (auto simp: sticky.size_put)

lemma resolve_grows:
  assumes "length (ar_sticky_sessions r) < MAX_STICKY_SESSIONS"
  shows "length (ar_sticky_sessions (fst (resolve X r sp s))) \<le> Suc (length (ar_sticky_sessions r))"
  using resolve_router [of X r sp s] sticky.put_room [OF assms] by auto

lemma resolve_keeps_other:
  assumes "length (ar_sticky_sessions r) < MAX_STICKY_SESSIONS"
    and "map_of (ar_sticky_sessions r) s = Some g"
  shows "map_of (ar_sticky_sessions (fst (resolve X r sp s'))) s = Some g"
  using resolve_router [of X r sp s'] assms sticky.look_other [of s s', OF _ assms(1)]
  by (cases "s' = s") auto

lemma resolve_all_keeps:
  assumes "length (ar_sticky_sessions r) + length reqs \<le> MAX_STICKY_SESSIONS"
    and "map_of (ar_sticky_sessions r) s = Some g"
  shows "map_of (ar_sticky_sessions (resolve_all X r reqs)) s = Some g"
  using assms
proof (induction reqs arbitrary: r)
  case Nil
  then show ?case by (simp add: resolve_all_def)
next
  case (Cons req reqs)
  obtain sp s' where req: "req = (sp, s')" by (cases req)
  have room: "length (ar_sticky_sessions r) < MAX_STICKY_SESSIONS" using Cons.prems(1) by simp
  show ?case
    unfolding req resolve_all_Cons
    using Cons.IH [of "fst (resolve X r sp s')"] resolve_grows [OF room, of X sp s']
      resolve_keeps_other [OF room Cons.prems(2), of X sp s'] Cons.prems(1) by simp
qed

text \<open>What requests may do to a router: its splits stay, and its sessions stay within the cap.\<close>

definition rerouted :: "ab_router option \<Rightarrow> ab_router option \<Rightarrow> bool" where
  "rerouted r r' \<longleftrightarrow>
     map_option ar_splits r' = map_option ar_splits r
     \<and> (\<forall>a b. r = Some a \<and> r' = Some b \<and> length (ar_sticky_sessions a) \<le> MAX_STICKY_SESSIONS \<longrightarrow>
          length (ar_sticky_sessions b) \<le> MAX_STICKY_SESSIONS)"

lemma rerouted_refl [simp]: "rerouted r r"
  by (auto simp: rerouted_def)

lemma rerouted_trans: "rerouted a b \<Longrightarrow> rerouted b c \<Longrightarrow> rerouted a c"
  by (cases a; cases b; cases c) (auto simp: rerouted_def)

lemma resolve_rerouted: "rerouted (Some r) (Some (fst (resolve X r sp s)))"
  by (simp add: rerouted_def resolve_cap)

text \<open>A split of two groups for the examples.\<close>

definition sample_split :: "string \<Rightarrow> bool \<Rightarrow> string \<Rightarrow> string \<Rightarrow> ab_split" where
  "sample_split name sticky a b =
     \<lparr>sp_name = name, sp_sticky = sticky,
      sp_groups = [\<lparr>g_name = a, g_upstream = a, g_weight = 60\<rparr>,
                   \<lparr>g_name = b, g_upstream = b, g_weight = 40\<rparr>]\<rparr>"

section \<open>Properties\<close>

text \<open>
  A split divides the hash space as its weights say: among the residues a session's hash can
  have, exactly as many lead to a group as the group has weight.
\<close>

theorem split_share:
  assumes "ar_splits r split = Some (ab_config_of sp)" "\<not> sp_sticky sp"
    and "sum_list (map (unat \<circ> g_weight) (sp_groups sp)) = W" "W < 2 ^ 32"
    and "distinct (map g_name (sp_groups sp))" "g \<in> set (sp_groups sp)"
  shows "card {n. n < W \<and> snd (resolve (X \<lparr>x_hash_session := \<lambda>_ _. of_nat n\<rparr>) r split session)
      = Some (g_name g)} = unat (g_weight g)"
proof -
  have tot: "abw.total (sp_groups sp) = W" using assms(3) by (simp add: abw.total_def)
  have d: "distinct (sp_groups sp)" using assms(5) by (simp add: distinct_map)
  have sum: "unat (sum_list (map g_weight (sp_groups sp))) = W"
    using unat_sum_list [of "map g_weight (sp_groups sp)"] assms(3,4) by simp
  have "snd (resolve (X \<lparr>x_hash_session := \<lambda>_ _. of_nat n\<rparr>) r split session) = Some (g_name g)
      \<longleftrightarrow> group_loop 0 (of_nat n) (sp_groups sp) = Some g" if n: "n < W" for n
  proof -
    have n64: "unat (of_nat n :: u64) = n" using n assms(4) by (intro unat_of_nat_small) simp
    have n32: "unat (of_nat n :: u32) = n" using n assms(4) by (intro unat_of_nat_small) simp
    have "(ucast (of_nat n :: u64) :: u32) = of_nat n"
      by (metis n64 of_nat_unat)
    then have h: "(ucast (of_nat n :: u64) :: u32) mod sum_list (map g_weight (sp_groups sp)) = of_nat n"
      using n n32 sum by (simp add: word_unat_eq_iff unat_mod_distrib)
    obtain g' where g': "group_loop 0 (of_nat n) (sp_groups sp) = Some g'"
      using abw.pick_total [of 0 "sp_groups sp" "of_nat n"] n n32 tot assms(4) by auto
    then have "g' \<in> set (sp_groups sp)" by (rule abw.pick_mem)
    then have "g_name g' = g_name g \<longleftrightarrow> g' = g"
      using assms(5,6) by (auto simp: distinct_map inj_on_def)
    moreover have "sum_list (map g_weight (sp_groups sp)) \<noteq> 0" using sum n by auto
    ultimately show ?thesis
      using assms(1,2) g' h by (simp add: resolve_def ab_config_of_def Let_def)
  qed
  then have "{n. n < W \<and> snd (resolve (X \<lparr>x_hash_session := \<lambda>_ _. of_nat n\<rparr>) r split session)
      = Some (g_name g)} = {n. n < abw.total (sp_groups sp)
        \<and> group_loop 0 (of_nat n) (sp_groups sp) = Some g}"
    using tot by auto
  then show ?thesis using abw.pick_share [OF d _ assms(6)] tot assms(4) by simp
qed

theorem split_share_witness:
  "card {n. n < 100 \<and> snd (resolve (sample_ext \<lparr>x_hash_session := \<lambda>_ _. of_nat n\<rparr>)
      (ab_router_new [sample_split ''x'' False ''a'' ''b'']) ''x'' ''sid'') = Some ''a''} = 60"
  using split_share [of "ab_router_new [sample_split ''x'' False ''a'' ''b'']" "''x''"
      "sample_split ''x'' False ''a'' ''b''" 100 "\<lparr>g_name = ''a'', g_upstream = ''a'', g_weight = 60\<rparr>"
      sample_ext "''sid''"]
  by (simp add: sample_split_def ab_router_new_def)

text \<open>
  A resolved name is a group of the split asked for, or the group the table holds for the
  session; a split that is not sticky never looks at the table, and a request to it changes
  nothing.
\<close>

theorem resolve_result:
  assumes "ar_splits r split = Some cfg" "snd (resolve X r split session) = Some g"
  shows "(abc_sticky cfg \<and> map_of (ar_sticky_sessions r) session = Some g
      \<or> g \<in> g_name ` set (abc_groups cfg))
    \<and> (\<not> abc_sticky cfg \<longrightarrow> fst (resolve X r split session) = r)"
  using assms
  by (auto simp: resolve_def Let_def list_first_def dest: abw.pick_mem
      split: option.splits if_splits list.splits)

theorem resolve_result_witness:
  "''b'' \<in> g_name ` set (sp_groups (sample_split ''x'' False ''a'' ''b''))
   \<and> fst (resolve (sample_ext \<lparr>x_hash_session := \<lambda>_ _. 77\<rparr>)
        (ab_router_new [sample_split ''x'' False ''a'' ''b'']) ''x'' ''sid'')
     = ab_router_new [sample_split ''x'' False ''a'' ''b'']"
proof -
  let ?r = "ab_router_new [sample_split ''x'' False ''a'' ''b'']"
  have 1: "ar_splits ?r ''x'' = Some (ab_config_of (sample_split ''x'' False ''a'' ''b''))"
    by (simp add: ab_router_new_def sample_split_def)
  have 2: "snd (resolve (sample_ext \<lparr>x_hash_session := \<lambda>_ _. 77\<rparr>) ?r ''x'' ''sid'') = Some ''b''"
    by (simp add: ab_router_new_def sample_split_def resolve_def ab_config_of_def)
  from resolve_result [OF 1 2] show ?thesis by (simp add: ab_config_of_def sample_split_def)
qed

text \<open>
  A sticky session stays in its group: once it is resolved, any later requests, of this session
  or others and to any splits, leave its answer unchanged as long as the table has room for them.
\<close>

theorem sticky_stays:
  assumes "ar_splits r split = Some cfg" "abc_sticky cfg"
    and "map_of (ar_sticky_sessions r) session = Some g"
    and "length (ar_sticky_sessions r) + length reqs \<le> MAX_STICKY_SESSIONS"
  shows "snd (resolve X (resolve_all X r reqs) split session) = Some g"
  using resolve_all_keeps [OF assms(4,3), of X] assms(1,2) by (simp add: resolve_def)

theorem sticky_stays_witness:
  "snd (resolve sample_ext (resolve_all sample_ext
     (ab_router_new [sample_split ''x'' True ''a'' ''b''] \<lparr>ar_sticky_sessions := [(''sid'', ''b'')]\<rparr>)
     [(''x'', ''other''), (''x'', ''sid'')]) ''x'' ''sid'') = Some ''b''"
  by (rule sticky_stays [where cfg = "ab_config_of (sample_split ''x'' True ''a'' ''b'')"])
     (simp_all add: ab_router_new_def sample_split_def ab_config_of_def MAX_STICKY_SESSIONS_def)

text \<open>
  The table is bounded: no sequence of requests, whatever session identifiers it cycles through,
  makes it larger than 10000 entries.
\<close>

theorem sticky_bounded:
  "length (ar_sticky_sessions (resolve_all X (ab_router_new splits) reqs)) \<le> 10000"
proof -
  have "length (ar_sticky_sessions r) \<le> MAX_STICKY_SESSIONS \<Longrightarrow>
      length (ar_sticky_sessions (resolve_all X r reqs)) \<le> MAX_STICKY_SESSIONS" for r
    by (induction reqs arbitrary: r) (auto simp: resolve_all_def resolve_cap)
  from this [of "ab_router_new splits"] show ?thesis
    by (simp add: ab_router_new_def MAX_STICKY_SESSIONS_def)
qed

text \<open>
  The table is keyed by the session alone: a session pinned by one sticky split gets that split's
  group name from every other sticky split, even where no group of that name exists.
\<close>

theorem sticky_crosses_splits:
  "let r = ab_router_new [sample_split ''x'' True ''a'' ''b'', sample_split ''y'' True ''c'' ''d''];
       r' = fst (resolve sample_ext r ''x'' ''sid'')
   in snd (resolve sample_ext r' ''y'' ''sid'') = Some ''a''
      \<and> ''a'' \<notin> g_name ` set (sp_groups (sample_split ''y'' True ''c'' ''d''))"
  by (simp add: Let_def resolve_def ab_router_new_def sample_split_def ab_config_of_def
      sample_ext_def sticky_put_def MAX_STICKY_SESSIONS_def)

end
