(* ===== verification/Flexd_Rewrite.thy ===== *)
theory Flexd_Rewrite
  imports Flexd_Config
begin

text \<open>
  \<^verbatim>\<open>rewrite.rs\<close>: the rewrite engine, over the regex parameters.
\<close>

datatype rewrite_action = Internal string | Redirect string u16

type_synonym rewrite_engine = "(regex \<times> string \<times> string) list"

definition rewrite_engine_new :: "ext \<Rightarrow> rewrite_rule list \<Rightarrow> rewrite_engine" where
  "rewrite_engine_new X rules =
     List.map_filter
       (\<lambda>rule. map_option (\<lambda>re. (re, rw_replacement rule, rw_flag rule))
                 (regex_new X (rw_pattern rule)))
       rules"

definition rewrite_is_empty :: "rewrite_engine \<Rightarrow> bool" where
  "rewrite_is_empty rules \<longleftrightarrow> rules = []"

fun rewrite_apply :: "ext \<Rightarrow> rewrite_engine \<Rightarrow> string \<Rightarrow> rewrite_action option" where
  "rewrite_apply X [] path = None"
| "rewrite_apply X ((re, replacement, flag) # rules) path =
     (if re_is_match X re path
      then let result = re_replace X re path replacement in
        Some (if flag = ''redirect'' then Redirect result 302
              else if flag = ''permanent'' then Redirect result 301
              else Internal result)
      else rewrite_apply X rules path)"

section \<open>Lemmas\<close>

lemma rewrite_apply_None:
  "rewrite_apply X rules path = None \<longleftrightarrow> (\<forall>(re, rep, fl)\<in>set rules. \<not> re_is_match X re path)"
  by (induction rules) (auto simp: Let_def split: if_splits)

lemma engine_in_order:
  "list_all (\<lambda>r. regex_new X (rw_pattern r) \<noteq> None) rules \<Longrightarrow>
     rewrite_engine_new X rules = map (\<lambda>r. (Regex (rw_pattern r), rw_replacement r, rw_flag r)) rules"
  by (induction rules)
     (auto simp: rewrite_engine_new_def map_filter_simps regex_new_def split: if_splits)

text \<open>
  With rules that validation accepted, the first rule in configuration order whose pattern
  matches decides: its flag gives a 302, a 301 or an internal rewrite to its replacement, and
  the rules after it are not consulted.
\<close>

theorem first_rule_decides:
  assumes "\<forall>r\<in>set (before @ rule # after). regex_new X (rw_pattern r) \<noteq> None"
    and "\<forall>r\<in>set before. \<not> x_re_is_match X (rw_pattern r) path"
    and "x_re_is_match X (rw_pattern rule) path"
    and "target = x_re_replace X (rw_pattern rule) path (rw_replacement rule)"
  shows "rewrite_apply X (rewrite_engine_new X (before @ rule # after)) path =
    Some (if rw_flag rule = ''redirect'' then Redirect target 302
          else if rw_flag rule = ''permanent'' then Redirect target 301
          else Internal target)"
proof -
  have "rewrite_apply X (map (\<lambda>r. (Regex (rw_pattern r), rw_replacement r, rw_flag r))
      (before @ rule # after)) path = Some (if rw_flag rule = ''redirect'' then Redirect target 302
          else if rw_flag rule = ''permanent'' then Redirect target 301 else Internal target)"
    using assms(2,3) by (induction before) (auto simp: assms(4) Let_def)
  then show ?thesis using assms(1) by (subst engine_in_order) (auto simp: list_all_iff)
qed

theorem first_rule_decides_witness:
  "rewrite_apply sample_ext (rewrite_engine_new sample_ext
     ([\<lparr>rw_pattern = ''/a'', rw_replacement = ''/b'', rw_flag = ''last''\<rparr>]
      @ \<lparr>rw_pattern = ''/old'', rw_replacement = ''/new'', rw_flag = ''permanent''\<rparr> # [])) ''/old''
   = Some (Redirect ''/new'' 301)"
  by (subst first_rule_decides) (simp_all add: regex_new_def sample_ext_def)

end
