(* ===== verification/Uri_Validate.thy ===== *)
theory Uri_Validate
  imports Flexd_Externs
begin

text \<open>
  \<^verbatim>\<open>security/uri_validate.rs\<close>: the checks on a request path and on header and log text. The scan
  for overlong sequences slices the string by byte positions, and a slice that cuts a character
  panics: \<open>validate_uri\<close> has that outcome. The lemmas say what an accepted path cannot contain and
  what it decodes to.
\<close>

section \<open>Operations\<close>

type_synonym uri_error = "status \<times> string"

text \<open>
  The percent decoder. An escape needs two bytes after the percent sign; they are read by
  \<^verbatim>\<open>u8::from_str_radix\<close>; where fewer than three bytes are left they are copied. (The lossy conversion in between replaces bytes that are not UTF-8 by a
  character that is no digit, so it fails on the same inputs.)
\<close>

fun url_decode_bytes :: "string \<Rightarrow> string option" where
  "url_decode_bytes (c # a # b # r) =
     (if c = CHR ''%''
      then (case u8_from_hex [a, b] of
              None \<Rightarrow> None
            | Some n \<Rightarrow> map_option (\<lambda>t. byte n # t) (url_decode_bytes r))
      else map_option (\<lambda>t. c # t) (url_decode_bytes (a # b # r)))"
| "url_decode_bytes s = Some s"

definition url_decode :: "string \<Rightarrow> string option" where
  "url_decode s =
     (case url_decode_bytes s of
        None \<Rightarrow> None
      | Some r \<Rightarrow> if utf8_valid r then Some r else None)"

text \<open>One round of the scan, at position \<open>i\<close>.\<close>

definition scan_at :: "case_table \<Rightarrow> string \<Rightarrow> nat \<Rightarrow> (uri_error, unit) outcome" where
  "scan_at T s i =
     (if s ! i = CHR ''%'' \<and> i + 2 < length s
      then (case str_slice s i (i + 3) of
              None \<Rightarrow> Panic
            | Some sl \<Rightarrow>
                (let sq = to_lowercase T sl in
                 if sq = ''%c0'' \<or> sq = ''%c1'' \<or> sq = ''%e0''
                 then Err (400, ''overlong UTF-8 encoding in URI'')
                 else if sq = ''%ed'' \<and> i + 6 < length s
                 then (case str_slice s (i + 3) (i + 6) of
                         None \<Rightarrow> Panic
                       | Some nx \<Rightarrow>
                           (case strip_prefix (to_lowercase T nx) ''%'' of
                              None \<Rightarrow> Ok ()
                            | Some hex \<Rightarrow>
                                (let v = (case u8_from_hex hex of None \<Rightarrow> 0 | Some v \<Rightarrow> v) in
                                 if 160 \<le> v \<and> v \<le> 191
                                 then Err (400, ''invalid surrogate half in URI'')
                                 else Ok ())))
                 else Ok ()))
      else Ok ())"

fun scan_from :: "case_table \<Rightarrow> string \<Rightarrow> nat list \<Rightarrow> (uri_error, unit) outcome" where
  "scan_from T s [] = Ok ()"
| "scan_from T s (i # is) = out_bind (scan_at T s i) (\<lambda>_. scan_from T s is)"

text \<open>The two Unicode slashes, as their bytes.\<close>

definition fraction_slash :: string where
  "fraction_slash = [byte 226, byte 129, byte 132]"

definition division_slash :: string where
  "division_slash = [byte 226, byte 136, byte 149]"

definition validate_uri :: "case_table \<Rightarrow> string \<Rightarrow> (uri_error, unit) outcome" where
  "validate_uri T uri =
     (let lower = to_lowercase T uri in
      if str_contains lower ''%00'' then Err (400, ''null byte in URI'')
      else if str_contains lower ''%2e%2e%2f'' \<or> str_contains lower (''%2e%2e'' @ [CHR 0x5C])
      then Err (400, ''encoded traversal in URI'')
      else if str_contains lower ''%252e%252e%252f''
      then Err (400, ''double-encoded traversal in URI'')
      else if str_contains lower ''%0b'' then Err (400, ''vertical tab in URI'')
      else if CHR 0x5C \<in> set uri then Err (400, ''backslash in URI'')
      else if str_contains uri fraction_slash \<or> str_contains uri division_slash
      then Err (400, ''unicode slash variant in URI'')
      else if str_contains lower ''%c0%ae'' \<or> str_contains lower ''%e0%40%ae''
      then Err (400, ''overlong UTF-8 in URI'')
      else out_bind (scan_from T uri [0..<length uri])
        (\<lambda>_. if url_decode uri = None then Err (400, ''invalid percent encoding'') else Ok ()))"

text \<open>
  \<^verbatim>\<open>has_control_chars\<close> and \<^verbatim>\<open>strip_control_chars\<close>. The test is true of ASCII characters only, and
  in UTF-8 those are exactly the bytes below 128, so it is made byte by byte.
\<close>

definition control_char :: "char \<Rightarrow> bool" where
  "control_char c \<longleftrightarrow> code c < 32 \<and> code c \<noteq> 9 \<or> code c = 127"

definition has_control_chars :: "string \<Rightarrow> bool" where
  "has_control_chars s = list_ex control_char s"

definition strip_control_chars :: "string \<Rightarrow> string" where
  "strip_control_chars s =
     filter (\<lambda>c. \<not> ((code c < 32 \<and> code c \<noteq> 9) \<or> code c = 127 \<or> code c = 10 \<or> code c = 13)) s"

section \<open>The scan\<close>

lemma scan_from_Ok: "scan_from T s is = Ok () \<longleftrightarrow> (\<forall>i\<in>set is. scan_at T s i = Ok ())"
  by (induction "is") (auto simp: check_ok)

lemma scan_from_Panic:
  "scan_from T s is = Panic \<Longrightarrow> \<exists>i\<in>set is. scan_at T s i = Panic"
  by (induction "is") (auto simp: out_bind_def split: outcome.splits)

lemma is_char_boundary_ascii:
  "list_all is_ascii s \<Longrightarrow> i \<le> length s \<Longrightarrow> is_char_boundary s i"
  by (cases "i < length s") (auto simp: is_char_boundary_def is_cont_def is_ascii_def list_all_length
      dest: spec [of _ i])

lemma scan_at_ascii: "list_all is_ascii s \<Longrightarrow> scan_at T s i \<noteq> Panic"
  by (auto simp: scan_at_def str_slice_def is_char_boundary_ascii Let_def
      split: option.splits)

section \<open>What an accepted path decodes to\<close>

lemma digit_val_0: "digit_val c = Some 0 \<longleftrightarrow> c = CHR ''0''"
proof
  assume "digit_val c = Some 0"
  then have "(of_char c :: nat) = of_char (CHR ''0'')"
    by (auto simp: digit_val_def Let_def split: if_splits)
  then show "c = CHR ''0''" by (simp only: of_char_eq_iff)
qed (simp add: digit_val_def)

lemma u8_from_hex_0: "u8_from_hex [a, b] = Some 0 \<Longrightarrow> b = CHR ''0'' \<and> (a = CHR ''0'' \<or> a = CHR ''+'')"
proof -
  assume h: "u8_from_hex [a, b] = Some 0"
  show ?thesis
  proof (cases "a = CHR ''+''")
    case True
    with h have "to_digit 16 b = Some 0"
      by (auto simp: u8_from_hex_def uint_from_str_radix_def split: option.splits if_splits)
    with True show ?thesis
      by (auto simp: to_digit_def digit_val_0 split: option.splits if_splits)
  next
    case False
    with h obtain x y where x: "to_digit 16 a = Some x" and y: "to_digit 16 b = Some y"
      and "x * 16 + y = 0"
      by (auto simp: u8_from_hex_def uint_from_str_radix_def split: option.splits if_splits)
    then have "x = 0" "y = 0" by simp_all
    with x y show ?thesis
      by (auto simp: to_digit_def digit_val_0 split: option.splits if_splits)
  qed
qed

lemma decoded_nul:
  assumes "url_decode_bytes s = Some d" "byte 0 \<in> set d"
  shows "byte 0 \<in> set s \<or> str_contains s ''%00'' \<or> str_contains s ''%+0''"
  using assms
proof (induction s arbitrary: d rule: url_decode_bytes.induct)
  case (1 c a b r)
  show ?case
  proof (cases "c = CHR ''%''")
    case True
    with "1.prems"(1) obtain n t where n: "u8_from_hex [a, b] = Some n"
      and t: "url_decode_bytes r = Some t" and d: "d = byte n # t"
      by (auto split: option.splits)
    show ?thesis
    proof (cases "byte 0 \<in> set t")
      case in_t: True
      have "byte 0 \<in> set r \<or> str_contains r ''%00'' \<or> str_contains r ''%+0''"
        using "1.IH"(1) [OF True n t in_t] .
      then show ?thesis by (auto simp: sublist_Cons_right)
    next
      case False
      with "1.prems"(2) d have "byte n = byte 0" by auto
      then have "n = 0" using u8_from_hex_less [OF n] by (simp add: char_of_eq_iff take_bit_eq_mod)
      with n have "b = CHR ''0'' \<and> (a = CHR ''0'' \<or> a = CHR ''+'')" by (auto dest: u8_from_hex_0)
      then show ?thesis by (auto simp: True sublist_Cons_right)
    qed
  next
    case False
    with "1.prems"(1) obtain t where t: "url_decode_bytes (a # b # r) = Some t"
      and d: "d = c # t" by auto
    with "1.IH"(2) [OF False t] "1.prems"(2) show ?thesis by (auto simp: sublist_Cons_right)
  qed
qed simp_all

lemma lower_contains:
  assumes "str_contains s p" "list_all is_ascii p"
  shows "str_contains (to_lowercase T s) (map ascii_lower p)"
proof -
  from assms(1) obtain a b where s: "s = a @ p @ b" by (rule sublistE)
  from recase_ascii_infix [OF assms(2)] obtain a' b'
    where "recase ascii_lower T (a @ p @ b) = a' @ map ascii_lower p @ b'" by blast
  then show ?thesis by (auto simp: s to_lowercase_def sublist_def)
qed

text \<open>The sequences the validator rejects in any mix of cases.\<close>

definition banned_sequences :: "string list" where
  "banned_sequences =
     [''%00'', ''%2e%2e%2f'', ''%2e%2e'' @ [CHR 0x5C], ''%252e%252e%252f'', ''%0b'', ''%c0%ae'',
      ''%e0%40%ae'']"

lemma validate_uri_Ok:
  "validate_uri T uri = Ok () \<longleftrightarrow>
     (\<forall>b\<in>set banned_sequences. \<not> str_contains (to_lowercase T uri) b)
     \<and> CHR 0x5C \<notin> set uri
     \<and> \<not> str_contains uri fraction_slash \<and> \<not> str_contains uri division_slash
     \<and> (\<forall>i<length uri. scan_at T uri i = Ok ())
     \<and> url_decode uri \<noteq> None"
  by (auto simp: validate_uri_def Let_def check_ok scan_from_Ok banned_sequences_def)

lemma ascii_lower_ascii: "is_ascii (ascii_lower c) \<longleftrightarrow> is_ascii c"
  by (auto simp: is_ascii_def ascii_lower_def)

lemma banned_ascii: "b \<in> set banned_sequences \<Longrightarrow> list_all is_ascii b"
  by (auto simp: banned_sequences_def is_ascii_def)

lemma banned_any_case:
  assumes "validate_uri T uri = Ok ()" "str_contains uri p"
  shows "map ascii_lower p \<notin> set banned_sequences"
proof
  assume b: "map ascii_lower p \<in> set banned_sequences"
  then have "list_all is_ascii p"
    using banned_ascii [OF b] by (simp add: list.pred_map comp_def ascii_lower_ascii)
  then have "str_contains (to_lowercase T uri) (map ascii_lower p)"
    using assms(2) by (rule lower_contains [rotated])
  with b assms(1) show False by (auto simp: validate_uri_Ok)
qed

lemma url_decode_Some: "url_decode s = Some d \<longleftrightarrow> url_decode_bytes s = Some d \<and> utf8_valid d"
  by (auto simp: url_decode_def split: option.splits)

section \<open>Properties\<close>



text \<open>
  On a path of ASCII characters the validator never panics: every slice it takes lies on
  character boundaries.
\<close>

theorem validate_uri_no_panic:
  assumes "list_all is_ascii uri"
  shows "validate_uri T uri \<noteq> Panic"
proof
  assume p: "validate_uri T uri = Panic"
  have "scan_from T uri [0..<length uri] = Panic"
  proof (cases "scan_from T uri [0..<length uri]")
    case (Ok x1)
    then show ?thesis using p by (auto simp: validate_uri_def Let_def split: if_splits)
  next
    case (Err x2)
    then show ?thesis using p by (auto simp: validate_uri_def Let_def split: if_splits)
  qed
  then show False using scan_from_Panic scan_at_ascii [OF assms] by blast
qed

theorem validate_uri_no_panic_witness:
  "list_all is_ascii ''/%ED%A0%80'' \<and> validate_uri (x_lower sample_ext) ''/%ED%A0%80'' \<noteq> Panic"
proof -
  have "list_all is_ascii ''/%ED%A0%80''" by code_simp
  then show ?thesis using validate_uri_no_panic by blast
qed

text \<open>
  Inputs on which the validator does not do what its documentation says: an escape with a plus
  sign is taken for a NUL byte and accepted, a truncated escape at the end is accepted, the
  well-formed encoding of a Thai letter is rejected as overlong, and an escape that cuts a
  two-byte character panics.
\<close>

theorem validate_uri_surprises:
  "validate_uri (x_lower sample_ext) ''/%+0'' = Ok ()
   \<and> url_decode ''/%+0'' = Some (''/'' @ [byte 0])
   \<and> validate_uri (x_lower sample_ext) ''/a%4'' = Ok ()
   \<and> validate_uri (x_lower sample_ext) ''/%E0%B8%81'' = Err (400, ''overlong UTF-8 encoding in URI'')
   \<and> url_decode ''/%E0%B8%81'' = Some (''/'' @ [byte 224, byte 184, byte 129])
   \<and> validate_uri (x_lower sample_ext) (''/%a'' @ [byte 195, byte 169]) = Panic"
  by (intro conjI; code_simp)

text \<open>
  Stripping removes exactly the control characters: the result has none, what was there keeps
  its order, and a string without control characters is left alone.
\<close>

theorem strip_control_chars_spec:
  "\<not> has_control_chars (strip_control_chars s)
   \<and> subseq (strip_control_chars s) s
   \<and> strip_control_chars (strip_control_chars s) = strip_control_chars s
   \<and> (strip_control_chars s = s \<longleftrightarrow> \<not> has_control_chars s)"
proof -
  have "strip_control_chars s = filter (\<lambda>c. \<not> control_char c) s" for s
    by (auto simp: strip_control_chars_def control_char_def intro: filter_cong)
  then show ?thesis
    by (auto simp: has_control_chars_def list_ex_iff filter_id_conv)
qed

end
