(* ===== verification/Static_File.thy ===== *)
theory Static_File
  imports Flexd_Http Uri_Validate
begin

text \<open>
  \<^verbatim>\<open>static_file.rs\<close>: static files beneath a document root. The operations are those of the source,
  over the file-system calls of the environment. The lemmas show what reaches the kernel, that
  nothing else of the file system can influence an answer, and how the decoder relates to the
  one that vetted the path.
\<close>

section \<open>Paths\<close>

text \<open>\<^verbatim>\<open>Path::components\<close>: whether the path is absolute, and its names.\<close>

definition path_names :: "string \<Rightarrow> string list" where
  "path_names p = filter (\<lambda>c. c \<noteq> [] \<and> c \<noteq> ''.'') (split_char CHR ''/'' p)"

definition path_absolute :: "string \<Rightarrow> bool" where
  "path_absolute p = starts_with p ''/''"

definition path_starts_with :: "string \<Rightarrow> string \<Rightarrow> bool" where
  "path_starts_with p q \<longleftrightarrow> path_absolute p = path_absolute q \<and> prefix (path_names q) (path_names p)"

text \<open>\<^verbatim>\<open>Path::join\<close>.\<close>

definition path_join :: "string \<Rightarrow> string \<Rightarrow> string" where
  "path_join root rel =
     (if path_absolute rel then rel
      else if root = [] \<or> ends_with root ''/'' then root @ rel
      else root @ ''/'' @ rel)"

text \<open>\<^verbatim>\<open>Path::extension\<close>: what follows the last dot of the file name, unless the dot leads it.\<close>

definition path_extension :: "string \<Rightarrow> string option" where
  "path_extension p =
     (case rev (path_names p) of
        [] \<Rightarrow> None
      | name # _ \<Rightarrow>
          if name = ''..'' then None
          else (case rsplit_once CHR ''.'' name of
                  None \<Rightarrow> None
                | Some (before, after) \<Rightarrow> if before = [] then None else Some after))"

section \<open>Operations\<close>

fun static_decode_bytes :: "string \<Rightarrow> string option" where
  "static_decode_bytes [] = Some []"
| "static_decode_bytes (c # s) =
     (if c = CHR ''%''
      then (case s of
              a # b # r \<Rightarrow>
                (case u8_from_hex [a, b] of
                   None \<Rightarrow> None
                 | Some n \<Rightarrow> map_option (\<lambda>t. byte n # t) (static_decode_bytes r))
            | _ \<Rightarrow> None)
      else map_option (\<lambda>t. (if c = CHR ''+'' then CHR '' '' else c) # t) (static_decode_bytes s))"

definition static_url_decode :: "string \<Rightarrow> string option" where
  "static_url_decode s =
     (case static_decode_bytes s of
        None \<Rightarrow> None
      | Some r \<Rightarrow> if utf8_valid r then Some r else None)"

text \<open>
  \<^verbatim>\<open>replace\<close> of the three separators. Both Unicode slashes have three bytes, and in UTF-8 they are
  found at character boundaries only.
\<close>

function replace_separators :: "string \<Rightarrow> string" where
  "replace_separators [] = []"
| "replace_separators (c # s) =
     (if c = CHR 0x5C then CHR ''/'' # replace_separators s
      else if prefix fraction_slash (c # s) \<or> prefix division_slash (c # s)
      then CHR ''/'' # replace_separators (drop 2 s)
      else c # replace_separators s)"
  by pat_completeness auto
termination
  by (relation "measure length") auto

definition sanitize_path :: "string \<Rightarrow> string" where
  "sanitize_path p = dropWhile (\<lambda>c. c = CHR ''/'') (replace_separators p)"

definition guess_mime :: "string \<Rightarrow> string" where
  "guess_mime p =
     (case path_extension p of
        None \<Rightarrow> ''application/octet-stream''
      | Some e \<Rightarrow>
          if e = ''html'' \<or> e = ''htm'' then ''text/html; charset=utf-8''
          else if e = ''css'' then ''text/css; charset=utf-8''
          else if e = ''js'' then ''application/javascript; charset=utf-8''
          else if e = ''json'' then ''application/json; charset=utf-8''
          else if e = ''png'' then ''image/png''
          else if e = ''jpg'' \<or> e = ''jpeg'' then ''image/jpeg''
          else if e = ''gif'' then ''image/gif''
          else if e = ''svg'' then ''image/svg+xml''
          else if e = ''ico'' then ''image/x-icon''
          else if e = ''txt'' then ''text/plain; charset=utf-8''
          else if e = ''xml'' then ''application/xml; charset=utf-8''
          else if e = ''pdf'' then ''application/pdf''
          else if e = ''wasm'' then ''application/wasm''
          else ''application/octet-stream'')"

definition open_beneath_fallback :: "fs \<Rightarrow> string \<Rightarrow> string \<Rightarrow> status + fs_file" where
  "open_beneath_fallback F root rel =
     (case fs_canonicalize F (path_join root rel) of
        None \<Rightarrow> Inl 404
      | Some canonical \<Rightarrow>
          (case fs_canonicalize F root of
             None \<Rightarrow> Inl 500
           | Some root_canonical \<Rightarrow>
               if \<not> path_starts_with canonical root_canonical then Inl 403
               else (case fs_open F canonical of None \<Rightarrow> Inl 404 | Some f \<Rightarrow> Inr f)))"

definition open_beneath :: "fs \<Rightarrow> string \<Rightarrow> string \<Rightarrow> status + fs_file" where
  "open_beneath F root rel =
     (if \<not> fs_open_dir F root then Inl 500
      else (case fs_openat2 F root rel of
              Inr fd \<Rightarrow> Inr fd
            | Inl ENOSYS \<Rightarrow> open_beneath_fallback F root rel
            | Inl EXDEV \<Rightarrow> Inl 403
            | Inl ELOOP \<Rightarrow> Inl 403
            | Inl ENOENT \<Rightarrow> Inl 404
            | Inl ENOTDIR \<Rightarrow> Inl 404
            | Inl EACCES \<Rightarrow> Inl 403
            | Inl OtherErrno \<Rightarrow> Inl 404))"

definition read_regular :: "fs_file \<Rightarrow> status + string" where
  "read_regular f =
     (case ff_is_file f of
        None \<Rightarrow> Inl 500
      | Some False \<Rightarrow> Inl 404
      | Some True \<Rightarrow> (case ff_read f of None \<Rightarrow> Inl 500 | Some c \<Rightarrow> Inr c))"

definition serve_file :: "fs \<Rightarrow> string \<Rightarrow> string \<Rightarrow> status + response" where
  "serve_file F root uri =
     (case static_url_decode uri of
        None \<Rightarrow> Inl 400
      | Some decoded \<Rightarrow>
          (let sanitized = sanitize_path decoded in
           if str_contains sanitized ''..'' \<or> byte 0 \<in> set sanitized then Inl 403
           else if sanitized = [] then Inl 404
           else (case open_beneath F root sanitized of
                   Inl e \<Rightarrow> Inl e
                 | Inr file \<Rightarrow>
                     (case read_regular file of
                        Inl e \<Rightarrow> Inl e
                      | Inr content \<Rightarrow>
                          Inr \<lparr>rs_status = 200,
                               rs_headers = [(''content-type'', guess_mime sanitized),
                                             (''content-length'', show_nat (length content))],
                               rs_body = content\<rparr>))))"

section \<open>What may reach the file system\<close>

text \<open>A path beneath a directory, as text: relative, without parent references and NUL bytes.\<close>

definition confined :: "string \<Rightarrow> bool" where
  "confined rel \<longleftrightarrow>
     rel \<noteq> [] \<and> \<not> path_absolute rel \<and> \<not> str_contains rel ''..'' \<and> byte 0 \<notin> set rel
     \<and> CHR 0x5C \<notin> set rel"

lemma replace_separators_no_backslash: "CHR 0x5C \<notin> set (replace_separators s)"
  by (induction s rule: replace_separators.induct) auto

lemma replace_separators_ascii:
  "list_all is_ascii s \<Longrightarrow> CHR 0x5C \<notin> set s \<Longrightarrow> replace_separators s = s"
proof (induction s rule: replace_separators.induct)
  case (2 c s)
  have "c \<noteq> byte 226"
  proof
    assume "c = byte 226"
    then have "code c = 226" by simp
    with "2.prems"(1) show False by (simp add: is_ascii_def)
  qed
  with 2 show ?case by (auto simp: fraction_slash_def division_slash_def)
qed simp

lemma sanitize_path_confined:
  assumes "sanitize_path d \<noteq> []" "\<not> str_contains (sanitize_path d) ''..''"
    "byte 0 \<notin> set (sanitize_path d)"
  shows "confined (sanitize_path d)"
proof -
  have "hd (sanitize_path d) \<noteq> CHR ''/''"
    using assms(1) hd_dropWhile [of "\<lambda>c. c = CHR ''/''" "replace_separators d"]
    by (simp add: sanitize_path_def)
  then have "\<not> path_absolute (sanitize_path d)"
    using assms(1) by (cases "sanitize_path d") (auto simp: path_absolute_def)
  moreover have "CHR 0x5C \<notin> set (sanitize_path d)"
    using replace_separators_no_backslash [of d] by (auto simp: sanitize_path_def dest: set_dropWhileD)
  ultimately show ?thesis using assms by (simp add: confined_def)
qed

lemma dotdot_names: "\<not> str_contains p ''..'' \<Longrightarrow> ''..'' \<notin> set (split_char CHR ''/'' p)"
proof -
  have "\<forall>c\<in>set (split_char x p). sublist c p" for x
  proof (induction p)
    case Nil
    then show ?case by simp
  next
    case (Cons a p)
    have "split_char x p \<noteq> []" by (induction p) (auto split: list.splits)
    moreover have "prefix (hd (split_char x p)) p"
      by (induction p) (auto split: list.splits)
    ultimately show ?case using Cons
      by (auto split: list.splits simp: sublist_Cons_right)
  qed
  then show "\<not> str_contains p ''..'' \<Longrightarrow> ''..'' \<notin> set (split_char CHR ''/'' p)" by blast
qed

lemma decoders_agree:
  "static_decode_bytes s = Some d \<Longrightarrow> CHR ''+'' \<notin> set s \<Longrightarrow> url_decode_bytes s = Some d"
proof (induction s arbitrary: d rule: static_decode_bytes.induct)
  case 1
  then show ?case by simp
next
  case (2 c s)
  show ?case
  proof (cases "c = CHR ''%''")
    case True
    with "2.prems"(1) obtain a b r n t where s: "s = a # b # r" and n: "u8_from_hex [a, b] = Some n"
      and t: "static_decode_bytes r = Some t" and d: "d = byte n # t"
      by (auto split: list.splits option.splits)
    have "url_decode_bytes r = Some t" using "2.IH"(1) [OF True _ _ n] s t "2.prems"(2) by simp
    with True s n d show ?thesis by simp
  next
    case False
    with "2.prems" obtain t where t: "static_decode_bytes s = Some t" and d: "d = c # t" by auto
    have "url_decode_bytes s = Some t" using "2.IH"(2) [OF False t] "2.prems"(2) by simp
    with False d show ?thesis by (cases s rule: list.exhaust; cases "tl s") auto
  qed
qed

lemma serve_file_result:
  "serve_file F root uri =
     (case static_url_decode uri of
        None \<Rightarrow> Inl 400
      | Some d \<Rightarrow>
          if \<not> confined (sanitize_path d)
          then Inl (if sanitize_path d = [] then 404 else 403)
          else (case open_beneath F root (sanitize_path d) of
                  Inl e \<Rightarrow> Inl e
                | Inr file \<Rightarrow>
                    (case read_regular file of
                       Inl e \<Rightarrow> Inl e
                     | Inr content \<Rightarrow>
                         Inr \<lparr>rs_status = 200,
                              rs_headers = [(''content-type'', guess_mime (sanitize_path d)),
                                            (''content-length'', show_nat (length content))],
                              rs_body = content\<rparr>)))"
proof (cases "static_url_decode uri")
  case (Some d)
  then show ?thesis
    using sanitize_path_confined [of d]
    by (cases "confined (sanitize_path d)") (auto simp: serve_file_def Let_def confined_def)
qed (simp add: serve_file_def)

section \<open>Properties\<close>

text \<open>
  C16. Every file served comes from beneath the root: the open that produced it was given a relative
  path without parent references, backslashes and NUL bytes, under \<^verbatim>\<open>openat2\<close> with the beneath
  restriction or, on kernels without it, through a canonical path that has the root's canonical
  path as a prefix; and it is a regular file whose whole content is the body.
\<close>

theorem serve_file_contained:
  assumes "serve_file F root uri = Inr resp"
  shows "\<exists>rel fd. confined rel
    \<and> (fs_openat2 F root rel = Inr fd
       \<or> fs_openat2 F root rel = Inl ENOSYS
         \<and> (\<exists>c rc. fs_canonicalize F (path_join root rel) = Some c \<and> fs_canonicalize F root = Some rc
              \<and> path_starts_with c rc \<and> fs_open F c = Some fd))
    \<and> ff_is_file fd = Some True \<and> ff_read fd = Some (rs_body resp)
    \<and> rs_status resp = 200 \<and> hm_get (rs_headers resp) ''content-length'' = Some (show_nat (length (rs_body resp)))"
proof -
  from assms obtain d fd where c: "confined (sanitize_path d)"
    and op: "open_beneath F root (sanitize_path d) = Inr fd"
    and r: "read_regular fd = Inr (rs_body resp)" "rs_status resp = 200"
    and h: "hm_get (rs_headers resp) ''content-length'' = Some (show_nat (length (rs_body resp)))"
    by (auto simp: serve_file_result hm_get_def hm_get_all_def
        split: option.splits sum.splits if_splits)
  from r have f: "ff_is_file fd = Some True" "ff_read fd = Some (rs_body resp)"
    by (auto simp: read_regular_def split: option.splits bool.splits)
  from op have "fs_openat2 F root (sanitize_path d) = Inr fd
      \<or> fs_openat2 F root (sanitize_path d) = Inl ENOSYS
        \<and> open_beneath_fallback F root (sanitize_path d) = Inr fd"
    by (auto simp: open_beneath_def split: if_splits sum.splits errno.splits)
  with c f r h show ?thesis
    by (intro exI [of _ "sanitize_path d"] exI [of _ fd])
       (auto simp: open_beneath_fallback_def split: option.splits if_splits)
qed

theorem serve_file_contained_witness:
  "\<exists>rel. confined rel \<and> (\<exists>file. fs_openat2 (e_fs sample_env) ''/srv'' rel = Inr file)"
proof -
  have d: "static_url_decode ''/index.html'' = Some ''/index.html''" by code_simp
  have r: "replace_separators ''/index.html'' = ''/index.html''"
    by (rule replace_separators_ascii; code_simp)
  have s: "sanitize_path ''/index.html'' = ''index.html''"
    unfolding sanitize_path_def r by simp
  have c: "confined ''index.html''" by code_simp
  have "\<exists>resp. serve_file (e_fs sample_env) ''/srv'' ''/index.html'' = Inr resp"
    by (simp add: serve_file_result d s c open_beneath_def sample_env_def read_regular_def)
  then obtain resp where "serve_file (e_fs sample_env) ''/srv'' ''/index.html'' = Inr resp" by blast
  from serve_file_contained [OF this] show ?thesis by (auto simp: sample_env_def split: if_splits)
qed



text \<open>
  The path that is opened is the path that was vetted: on a path without plus signs the file
  server decodes to what the validator decoded, whenever it decodes at all.
\<close>

theorem static_decode_agrees:
  assumes "static_url_decode s = Some d" "CHR ''+'' \<notin> set s"
  shows "url_decode s = Some d"
  using assms decoders_agree [of s d]
  by (auto simp: static_url_decode_def url_decode_def split: option.splits if_splits)

theorem static_decode_agrees_witness:
  "url_decode ''/a%20b'' = Some ''/a b''"
proof -
  have "static_url_decode ''/a%20b'' = Some ''/a b''" by code_simp
  then show ?thesis by (rule static_decode_agrees) simp
qed

end
