(* ===== verification/Host_Policy.thy ===== *)
theory Host_Policy
  imports Flexd_Config Upstream_Filter
begin

text \<open>
  \<^verbatim>\<open>security/host_policy.rs\<close>: the policy on the \<^verbatim>\<open>Host\<close> header. The operations lower the case of both
  sides with the Unicode tables; the reference relation \<open>name_covers\<close> says which hosts a name of
  the configuration covers, and the lemmas show that on ASCII names the code decides it.
\<close>

section \<open>Operations\<close>

definition matches_name :: "ext \<Rightarrow> string \<Rightarrow> string \<Rightarrow> bool" where
  "matches_name X host pattern =
     (let pattern = to_lowercase (x_lower X) pattern in
      if host = pattern then True
      else (case strip_prefix pattern ''*.'' of
              Some rest \<Rightarrow> ends_with host (drop 1 pattern) \<or> host = rest
            | None \<Rightarrow> False))"

definition validate_host :: "ext \<Rightarrow> string option \<Rightarrow> http_block \<Rightarrow> bool" where
  "validate_host X host block =
     (if hb_host_header_policy block = ''any'' then True
      else if hb_host_header_policy block = ''list''
      then (case host of
              None \<Rightarrow> False
            | Some host \<Rightarrow>
                (let host_only = to_lowercase (x_lower X) (fst (split_host_port host)) in
                 (case hb_allowed_hosts block of
                    None \<Rightarrow> False
                  | Some hosts \<Rightarrow> list_ex (\<lambda>h. eq_ignore_ascii_case h host_only) hosts)
                 \<or> list_ex (matches_name X host_only) (hb_server_name block)))
      else (case host of
              None \<Rightarrow> False
            | Some host \<Rightarrow>
                (let host_only = to_lowercase (x_lower X) (fst (split_host_port host)) in
                 list_ex (matches_name X host_only) (hb_server_name block))))"

section \<open>The hosts a configured name covers\<close>

text \<open>
  A host is covered by a name equal to it up to the case of letters, and by \<^verbatim>\<open>*.domain\<close> when it is
  the domain itself or ends in a dot and the domain.
\<close>

definition name_covers :: "string \<Rightarrow> string \<Rightarrow> bool" where
  "name_covers host pattern \<longleftrightarrow>
     eq_ignore_ascii_case host pattern
     \<or> (\<exists>rest. pattern = ''*.'' @ rest
          \<and> (eq_ignore_ascii_case host rest
             \<or> (\<exists>label domain. host = label @ ''.'' @ domain
                  \<and> eq_ignore_ascii_case domain rest)))"

lemma ascii_lower_eq_dot: "ascii_lower c = CHR ''.'' \<longleftrightarrow> c = CHR ''.''"
proof
  assume h: "ascii_lower c = CHR ''.''"
  show "c = CHR ''.''"
  proof (cases "65 \<le> code c \<and> code c \<le> 90")
    case True
    with h have "code (byte (code c + 32)) = (code CHR ''.'' :: nat)"
      by (simp add: ascii_lower_def)
    with True show ?thesis by (simp add: take_bit_eq_mod)
  qed (use h in \<open>simp add: ascii_lower_def split: if_splits\<close>)
qed (simp add: ascii_lower_def)

lemma ascii_lower_eq_star: "ascii_lower c = CHR ''*'' \<longleftrightarrow> c = CHR ''*''"
proof
  assume h: "ascii_lower c = CHR ''*''"
  show "c = CHR ''*''"
  proof (cases "65 \<le> code c \<and> code c \<le> 90")
    case True
    with h have "code (byte (code c + 32)) = (code CHR ''*'' :: nat)"
      by (simp add: ascii_lower_def)
    with True show ?thesis by (simp add: take_bit_eq_mod)
  qed (use h in \<open>simp add: ascii_lower_def split: if_splits\<close>)
qed (simp add: ascii_lower_def)

lemma map_lower_star_dot:
  "map ascii_lower p = ''*.'' @ r \<longleftrightarrow> (\<exists>q. p = ''*.'' @ q \<and> map ascii_lower q = r)"
  by (auto simp: map_eq_Cons_conv ascii_lower_eq_dot ascii_lower_eq_star)

lemma suffix_map_lower:
  "suffix (CHR ''.'' # map ascii_lower r) (map ascii_lower h) \<longleftrightarrow>
     (\<exists>l d. h = l @ ''.'' @ d \<and> map ascii_lower d = map ascii_lower r)"
proof
  assume "suffix (CHR ''.'' # map ascii_lower r) (map ascii_lower h)"
  then obtain us where "map ascii_lower h = us @ CHR ''.'' # map ascii_lower r"
    by (auto simp: suffix_def)
  then obtain l c d where "h = l @ c # d" "ascii_lower c = CHR ''.''"
    "map ascii_lower d = map ascii_lower r"
    by (auto simp: map_eq_append_conv map_eq_Cons_conv)
  then show "\<exists>l d. h = l @ ''.'' @ d \<and> map ascii_lower d = map ascii_lower r"
    by (intro exI [of _ l] exI [of _ d]) (simp add: ascii_lower_eq_dot)
next
  assume "\<exists>l d. h = l @ ''.'' @ d \<and> map ascii_lower d = map ascii_lower r"
  then obtain l d where "h = l @ ''.'' @ d" "map ascii_lower d = map ascii_lower r" by blast
  then show "suffix (CHR ''.'' # map ascii_lower r) (map ascii_lower h)"
    by (simp add: suffix_def ascii_lower_def [of "CHR ''.''"])
qed

lemma to_lowercase_ascii: "list_all is_ascii s \<Longrightarrow> to_lowercase T s = map ascii_lower s"
  by (simp add: to_lowercase_def recase_ascii)

lemma matches_name_covers:
  assumes "list_all is_ascii host" "list_all is_ascii pattern"
  shows "matches_name X (to_lowercase (x_lower X) host) pattern \<longleftrightarrow> name_covers host pattern"
proof (cases "\<exists>rest. pattern = ''*.'' @ rest")
  case True
  then obtain rest where p: "pattern = ''*.'' @ rest" by blast
  then have "strip_prefix (map ascii_lower pattern) ''*.'' = Some (map ascii_lower rest)"
    by (simp add: std_str ascii_lower_def)
  then show ?thesis
    using assms p suffix_map_lower [of rest host]
    by (auto simp: matches_name_def Let_def to_lowercase_ascii name_covers_def
        eq_ignore_ascii_case_def ascii_lower_def [of "CHR ''.''"])
next
  case False
  then have "strip_prefix (map ascii_lower pattern) ''*.'' = None"
    using map_lower_star_dot [of pattern] by (auto simp: strip_prefix_def prefix_def)
  with False assms show ?thesis
    by (simp add: matches_name_def Let_def to_lowercase_ascii name_covers_def
        eq_ignore_ascii_case_def)
qed

lemma list_all_take: "list_all P s \<Longrightarrow> list_all P (take n s)"
  by (auto simp: list_all_iff dest: in_set_takeD)

lemma ascii_host_part: "list_all is_ascii h \<Longrightarrow> list_all is_ascii (fst (split_host_port h))"
proof -
  assume a: "list_all is_ascii h"
  have 1: "strip_prefix h ''['' = Some r \<Longrightarrow> list_all is_ascii r" for r
    using a by (auto simp: std_str)
  have 2: "rsplit_once c h = Some (x, y) \<Longrightarrow> list_all is_ascii x" for c x y
    using a by (auto simp: rsplit_once_def list_all_take split: option.splits)
  show ?thesis
    using a 1 2 by (auto simp: split_host_port_def list_all_take split: option.splits)
qed

section \<open>Properties\<close>

text \<open>
  For ASCII names, the strict policy admits exactly the requests whose \<^verbatim>\<open>Host\<close>, its port
  aside, is covered by a configured server name.
\<close>

theorem strict_host_iff:
  assumes "hb_host_header_policy hb = ''strict''"
    and "list_all is_ascii host" "list_all (list_all is_ascii) (hb_server_name hb)"
  shows "validate_host X (Some host) hb
    \<longleftrightarrow> list_ex (name_covers (fst (split_host_port host))) (hb_server_name hb)"
proof -
  have "matches_name X (to_lowercase (x_lower X) (fst (split_host_port host))) p
      \<longleftrightarrow> name_covers (fst (split_host_port host)) p" if "p \<in> set (hb_server_name hb)" for p
    using that assms(3)
    by (intro matches_name_covers ascii_host_part assms(2)) (auto simp: list_all_iff)
  then show ?thesis
    using assms(1) by (auto simp: validate_host_def Let_def list_ex_iff)
qed

theorem strict_host_iff_witness:
  "validate_host sample_ext (Some ''API.example.com:8443'')
     (default_http_block [] \<lparr>hb_server_name := [''*.example.com'']\<rparr>)"
proof -
  let ?hb = "default_http_block [] \<lparr>hb_server_name := [''*.example.com'']\<rparr>"
  have s: "fst (split_host_port ''API.example.com:8443'') = ''API.example.com''"
    by (simp add: split_host_port_def strip_prefix_def rsplit_once_def parse_u16_def
        uint_from_str_radix_def to_digit_def digit_val_def)
  have p: "hb_host_header_policy ?hb = ''strict''" "hb_server_name ?hb = [''*.example.com'']"
    by (simp_all add: default_http_block_def)
  have a: "list_all is_ascii ''API.example.com:8443''"
    "list_all (list_all is_ascii) [''*.example.com'']" by code_simp+
  have "name_covers ''API.example.com'' ''*.example.com''"
    unfolding name_covers_def eq_ignore_ascii_case_def
    by (intro disjI2 exI [of _ "''example.com''"] conjI exI [of _ "''API''"]) simp_all
  then show ?thesis
    using strict_host_iff [OF p(1) a(1), of sample_ext] by (simp only: p a s) simp
qed

text \<open>
  The policies are ordered: what strict admits list admits, what list admits any admits, and
  only any admits a request without a \<^verbatim>\<open>Host\<close>.
\<close>

theorem host_policies_ordered:
  "(validate_host X host (hb \<lparr>hb_host_header_policy := ''strict''\<rparr>)
      \<longrightarrow> validate_host X host (hb \<lparr>hb_host_header_policy := ''list''\<rparr>))
   \<and> validate_host X host (hb \<lparr>hb_host_header_policy := ''any''\<rparr>)
   \<and> \<not> validate_host X None (hb \<lparr>hb_host_header_policy := ''strict''\<rparr>)
   \<and> \<not> validate_host X None (hb \<lparr>hb_host_header_policy := ''list''\<rparr>)"
  by (auto simp: validate_host_def Let_def split: option.splits)

theorem host_policies_ordered_witness:
  "validate_host sample_ext (Some ''a.b'')
     (default_http_block [] \<lparr>hb_server_name := [''a.b''], hb_host_header_policy := ''list''\<rparr>)"
proof -
  have "validate_host sample_ext (Some ''a.b'')
     (default_http_block [] \<lparr>hb_server_name := [''a.b''], hb_host_header_policy := ''strict''\<rparr>)"
    by code_simp
  then show ?thesis
    using host_policies_ordered [of sample_ext "Some ''a.b''"
        "default_http_block [] \<lparr>hb_server_name := [''a.b'']\<rparr>"] by simp
qed

end
