(* ===== verification/Flexd_Handler.thy ===== *)
theory Flexd_Handler
  imports Flexd_Logging Flexd_Geoip Flexd_Acme Flexd_Proxy Flexd_Balance Ab_Split Flexd_Rewrite
    Static_File Host_Policy
begin

text \<open>
  \<^verbatim>\<open>handler.rs\<close>: the request pipeline of one server block. The service's shared state (balancer,
  sticky sessions, DNS cache, access log) is passed along; a panic of the URI validator is an
  outcome of the pipeline. The lemmas show what a request must pass before anything is looked up
  or sent for it, which location is chosen, and what the proxying and tunnelling paths may reach.
\<close>

section \<open>State\<close>

record compiled_location =
  cl_location :: location
  cl_regex :: "regex option"

record 'c handler_service =
  hs_http_block :: http_block
  hs_access_logger :: access_logger
  hs_acme_store :: "'c challenge_store option"
  hs_proxy :: proxy_client
  hs_balancer :: balancer
  hs_geoip :: "geoip_service option"
  hs_rewriter :: rewrite_engine
  hs_ab_router :: "ab_router option"
  hs_locations :: "compiled_location list"
  hs_scheme :: string
  hs_hsts :: "string option"
  hs_max_body :: usize

definition compile_location :: "ext \<Rightarrow> location \<Rightarrow> compiled_location" where
  "compile_location X l =
     \<lparr>cl_location = l,
      cl_regex = (if loc_match_type l = ''regex'' then regex_new X (loc_pattern l) else None)\<rparr>"

definition handler_new ::
  "ext \<Rightarrow> os \<Rightarrow> (string \<Rightarrow> mmdb option) \<Rightarrow> http_block \<Rightarrow> access_logger \<Rightarrow> 'c challenge_store option
   \<Rightarrow> bool \<Rightarrow> timeout_settings \<Rightarrow> 'c handler_service" where
  "handler_new X os open_db hb logger store is_tls timeouts =
     \<lparr>hs_http_block = hb, hs_access_logger = logger, hs_acme_store = store,
      hs_proxy = proxy_client_new
        (parse_networks X (hb_upstream_allowed_networks hb))
        (from_secs (case hb_dns_cache_ttl_seconds hb of None \<Rightarrow> 30 | Some s \<Rightarrow> unat s))
        (from_secs (unat (to_proxy_read timeouts)))
        (case hb_max_upstream_response_size hb of None \<Rightarrow> 100 * 1024 * 1024 | Some n \<Rightarrow> n)
        (parse_networks X (hb_trusted_proxies hb))
        (hb_normalize_headers_before_proxy hb),
      hs_balancer = balancer_new hb,
      hs_geoip = (case hb_geoip_db hb of None \<Rightarrow> None | Some path \<Rightarrow> geoip_new os open_db path),
      hs_rewriter = rewrite_engine_new X (hb_rewrites hb),
      hs_ab_router = (if hb_ab_splits hb \<noteq> [] then Some (ab_router_new (hb_ab_splits hb)) else None),
      hs_locations = map (compile_location X) (hb_locations hb),
      hs_scheme = (if is_tls then ''https'' else ''http''),
      hs_hsts =
        (if is_tls
         then (case hb_hsts_max_age hb of
                 None \<Rightarrow> None
               | Some secs \<Rightarrow>
                   hv_from_str X (''max-age='' @ show_nat (unat secs) @ ''; includeSubDomains''))
         else None),
      hs_max_body = (case hb_max_body_size hb of None \<Rightarrow> 10 * 1024 * 1024 | Some n \<Rightarrow> n)\<rparr>"

section \<open>Responses\<close>

definition finalize :: "ext \<Rightarrow> 'c handler_service \<Rightarrow> response \<Rightarrow> response" where
  "finalize X h resp =
     (case hs_hsts h of
        Some hsts \<Rightarrow>
          if hm_contains_key (rs_headers resp) ''strict-transport-security'' then resp
          else resp \<lparr>rs_headers := x_hm_insert X (rs_headers resp) ''strict-transport-security'' hsts\<rparr>
      | None \<Rightarrow> resp)"

definition simple_response :: "ext \<Rightarrow> 'c handler_service \<Rightarrow> status \<Rightarrow> string \<Rightarrow> response" where
  "simple_response X h st body =
     (let resp = (response_new body) \<lparr>rs_status := st\<rparr>;
          resp = (if body \<noteq> []
                  then resp \<lparr>rs_headers :=
                         x_hm_insert X (rs_headers resp) ''content-type'' ''text/plain; charset=utf-8''\<rparr>
                  else resp)
      in finalize X h resp)"

definition error_response :: "ext \<Rightarrow> status \<Rightarrow> response" where
  "error_response X st =
     (let phrase = (case x_reason X st of None \<Rightarrow> ''Error'' | Some p \<Rightarrow> p);
          body = show_nat st @ '' '' @ phrase @ [byte 10];
          resp = (response_new body) \<lparr>rs_status := st\<rparr>
      in resp \<lparr>rs_headers :=
           x_hm_insert X (rs_headers resp) ''content-type'' ''text/plain; charset=utf-8''\<rparr>)"

definition redirect_response :: "ext \<Rightarrow> string \<Rightarrow> u16 \<Rightarrow> status + response" where
  "redirect_response X target st =
     (let status_code = (case status_from_u16 X st of None \<Rightarrow> 301 | Some s \<Rightarrow> s) in
      case hv_from_str X target of
        None \<Rightarrow> Inl 500
      | Some loc \<Rightarrow>
          (let resp = (response_new []) \<lparr>rs_status := status_code\<rparr>
           in Inr (resp \<lparr>rs_headers := x_hm_insert X (rs_headers resp) ''location'' loc\<rparr>)))"

definition acme_challenge_response :: "ext \<Rightarrow> 'c handler_service \<Rightarrow> string \<Rightarrow> response option" where
  "acme_challenge_response X h path =
     (case hs_acme_store h of
        None \<Rightarrow> None
      | Some store \<Rightarrow>
          (case strip_prefix path ''/.well-known/acme-challenge/'' of
             None \<Rightarrow> None
           | Some token \<Rightarrow>
               if token = [] \<or> CHR ''/'' \<in> set token then Some (error_response X 404)
               else (case get_http01 store token of
                       Some key_auth \<Rightarrow>
                         (let resp = response_new key_auth
                          in Some (resp \<lparr>rs_headers := x_hm_insert X (rs_headers resp)
                               ''content-type'' ''application/octet-stream''\<rparr>))
                     | None \<Rightarrow> Some (error_response X 404))))"

definition log_request ::
  "ext \<Rightarrow> env \<Rightarrow> 'c handler_service \<Rightarrow> socket_addr \<Rightarrow> string \<Rightarrow> string \<Rightarrow> response \<Rightarrow> string
   \<Rightarrow> 'c handler_service" where
  "log_request X E h remote method target resp user_agent =
     h \<lparr>hs_access_logger := logger_log (hs_access_logger h) (e_timestamp E) (show_ip X (fst remote))
          method target (rs_status resp) (length (rs_body resp)) user_agent\<rparr>"

section \<open>Checks\<close>

text \<open>A run of checks of which the first that fails gives the status.\<close>

fun first_failure :: "(bool \<times> status) list \<Rightarrow> status option" where
  "first_failure [] = None"
| "first_failure ((bad, st) # cs) = (if bad then Some st else first_failure cs)"

definition content_length_over :: "ext \<Rightarrow> header_map \<Rightarrow> usize \<Rightarrow> bool" where
  "content_length_over X hm max_body =
     (case hm_get hm ''content-length'' of
        None \<Rightarrow> False
      | Some cl \<Rightarrow>
          (case hv_to_str X cl of
             None \<Rightarrow> False
           | Some s \<Rightarrow> (case parse_usize s of None \<Rightarrow> False | Some n \<Rightarrow> max_body < n)))"

definition header_checks :: "ext \<Rightarrow> 'c handler_service \<Rightarrow> 'b request \<Rightarrow> (bool \<times> status) list" where
  "header_checks X h req =
     (let hb = hs_http_block h; hm = rq_headers req in
      [(unat (case hb_max_header_count hb of None \<Rightarrow> 100 | Some n \<Rightarrow> n) < length hm, 431),
       (unat (case hb_max_header_size hb of None \<Rightarrow> 8192 | Some n \<Rightarrow> n)
          < sum_list (map (\<lambda>(n, v). length n + length v + 2) hm), 431),
       (content_length_over X hm (hs_max_body h), 413),
       (rq_version req = HTTP_10 \<and> hm_get hm ''transfer-encoding'' \<noteq> None, 400),
       (hb_reject_ambiguous_framing hb \<and> hm_get hm ''content-length'' \<noteq> None
          \<and> hm_get hm ''transfer-encoding'' \<noteq> None, 400),
       (hb_reject_ambiguous_framing hb \<and> 1 < length (hm_get_all hm ''content-length''), 400),
       (hb_reject_headers_with_control_chars hb
          \<and> list_ex (\<lambda>(_, v). byte 13 \<in> set v \<or> byte 10 \<in> set v) hm, 400)])"

definition security_checks :: "ext \<Rightarrow> 'c handler_service \<Rightarrow> 'b request \<Rightarrow> (status, unit) outcome" where
  "security_checks X h req =
     (case first_failure (header_checks X h req) of
        Some st \<Rightarrow> Err st
      | None \<Rightarrow>
          (case validate_uri (x_lower X) (uri_path (rq_uri req)) of
             Ok _ \<Rightarrow> Ok ()
           | Err (st, _) \<Rightarrow> Err st
           | Panic \<Rightarrow> Panic))"

definition maybe_decompress :: "ext \<Rightarrow> 'c handler_service \<Rightarrow> string request \<Rightarrow> status + string request" where
  "maybe_decompress X h req =
     (let hb = hs_http_block h;
          is_gzip = (case hm_get (rq_headers req) ''content-encoding'' of
                       None \<Rightarrow> False
                     | Some v \<Rightarrow>
                         (case hv_to_str X v of
                            None \<Rightarrow> False
                          | Some s \<Rightarrow> str_contains (to_lowercase (x_lower X) s) ''gzip'')) in
      if \<not> is_gzip then Inr req
      else let max_ratio = (case hb_max_decompression_ratio hb of None \<Rightarrow> 10 | Some n \<Rightarrow> n);
               max_size = (case hb_max_decompression_size hb of None \<Rightarrow> 10 * 1024 * 1024 | Some n \<Rightarrow> n) in
        if rq_body req = [] then Inr req
        else (case x_gunzip X (rq_body req) (unat (max_size + 1)) of
                None \<Rightarrow> Inr req
              | Some decompressed \<Rightarrow>
                  if unat max_size < length decompressed then Inl 413
                  else if unat max_ratio < length decompressed div max (length (rq_body req)) 1
                  then Inl 413
                  else Inr (req \<lparr>rq_headers := x_hm_remove X (rq_headers req) ''content-encoding'',
                                 rq_body := decompressed\<rparr>)))"

definition set_path :: "ext \<Rightarrow> string request \<Rightarrow> string \<Rightarrow> status + string request" where
  "set_path X req new_path =
     (let pq = (case uri_query (rq_uri req) of
                  Some q \<Rightarrow> new_path @ ''?'' @ q
                | None \<Rightarrow> new_path) in
      case x_pq_parse X pq of
        None \<Rightarrow> Inl 400
      | Some parsed \<Rightarrow>
          (let uri = (rq_uri req) \<lparr>u_pq := Some parsed\<rparr> in
           if x_uri_parts_ok X uri then Inr (req \<lparr>rq_uri := uri\<rparr>) else Inl 500))"

definition GEO_HEADERS :: "string list" where
  "GEO_HEADERS = [''x-geoip-country'', ''x-geoip-city'', ''x-geoip-continent'']"

definition geo_put :: "ext \<Rightarrow> string \<Rightarrow> string option \<Rightarrow> header_map \<Rightarrow> header_map" where
  "geo_put X name value hm =
     (case value of
        None \<Rightarrow> hm
      | Some v \<Rightarrow> (case hv_from_str X v of Some hv \<Rightarrow> x_hm_insert X hm name hv | None \<Rightarrow> hm))"

definition stamp_geoip :: "ext \<Rightarrow> 'c handler_service \<Rightarrow> header_map \<Rightarrow> ip_addr \<Rightarrow> header_map" where
  "stamp_geoip X h headers ip =
     (let headers = fold (\<lambda>n hm. x_hm_remove X hm n) GEO_HEADERS headers in
      case hs_geoip h of
        None \<Rightarrow> headers
      | Some geoip \<Rightarrow>
          (case geoip_lookup geoip ip of
             None \<Rightarrow> headers
           | Some info \<Rightarrow>
               geo_put X ''x-geoip-continent'' (gi_continent info)
                 (geo_put X ''x-geoip-city'' (gi_city info)
                   (geo_put X ''x-geoip-country'' (gi_iso_code info) headers))))"

definition check_method_allowed :: "string \<Rightarrow> bool" where
  "check_method_allowed method \<longleftrightarrow>
     method \<in> {''GET'', ''HEAD'', ''POST'', ''PUT'', ''DELETE'', ''PATCH'', ''OPTIONS''}"

section \<open>Routing\<close>

fun location_loop ::
  "ext \<Rightarrow> string \<Rightarrow> compiled_location option \<Rightarrow> nat \<Rightarrow> compiled_location list
   \<Rightarrow> compiled_location option" where
  "location_loop X path best_match best_prefix_len [] = best_match"
| "location_loop X path best_match best_prefix_len (c # cs) =
     (let l = cl_location c in
      if loc_match_type l = ''exact''
      then (if loc_pattern l = path then Some c
            else location_loop X path best_match best_prefix_len cs)
      else if loc_match_type l = ''prefix''
      then (if starts_with path (loc_pattern l) \<and> best_prefix_len < length (loc_pattern l)
            then location_loop X path (Some c) (length (loc_pattern l)) cs
            else location_loop X path best_match best_prefix_len cs)
      else if loc_match_type l = ''regex''
      then (case cl_regex c of
              Some re \<Rightarrow>
                if re_is_match X re path then Some c
                else location_loop X path best_match best_prefix_len cs
            | None \<Rightarrow> location_loop X path best_match best_prefix_len cs)
      else location_loop X path best_match best_prefix_len cs)"

definition find_location :: "ext \<Rightarrow> 'c handler_service \<Rightarrow> string \<Rightarrow> compiled_location option" where
  "find_location X h path = location_loop X path None 0 (hs_locations h)"

section \<open>Proxying\<close>

definition select_upstream ::
  "ext \<Rightarrow> 'c handler_service \<Rightarrow> handler_type \<Rightarrow> ip_addr \<Rightarrow> 'c handler_service \<times> (status + upstream_ref)" where
  "select_upstream X h handler client =
     (case h_ab_split handler of
        Some split_name \<Rightarrow>
          (case hs_ab_router h of
             None \<Rightarrow> (h, Inl 502)
           | Some router \<Rightarrow>
               (case resolve X router split_name (show_ip X client) of
                  (router', answer) \<Rightarrow>
                    (h \<lparr>hs_ab_router := Some router'\<rparr>,
                     (case answer of
                        None \<Rightarrow> Inl 502
                      | Some group_name \<Rightarrow>
                          (case find (\<lambda>s. sp_name s = split_name) (hb_ab_splits (hs_http_block h)) of
                             None \<Rightarrow> Inl 502
                           | Some split \<Rightarrow>
                               (case find (\<lambda>g. g_name g = group_name) (sp_groups split) of
                                  None \<Rightarrow> Inl 502
                                | Some grp \<Rightarrow>
                                    (case resolve_upstream (hs_http_block h) (g_upstream grp) of
                                       None \<Rightarrow> Inl 502
                                     | Some u \<Rightarrow> Inr u)))))))
      | None \<Rightarrow>
          (h, (case h_upstream handler of
                 Some u \<Rightarrow> Inr u
               | None \<Rightarrow>
                   (case list_first (hb_upstreams (hs_http_block h)) of
                      Some u \<Rightarrow> Inr u
                    | None \<Rightarrow> Inl 502))))"

fun proxy_loop ::
  "ext \<Rightarrow> env \<Rightarrow> 'c handler_service \<Rightarrow> upstream_ref \<Rightarrow> string request \<Rightarrow> ip_addr \<Rightarrow> balancer \<Rightarrow> proxy_client
   \<Rightarrow> status \<Rightarrow> nat list \<Rightarrow> (balancer \<times> proxy_client) \<times> (status + response)" where
  "proxy_loop X E h u req client b pc last_status [] = ((b, pc), Inl last_status)"
| "proxy_loop X E h u req client b pc last_status (idx # cands) =
     (if length (up_servers u) \<le> idx
      then proxy_loop X E h u req client b pc last_status cands
      else let server = up_servers u ! idx in
        if is_upstream_allowed X (us_address server)
             (hb_upstream_allowed_networks (hs_http_block h)) \<noteq> Inr ()
        then proxy_loop X E h u req client b pc 403 cands
        else (case track b u idx of (b, guard) \<Rightarrow>
          (case forward X E pc idx (us_address server) req client (hs_scheme h) of
             (pc, Inr resp) \<Rightarrow> ((guard_drop b guard, pc), Inr resp)
           | (pc, Inl PConnect) \<Rightarrow>
               proxy_loop X E h u req client (guard_drop b guard) pc 502 cands
           | (pc, Inl (PStatus st)) \<Rightarrow> ((guard_drop b guard, pc), Inl st))))"

definition dispatch_proxy ::
  "ext \<Rightarrow> env \<Rightarrow> 'c handler_service \<Rightarrow> handler_type \<Rightarrow> string request \<Rightarrow> socket_addr
   \<Rightarrow> 'c handler_service \<times> (status + response)" where
  "dispatch_proxy X E h handler req remote =
     (case select_upstream X h handler (fst remote) of
        (h, Inl st) \<Rightarrow> (h, Inl st)
      | (h, Inr u) \<Rightarrow>
          (case candidates X (hs_balancer h) u (fst remote) of
             (b, cands) \<Rightarrow>
               (case proxy_loop X E h u req (fst remote) b (hs_proxy h) 502 cands of
                  ((b, pc), r) \<Rightarrow> (h \<lparr>hs_balancer := b, hs_proxy := pc\<rparr>, r))))"

definition dispatch ::
  "ext \<Rightarrow> env \<Rightarrow> 'c handler_service \<Rightarrow> compiled_location \<Rightarrow> string \<Rightarrow> string request \<Rightarrow> socket_addr
   \<Rightarrow> 'c handler_service \<times> (status + response)" where
  "dispatch X E h compiled path req remote =
     (let handler = loc_handler (cl_location compiled) in
      if h_type handler = ''static''
      then (h, (case (case h_root handler of Some r \<Rightarrow> Some r | None \<Rightarrow> hb_root (hs_http_block h)) of
                  None \<Rightarrow> Inl 500
                | Some root \<Rightarrow> serve_file (e_fs E) root path))
      else if is_proxy_type (h_type handler) then dispatch_proxy X E h handler req remote
      else if h_type handler = ''return''
      then (let st = (case h_status handler of None \<Rightarrow> 200 | Some s \<Rightarrow> s);
                body = (case h_target handler of None \<Rightarrow> [] | Some t \<Rightarrow> t);
                status_code = (case status_from_u16 X st of None \<Rightarrow> 200 | Some s \<Rightarrow> s);
                resp = (response_new body) \<lparr>rs_status := status_code\<rparr>
            in (h, Inr (resp \<lparr>rs_headers :=
                  x_hm_insert X (rs_headers resp) ''content-type'' ''text/plain; charset=utf-8''\<rparr>)))
      else if h_type handler = ''redirect''
      then (h, (case h_target handler of
                  None \<Rightarrow> Inl 500
                | Some target \<Rightarrow>
                    redirect_response X target
                      (case h_status handler of None \<Rightarrow> 301 | Some s \<Rightarrow> s)))
      else if h_type handler = ''deny'' then (h, Inl 403)
      else (h, Inl 501))"

section \<open>The pipeline\<close>

text \<open>
  What a request comes to once its path is final: GeoIP headers, routing and the handler of the
  location, or the block's own root.
\<close>

definition route_request ::
  "ext \<Rightarrow> env \<Rightarrow> 'c handler_service \<Rightarrow> string \<Rightarrow> string request \<Rightarrow> socket_addr
   \<Rightarrow> 'c handler_service \<times> (status, response) outcome" where
  "route_request X E h path req remote =
     (let req = req \<lparr>rq_headers := stamp_geoip X h (rq_headers req) (fst remote)\<rparr> in
      case (case find_location X h path of
              Some loc \<Rightarrow> dispatch X E h loc path req remote
            | None \<Rightarrow>
                (h, (case hb_root (hs_http_block h) of
                       Some root \<Rightarrow> serve_file (e_fs E) root path
                     | None \<Rightarrow> Inl 404))) of
        (h, Inl st) \<Rightarrow> (h, Err st)
      | (h, Inr resp) \<Rightarrow> (h, Ok resp))"

text \<open>The rewrite stage: a redirect, the rewritten request, or the request as it is.\<close>

definition apply_rewrites ::
  "ext \<Rightarrow> 'c handler_service \<Rightarrow> string request \<Rightarrow> (status, response + string \<times> string request) outcome" where
  "apply_rewrites X h req =
     (let path = uri_path (rq_uri req) in
      case rewrite_apply X (hs_rewriter h) path of
        Some (Redirect target st) \<Rightarrow>
          (case redirect_response X target st of Inl e \<Rightarrow> Err e | Inr r \<Rightarrow> Ok (Inl r))
      | Some (Internal new_path) \<Rightarrow>
          (case validate_uri (x_lower X) new_path of
             Panic \<Rightarrow> Panic
           | Err _ \<Rightarrow> Err 400
           | Ok _ \<Rightarrow>
               (case set_path X req new_path of
                  Inl e \<Rightarrow> Err e
                | Inr req \<Rightarrow> Ok (Inr (new_path, req))))
      | None \<Rightarrow> Ok (Inr (path, req)))"

definition process ::
  "ext \<Rightarrow> env \<Rightarrow> 'c handler_service \<Rightarrow> string request \<Rightarrow> socket_addr
   \<Rightarrow> 'c handler_service \<times> (status, response) outcome" where
  "process X E h req remote =
     (case security_checks X h req of
        Err st \<Rightarrow> (h, Err st)
      | Panic \<Rightarrow> (h, Panic)
      | Ok _ \<Rightarrow>
          if unat (hs_max_body h) < length (rq_body req) then (h, Err 413)
          else (case maybe_decompress X h req of
                  Inl st \<Rightarrow> (h, Err st)
                | Inr req' \<Rightarrow>
                    if \<not> validate_host X
                          (case hm_get (rq_headers req') ''host'' of
                             None \<Rightarrow> None
                           | Some v \<Rightarrow> hv_to_str X v)
                          (hs_http_block h)
                    then (h, Err 400)
                    else if \<not> check_method_allowed (rq_method req) then (h, Err 405)
                    else (case apply_rewrites X h req' of
                            Err st \<Rightarrow> (h, Err st)
                          | Panic \<Rightarrow> (h, Panic)
                          | Ok (Inl resp) \<Rightarrow> (h, Ok resp)
                          | Ok (Inr (path, req')) \<Rightarrow> route_request X E h path req' remote)))"

text \<open>The entry points answer with a response, or with \<open>None\<close> when the task panicked.\<close>

definition handle_collected ::
  "ext \<Rightarrow> env \<Rightarrow> 'c handler_service \<Rightarrow> string request \<Rightarrow> socket_addr
   \<Rightarrow> 'c handler_service \<times> response option" where
  "handle_collected X E h req remote =
     (case process X E h req remote of
        (h, Ok resp) \<Rightarrow> (h, Some (finalize X h resp))
      | (h, Err st) \<Rightarrow> (h, Some (finalize X h (error_response X st)))
      | (h, Panic) \<Rightarrow> (h, None))"

definition user_agent_of :: "ext \<Rightarrow> header_map \<Rightarrow> string" where
  "user_agent_of X hm =
     (case hm_get hm ''user-agent'' of
        None \<Rightarrow> ''-''
      | Some v \<Rightarrow> (case hv_to_str X v of None \<Rightarrow> ''-'' | Some s \<Rightarrow> s))"

text \<open>Log the response, if there is one, and answer it.\<close>

definition answer ::
  "ext \<Rightarrow> env \<Rightarrow> socket_addr \<Rightarrow> string \<Rightarrow> string \<Rightarrow> string \<Rightarrow> 'c handler_service \<times> response option
   \<Rightarrow> 'c handler_service \<times> response option" where
  "answer X E remote method target user_agent hr =
     (case hr of
        (h, None) \<Rightarrow> (h, None)
      | (h, Some resp) \<Rightarrow> (log_request X E h remote method target resp user_agent, Some resp))"

section \<open>CONNECT\<close>

definition connect_target_permitted :: "'c handler_service \<Rightarrow> string \<Rightarrow> u16 \<Rightarrow> string \<Rightarrow> bool" where
  "connect_target_permitted h host port full_authority =
     (case hb_connect_allowed_targets (hs_http_block h) of
        Some targets \<Rightarrow>
          list_ex (\<lambda>t. case split_host_port t of (t_host, t_port) \<Rightarrow>
                     eq_ignore_ascii_case t_host host
                     \<and> (case t_port of None \<Rightarrow> True | Some p \<Rightarrow> p = port)) targets
      | None \<Rightarrow>
          (case hb_connect_upstream (hs_http_block h) of
             Some up \<Rightarrow>
               list_ex (\<lambda>s. if eq_ignore_ascii_case (us_address s) full_authority then True
                            else (case split_host_port (us_address s) of (s_host, s_port) \<Rightarrow>
                                    eq_ignore_ascii_case s_host host \<and> s_port = Some port))
                 (up_servers up)
           | None \<Rightarrow> False))"

text \<open>The addresses to try for a target: a literal judged on its own, or a vetted resolution.\<close>

definition connect_addresses ::
  "ext \<Rightarrow> env \<Rightarrow> 'c handler_service \<Rightarrow> string \<Rightarrow> u16 \<Rightarrow> 'c handler_service \<times> socket_addr list option" where
  "connect_addresses X E h host port =
     (case parse_ip_addr host of
        Some ip \<Rightarrow>
          (h, if \<not> ip_allowed X ip (parse_networks X (hb_upstream_allowed_networks (hs_http_block h)))
              then None else Some [(ip, port)])
      | None \<Rightarrow>
          (case resolve_checked X (pc_resolver (hs_proxy h)) host (e_now E) (e_dns E host) (e_later E) of
             (r, result) \<Rightarrow>
               (h \<lparr>hs_proxy := (hs_proxy h) \<lparr>pc_resolver := r\<rparr>\<rparr>,
                (case result of
                   Inl _ \<Rightarrow> None
                 | Inr addrs \<Rightarrow> Some (map (\<lambda>sa. (fst sa, port)) addrs)))))"

text \<open>The response, and the address the tunnel was opened to.\<close>

definition handle_connect ::
  "ext \<Rightarrow> env \<Rightarrow> 'c handler_service \<Rightarrow> 'b request
   \<Rightarrow> 'c handler_service \<times> response \<times> socket_addr option" where
  "handle_connect X E h req =
     (if \<not> hb_allow_connect (hs_http_block h)
      then (h, simple_response X h 405 (''405 Method Not Allowed'' @ [byte 10]), None)
      else (case u_authority (rq_uri req) of
              None \<Rightarrow>
                (h, simple_response X h 400
                      (''CONNECT requires an authority-form target'' @ [byte 10]), None)
            | Some authority \<Rightarrow>
                (case split_host_port authority of
                   (host, None) \<Rightarrow>
                     (h, simple_response X h 400
                           (''CONNECT target must include an explicit port'' @ [byte 10]), None)
                 | (host, Some port) \<Rightarrow>
                     if \<not> connect_target_permitted h host port authority
                     then (h, simple_response X h 403 (''CONNECT target not permitted'' @ [byte 10]), None)
                     else (case connect_addresses X E h host port of
                             (h, None) \<Rightarrow>
                               (h, simple_response X h 403 (''CONNECT target not permitted'' @ [byte 10]),
                                None)
                           | (h, Some addrs) \<Rightarrow>
                               (case find (e_tcp E) addrs of
                                  None \<Rightarrow>
                                    (h, simple_response X h 502 (''502 Bad Gateway'' @ [byte 10]), None)
                                | Some addr \<Rightarrow> (h, simple_response X h 200 [], Some addr))))))"

section \<open>Entry points\<close>

text \<open>HTTP/1 and HTTP/2: the body is read after the header checks, under the cap.\<close>

definition handle ::
  "ext \<Rightarrow> env \<Rightarrow> 'c handler_service \<Rightarrow> incoming request \<Rightarrow> socket_addr
   \<Rightarrow> 'c handler_service \<times> response option" where
  "handle X E h req remote =
     (let method = rq_method req; path = uri_path (rq_uri req);
          user_agent = user_agent_of X (rq_headers req) in
      case acme_challenge_response X h path of
        Some resp \<Rightarrow> answer X E remote method path user_agent (h, Some resp)
      | None \<Rightarrow>
          if method = ''CONNECT''
          then (case handle_connect X E h req of
                  (h, resp, _) \<Rightarrow>
                    answer X E remote method (x_uri_show X (rq_uri req)) user_agent (h, Some resp))
          else (case security_checks X h req of
                  Panic \<Rightarrow> (h, None)
                | Err st \<Rightarrow>
                    answer X E remote method path user_agent
                      (h, Some (finalize X h (error_response X st)))
                | Ok _ \<Rightarrow>
                    (case rq_body req (unat (hs_max_body h)) of
                       Inl e \<Rightarrow>
                         answer X E remote method path user_agent
                           (h, Some (finalize X h (error_response X
                                 (case e of LengthLimit \<Rightarrow> 413 | BodyFailed \<Rightarrow> 400))))
                     | Inr body \<Rightarrow>
                         answer X E remote method path user_agent
                           (handle_collected X E h
                              \<lparr>rq_method = method, rq_uri = rq_uri req, rq_version = rq_version req,
                               rq_headers = rq_headers req, rq_body = body\<rparr> remote))))"

text \<open>HTTP/3: the host comes from the authority, and the two must not disagree.\<close>

definition handle_h3 ::
  "ext \<Rightarrow> env \<Rightarrow> 'c handler_service \<Rightarrow> unit request \<Rightarrow> string \<Rightarrow> socket_addr
   \<Rightarrow> 'c handler_service \<times> response option" where
  "handle_h3 X E h req body remote =
     (let method = rq_method req; path = uri_path (rq_uri req);
          user_agent = user_agent_of X (rq_headers req);
          host_or = (\<lambda>v. case hv_to_str X v of None \<Rightarrow> [] | Some s \<Rightarrow> s);
          run = (\<lambda>hm. answer X E remote method path user_agent
                   (handle_collected X E h
                      \<lparr>rq_method = method, rq_uri = rq_uri req, rq_version = rq_version req,
                       rq_headers = hm, rq_body = body\<rparr> remote)) in
      case u_authority (rq_uri req) of
        None \<Rightarrow> run (rq_headers req)
      | Some authority \<Rightarrow>
          (case hm_get (rq_headers req) ''host'' of
             Some v \<Rightarrow>
               if host_or v \<noteq> [] \<and> host_or v \<noteq> authority
               then answer X E remote method path user_agent
                      (h, Some (finalize X h (error_response X 400)))
               else run (rq_headers req)
           | None \<Rightarrow>
               run (case hv_from_str X authority of
                      Some hv \<Rightarrow> x_hm_insert X (rq_headers req) ''host'' hv
                    | None \<Rightarrow> rq_headers req)))"

end
