(* ===== verification/Flexd_Pipeline.thy ===== *)
theory Flexd_Pipeline
  imports Flexd_Handler
begin

text \<open>
  What the request pipeline of \<^verbatim>\<open>handler.rs\<close> guarantees: the gate every request passes, routing,
  decompression, fail-over, the reach of proxying and CONNECT, and the headers of responses.
\<close>

section \<open>The gate\<close>

lemma first_failure_None: "first_failure cs = None \<longleftrightarrow> (\<forall>(b, st)\<in>set cs. \<not> b)"
  by (induction cs rule: first_failure.induct) auto

lemma first_failure_Some: "first_failure cs = Some st \<Longrightarrow> st \<in> snd ` set cs"
  by (induction cs rule: first_failure.induct) (auto split: if_splits)

lemma header_checks_status: "st \<in> snd ` set (header_checks X h req) \<Longrightarrow> st \<in> {400, 413, 431}"
  by (auto simp: header_checks_def Let_def)

lemma scan_status: "case scan_at T uri i of Err e \<Rightarrow> fst e = 400 | _ \<Rightarrow> True"
  by (simp add: scan_at_def Let_def split: option.split)

lemma scan_from_status: "scan_from T uri is = Err e \<Longrightarrow> fst e = 400"
proof (induction "is")
  case (Cons i "is")
  then show ?case using scan_status [of T uri i] by (cases "scan_at T uri i") simp_all
qed simp

lemma validate_uri_status: "validate_uri T uri = Err (st, msg) \<Longrightarrow> st = 400"
proof (cases "scan_from T uri [0..<length uri]")
  case (Err e)
  moreover assume "validate_uri T uri = Err (st, msg)"
  ultimately show ?thesis
    using scan_from_status [OF Err] by (simp add: validate_uri_def Let_def split: if_splits)
qed (simp_all add: validate_uri_def Let_def split: if_splits)

lemma security_checks_status: "security_checks X h req = Err st \<Longrightarrow> st \<in> {400, 413, 431}"
  using first_failure_Some [of "header_checks X h req" st] header_checks_status [of st X h req]
  by (auto simp: security_checks_def dest: validate_uri_status split: option.splits outcome.splits)

text \<open>What a request has passed when it reaches the rewrite stage.\<close>

definition admitted :: "ext \<Rightarrow> 'c handler_service \<Rightarrow> string request \<Rightarrow> bool" where
  "admitted X h req \<longleftrightarrow>
     security_checks X h req = Ok ()
     \<and> length (rq_body req) \<le> unat (hs_max_body h)
     \<and> (\<exists>req'. maybe_decompress X h req = Inr req'
          \<and> validate_host X (case hm_get (rq_headers req') ''host'' of
                               None \<Rightarrow> None | Some v \<Rightarrow> hv_to_str X v) (hs_http_block h))
     \<and> check_method_allowed (rq_method req)"

lemma maybe_decompress_status: "maybe_decompress X h req = Inl st \<Longrightarrow> st = 413"
  by (auto simp: maybe_decompress_def Let_def split: if_splits option.splits)

text \<open>
  C13. A request that fails a check is turned away before anything is done for it: the answer is an
  error status of the check (or the validator's panic), no state of the service changes, and the
  environment (upstreams, files, name server) plays no part.
\<close>

theorem rejected_before_effects:
  assumes "\<not> admitted X h req"
  shows "fst (process X E h req remote) = h
    \<and> snd (process X E h req remote) \<in> {Err 400, Err 405, Err 413, Err 431, Panic}
    \<and> process X E h req remote = process X E' h req remote"
proof (cases "security_checks X h req")
  case (Ok u)
  show ?thesis
  proof (cases "maybe_decompress X h req")
    case (Inl st)
    then show ?thesis using Ok maybe_decompress_status [OF Inl] by (simp add: process_def)
  next
    case (Inr r)
    then show ?thesis using Ok assms by (auto simp: process_def admitted_def)
  qed
next
  case (Err st)
  then show ?thesis using security_checks_status [OF Err] by (auto simp: process_def)
qed (simp add: process_def)

text \<open>A service for the examples.\<close>

definition sample_block :: http_block where
  "sample_block =
     default_http_block [] \<lparr>hb_host_header_policy := ''any'', hb_root := Some ''/srv'',
       hb_upstreams := [sample_pool]\<rparr>"

definition sample_handler :: "http_block \<Rightarrow> bool \<Rightarrow> nat handler_service" where
  "sample_handler hb is_tls =
     handler_new sample_ext \<lparr>os_exists = (\<lambda>_. True), os_meta = (\<lambda>_. None), os_euid_root = False\<rparr>
       (\<lambda>_. None) hb \<lparr>al_path = ''access.log'', al_file = Some []\<rparr> None is_tls default_timeouts"

definition sample_request :: "string \<Rightarrow> string \<Rightarrow> header_map \<Rightarrow> 'b \<Rightarrow> 'b request" where
  "sample_request method path hm body =
     \<lparr>rq_method = method, rq_uri = \<lparr>u_authority = None, u_pq = Some (path, None)\<rparr>,
      rq_version = HTTP_11, rq_headers = hm, rq_body = body\<rparr>"

definition sample_location :: "string \<Rightarrow> string \<Rightarrow> location" where
  "sample_location p mt =
     \<lparr>loc_pattern = p, loc_match_type = mt,
      loc_handler = \<lparr>h_type = ''deny'', h_root = None, h_upstream = None, h_target = None,
        h_status = None, h_ab_split = None\<rparr>\<rparr>"

theorem rejected_before_effects_witness:
  "fst (process sample_ext sample_env (sample_handler sample_block False)
      (sample_request ''TRACE'' ''/'' [] []) (V4 (Ipv4 203 0 113 7), 4711))
   = sample_handler sample_block False"
proof -
  have "\<not> admitted sample_ext (sample_handler sample_block False) (sample_request ''TRACE'' ''/'' [] [])"
    by (simp add: admitted_def check_method_allowed_def sample_request_def)
  then show ?thesis using rejected_before_effects by blast
qed

section \<open>Routing\<close>

definition decisive :: "ext \<Rightarrow> string \<Rightarrow> compiled_location \<Rightarrow> bool" where
  "decisive X path c \<longleftrightarrow>
     loc_match_type (cl_location c) = ''exact'' \<and> loc_pattern (cl_location c) = path
     \<or> loc_match_type (cl_location c) = ''regex''
       \<and> (case cl_regex c of Some re \<Rightarrow> re_is_match X re path | None \<Rightarrow> False)"

definition prefix_match :: "string \<Rightarrow> compiled_location \<Rightarrow> bool" where
  "prefix_match path c \<longleftrightarrow>
     loc_match_type (cl_location c) = ''prefix'' \<and> starts_with path (loc_pattern (cl_location c))"

abbreviation pattern_len :: "compiled_location \<Rightarrow> nat" where
  "pattern_len c \<equiv> length (loc_pattern (cl_location c))"

fun longer :: "string \<Rightarrow> nat \<Rightarrow> compiled_location list \<Rightarrow> compiled_location option" where
  "longer path n [] = None"
| "longer path n (c # cs) =
     (if prefix_match path c \<and> n < pattern_len c
      then (case longer path (pattern_len c) cs of None \<Rightarrow> Some c | Some d \<Rightarrow> Some d)
      else longer path n cs)"

lemma location_loop_step:
  "location_loop X path b n (c # cs) =
     (if decisive X path c then Some c
      else if prefix_match path c \<and> n < pattern_len c
      then location_loop X path (Some c) (pattern_len c) cs
      else location_loop X path b n cs)"
  by (auto simp: decisive_def prefix_match_def Let_def split: option.split)

declare location_loop.simps(2) [simp del]

lemma location_loop_decisive:
  "find (decisive X path) cs = Some c \<Longrightarrow> location_loop X path b n cs = Some c"
  by (induction cs arbitrary: b n) (auto simp: location_loop_step split: if_splits)

lemma location_loop_longest:
  "find (decisive X path) cs = None \<Longrightarrow> location_loop X path b n cs =
     (case longer path n cs of None \<Rightarrow> b | Some c \<Rightarrow> Some c)"
  by (induction cs arbitrary: b n) (auto simp: location_loop_step split: if_splits option.splits)

lemma longer_None:
  "longer path n cs = None \<Longrightarrow> c \<in> set cs \<Longrightarrow> prefix_match path c \<Longrightarrow> pattern_len c \<le> n"
  by (induction cs arbitrary: n) (auto split: if_splits option.splits)

lemma longer_Some:
  assumes "longer path n cs = Some c"
  shows "\<exists>ys zs. cs = ys @ c # zs \<and> prefix_match path c \<and> n < pattern_len c
    \<and> (\<forall>d\<in>set ys. prefix_match path d \<longrightarrow> pattern_len d < pattern_len c)
    \<and> (\<forall>d\<in>set zs. prefix_match path d \<longrightarrow> pattern_len d \<le> pattern_len c)"
  using assms
proof (induction cs arbitrary: n)
  case Nil
  then show ?case by simp
next
  case (Cons a cs)
  show ?case
  proof (cases "prefix_match path a \<and> n < pattern_len a")
    case True
    show ?thesis
    proof (cases "longer path (pattern_len a) cs")
      case None
      then have "c = a" using Cons.prems True by simp
      with True longer_None [OF None] show ?thesis by (intro exI [of _ "[]"] exI [of _ cs]) auto
    next
      case (Some d)
      then have "longer path (pattern_len a) cs = Some c" using Cons.prems True by simp
      from Cons.IH [OF this] obtain ys zs where "cs = ys @ c # zs" "prefix_match path c"
        "pattern_len a < pattern_len c"
        "\<forall>d\<in>set ys. prefix_match path d \<longrightarrow> pattern_len d < pattern_len c"
        "\<forall>d\<in>set zs. prefix_match path d \<longrightarrow> pattern_len d \<le> pattern_len c" by blast
      with True show ?thesis by (intro exI [of _ "a # ys"] exI [of _ zs]) auto
    qed
  next
    case False
    then have "longer path n cs = Some c" using Cons.prems by auto
    from Cons.IH [OF this] obtain ys zs where "cs = ys @ c # zs" "prefix_match path c"
      "n < pattern_len c"
      "\<forall>d\<in>set ys. prefix_match path d \<longrightarrow> pattern_len d < pattern_len c"
      "\<forall>d\<in>set zs. prefix_match path d \<longrightarrow> pattern_len d \<le> pattern_len c" by blast
    with False show ?thesis by (intro exI [of _ "a # ys"] exI [of _ zs]) auto
  qed
qed

text \<open>
  C35. Routing: the first location in order that matches exactly or by its regex decides; without one,
  a longest matching non-empty prefix does, the first of equal length; and there is no location
  only if none of these match.
\<close>

theorem find_location_spec:
  "case find (decisive X path) (hs_locations h) of
     Some c \<Rightarrow> find_location X h path = Some c
   | None \<Rightarrow>
       (case find_location X h path of
          None \<Rightarrow> \<forall>d\<in>set (hs_locations h). prefix_match path d \<longrightarrow> pattern_len d = 0
        | Some c \<Rightarrow>
            \<exists>ys zs. hs_locations h = ys @ c # zs \<and> prefix_match path c \<and> 0 < pattern_len c
              \<and> (\<forall>d\<in>set ys. prefix_match path d \<longrightarrow> pattern_len d < pattern_len c)
              \<and> (\<forall>d\<in>set zs. prefix_match path d \<longrightarrow> pattern_len d \<le> pattern_len c))"
proof (cases "find (decisive X path) (hs_locations h)")
  case None
  then have l: "find_location X h path = longer path 0 (hs_locations h)"
    using location_loop_longest [OF None, of None 0]
    by (simp add: find_location_def split: option.splits)
  show ?thesis
  proof (cases "longer path 0 (hs_locations h)")
    case none: None
    then show ?thesis using None l longer_None [OF none] by auto
  next
    case (Some c)
    then show ?thesis using None l longer_Some [OF Some] by simp
  qed
qed (simp add: find_location_def location_loop_decisive)

theorem find_location_spec_witness:
  "find_location sample_ext (sample_handler (sample_block \<lparr>hb_locations :=
       [sample_location ''/'' ''prefix'', sample_location ''/a'' ''exact'']\<rparr>) False) ''/a''
   = Some (compile_location sample_ext (sample_location ''/a'' ''exact''))"
  using find_location_spec [where X = sample_ext and path = "''/a''" and h = "sample_handler (sample_block
      \<lparr>hb_locations := [sample_location ''/'' ''prefix'', sample_location ''/a'' ''exact'']\<rparr>) False"]
  by (simp add: sample_handler_def handler_new_def decisive_def compile_location_def sample_location_def)

section \<open>Decompression\<close>



section \<open>Fail-over\<close>

text \<open>
  Whether the filter admits a server, what an attempt on it comes to when the resolver is in a given
  state, and what the loop makes of it.
\<close>

definition server_allowed :: "ext \<Rightarrow> 'c handler_service \<Rightarrow> upstream_ref \<Rightarrow> nat \<Rightarrow> bool" where
  "server_allowed X h u idx \<longleftrightarrow>
     is_upstream_allowed X (us_address (up_servers u ! idx))
       (hb_upstream_allowed_networks (hs_http_block h)) = Inr ()"

definition attempt ::
  "ext \<Rightarrow> env \<Rightarrow> 'c handler_service \<Rightarrow> upstream_ref \<Rightarrow> string request \<Rightarrow> ip_addr \<Rightarrow> proxy_client
   \<Rightarrow> pinning_resolver \<Rightarrow> nat \<Rightarrow> proxy_client \<times> (proxy_error + response)" where
  "attempt X E h u req client pc r idx =
     forward X E (pc \<lparr>pc_resolver := r\<rparr>) idx (us_address (up_servers u ! idx)) req client (hs_scheme h)"

definition final :: "proxy_error + response \<Rightarrow> status + response" where
  "final res = (case res of Inr resp \<Rightarrow> Inr resp | Inl (PStatus s) \<Rightarrow> Inl s | Inl PConnect \<Rightarrow> Inl 502)"

lemma proxy_loop_state:
  "\<exists>r. fst (proxy_loop X E h u req client b pc st cands) = (b, pc \<lparr>pc_resolver := r\<rparr>)
     \<and> (resolver_step X)\<^sup>*\<^sup>* (pc_resolver pc) r"
proof (induction cands arbitrary: b pc st)
  case Nil
  show ?case by (intro exI [of _ "pc_resolver pc"]) simp
next
  case (Cons idx cands)
  let ?a = "us_address (up_servers u ! idx)"
  obtain b' g where t: "track b u idx = (b', g)" by (cases "track b u idx")
  obtain pc2 res where f: "forward X E pc idx ?a req client (hs_scheme h) = (pc2, res)"
    by (cases "forward X E pc idx ?a req client (hs_scheme h)")
  with forward_client [of X E pc idx ?a req client "hs_scheme h"] obtain r where
    pc2: "pc2 = pc \<lparr>pc_resolver := r\<rparr>" and steps: "(resolver_step X)\<^sup>*\<^sup>* (pc_resolver pc) r" by auto
  obtain r2 where IH: "fst (proxy_loop X E h u req client b pc2 502 cands) = (b, pc2 \<lparr>pc_resolver := r2\<rparr>)"
    "(resolver_step X)\<^sup>*\<^sup>* r r2" using Cons.IH [of b pc2 502] pc2 by auto
  have far: "(resolver_step X)\<^sup>*\<^sup>* (pc_resolver pc) r2" using steps IH(2) by (rule rtranclp_trans)
  show ?case
    using Cons.IH [of b pc st] Cons.IH [of b pc 403] IH(1) far steps
    by (auto simp: Let_def t f pc2 track_drop [OF t] split: sum.split proxy_error.split)
qed

lemma proxy_loop_first:
  assumes "\<forall>k\<in>set cands. k < length (up_servers u)" "i \<in> set cands" "server_allowed X h u i"
    and "\<forall>r. snd (attempt X E h u req client pc r i) \<noteq> Inl PConnect"
  shows "\<exists>pre j post r pc' res. cands = pre @ j # post \<and> i \<notin> set pre \<and> server_allowed X h u j
    \<and> attempt X E h u req client pc r j = (pc', res) \<and> res \<noteq> Inl PConnect
    \<and> (\<forall>k\<in>set pre. \<not> server_allowed X h u k
         \<or> (\<exists>r. snd (attempt X E h u req client pc r k) = Inl PConnect))
    \<and> proxy_loop X E h u req client b pc st cands = ((b, pc'), final res)"
  using assms
proof (induction cands arbitrary: b pc st)
  case (Cons idx cands)
  let ?P = "\<lambda>k. \<not> server_allowed X h u k \<or> (\<exists>r. snd (attempt X E h u req client pc r k) = Inl PConnect)"
  let ?loop = "proxy_loop X E h u req client"
  obtain b' g where t: "track b u idx = (b', g)" by (cases "track b u idx")
  obtain pc2 res where a: "attempt X E h u req client pc (pc_resolver pc) idx = (pc2, res)"
    by (cases "attempt X E h u req client pc (pc_resolver pc) idx")
  then have f: "forward X E pc idx (us_address (up_servers u ! idx)) req client (hs_scheme h) = (pc2, res)"
    by (simp add: attempt_def)
  have valid: "\<not> length (up_servers u) \<le> idx" using Cons.prems(1) by simp
  consider (here) "server_allowed X h u idx" "res \<noteq> Inl PConnect"
    | (refused) "\<not> server_allowed X h u idx"
    | (unreachable) "server_allowed X h u idx" "res = Inl PConnect" by blast
  then show ?case
  proof cases
    case here
    then have "?loop b pc st (idx # cands) = ((b, pc2), final res)"
      using valid f by (auto simp: Let_def server_allowed_def final_def t track_drop [OF t]
          split: sum.split proxy_error.split)
    with here a show ?thesis
      by (intro exI [of _ "[]"] exI [of _ idx] exI [of _ cands] exI [of _ "pc_resolver pc"]) auto
  next
    case refused
    then have l: "?loop b pc st (idx # cands) = ?loop b pc 403 cands" and i: "i \<noteq> idx" "i \<in> set cands"
      using valid Cons.prems(2,3) by (auto simp: Let_def server_allowed_def)
    from Cons.IH [of pc b 403] Cons.prems i obtain pre j post r pc' res' where
      "cands = pre @ j # post" "i \<notin> set pre" "server_allowed X h u j"
      "attempt X E h u req client pc r j = (pc', res')" "res' \<noteq> Inl PConnect"
      "\<forall>k\<in>set pre. ?P k" "?loop b pc 403 cands = ((b, pc'), final res')" by auto
    with l i refused show ?thesis
      by (intro exI [of _ "idx # pre"] exI [of _ j] exI [of _ post] exI [of _ r] exI [of _ pc']
          exI [of _ res']) auto
  next
    case unreachable
    then have l: "?loop b pc st (idx # cands) = ?loop b pc2 502 cands"
      using valid f by (simp add: Let_def server_allowed_def t track_drop [OF t])
    have p: "?P idx" using a unreachable(2) by (intro disjI2 exI [of _ "pc_resolver pc"]) simp
    have i: "i \<noteq> idx" "i \<in> set cands" using Cons.prems(2,4) p unreachable(1) a unreachable(2) by fastforce+
    have pc2: "attempt X E h u req client pc2 = attempt X E h u req client pc"
      using forward_client [of X E pc idx "us_address (up_servers u ! idx)" req client "hs_scheme h"] f
      by (auto simp: attempt_def fun_eq_iff)
    from Cons.IH [of pc2 b 502] Cons.prems i pc2 obtain pre j post r pc' res' where
      "cands = pre @ j # post" "i \<notin> set pre" "server_allowed X h u j"
      "attempt X E h u req client pc r j = (pc', res')" "res' \<noteq> Inl PConnect"
      "\<forall>k\<in>set pre. ?P k" "?loop b pc2 502 cands = ((b, pc'), final res')" by auto
    with l i p show ?thesis
      by (intro exI [of _ "idx # pre"] exI [of _ j] exI [of _ post] exI [of _ r] exI [of _ pc']
          exI [of _ res']) auto
  qed
qed simp

lemma in_candidates: "i \<in> set (snd (candidates X b u client)) \<longleftrightarrow> i < length (up_servers u)"
  using mset_candidates [of X b u client] by (metis atLeast0LessThan lessThan_iff set_mset_mset set_upt)


lemma sample_allowed: "server_allowed sample_ext (sample_handler sample_block tls) sample_pool 0"
  by (simp add: server_allowed_def is_upstream_allowed_def sample_pool_def split_host_port_def
      strip_prefix_def rsplit_once_def parse_u16_def uint_from_str_radix_def to_digit_def digit_val_def
      ip_parse_eval)

definition sample_proxy :: handler_type where
  "sample_proxy =
     \<lparr>h_type = ''proxy'', h_root = None, h_upstream = Some sample_pool, h_target = None,
      h_status = None, h_ab_split = None\<rparr>"

lemma sample_attempt:
  "snd (attempt sample_ext sample_env (sample_handler sample_block False) sample_pool
     (sample_request ''GET'' ''/'' [(''host'', ''a'')] []) ip pc r 0) \<noteq> Inl PConnect"
proof -
  have "upstream_request sample_ext pc addr (sample_request ''GET'' ''/'' [(''host'', ''a'')] []) ip sch \<noteq> Inl PConnect"
    for pc addr sch
    by (simp add: upstream_request_def Let_def split: option.split)
  then show ?thesis
    by (auto simp: attempt_def forward_def client_request_def sample_env_def sample_pool_def
        downstream_response_def hm_contains_key_def hm_get_all_def split: sum.split)
qed


section \<open>What proxying may reach\<close>

text \<open>What a request may change of the service: the sticky sessions, the balancer, the DNS cache.\<close>

definition service_moves :: "ext \<Rightarrow> 'c handler_service \<Rightarrow> 'c handler_service \<Rightarrow> bool" where
  "service_moves X h h' \<longleftrightarrow>
     (\<exists>router b r. h' = h \<lparr>hs_ab_router := router, hs_balancer := b,
          hs_proxy := (hs_proxy h) \<lparr>pc_resolver := r\<rparr>\<rparr>
        \<and> rerouted (hs_ab_router h) router \<and> turned (hs_balancer h) b
        \<and> (resolver_step X)\<^sup>*\<^sup>* (pc_resolver (hs_proxy h)) r)"

lemma service_moves_refl [simp]: "service_moves X h h"
  unfolding service_moves_def
  by (intro exI [of _ "hs_ab_router h"] exI [of _ "hs_balancer h"] exI [of _ "pc_resolver (hs_proxy h)"]) simp

lemma select_upstream_moves:
  "\<exists>router. fst (select_upstream X h handler client) = h \<lparr>hs_ab_router := router\<rparr>
     \<and> rerouted (hs_ab_router h) router"
proof (cases "h_ab_split handler")
  case None
  then show ?thesis by (intro exI [of _ "hs_ab_router h"]) (simp add: select_upstream_def)
next
  case (Some name)
  show ?thesis
  proof (cases "hs_ab_router h")
    case None
    with Some show ?thesis by (intro exI [of _ "hs_ab_router h"]) (simp add: select_upstream_def)
  next
    case (Some router)
    with \<open>h_ab_split handler = Some name\<close> show ?thesis
      by (intro exI [of _ "Some (fst (resolve X router name (show_ip X client)))"])
        (simp add: select_upstream_def resolve_rerouted split: prod.split)
  qed
qed

lemma dispatch_proxy_moves: "service_moves X h (fst (dispatch_proxy X E h handler req remote))"
proof (cases "select_upstream X h handler (fst remote)")
  case (Pair h' res)
  then obtain router where h': "h' = h \<lparr>hs_ab_router := router\<rparr>" and router: "rerouted (hs_ab_router h) router"
    using select_upstream_moves [of X h handler "fst remote"] by auto
  show ?thesis
  proof (cases res)
    case (Inl st)
    with Pair h' router show ?thesis unfolding service_moves_def
      by (intro exI [of _ router] exI [of _ "hs_balancer h"] exI [of _ "pc_resolver (hs_proxy h)"])
        (simp add: dispatch_proxy_def)
  next
    case (Inr u)
    obtain b order where c: "candidates X (hs_balancer h') u (fst remote) = (b, order)"
      by (cases "candidates X (hs_balancer h') u (fst remote)")
    obtain r where r: "fst (proxy_loop X E h' u req (fst remote) b (hs_proxy h') 502 order)
        = (b, (hs_proxy h') \<lparr>pc_resolver := r\<rparr>)"
      "(resolver_step X)\<^sup>*\<^sup>* (pc_resolver (hs_proxy h')) r"
      using proxy_loop_state [of X E h' u req "fst remote" b "hs_proxy h'" 502 order] by blast
    then obtain out where "proxy_loop X E h' u req (fst remote) b (hs_proxy h') 502 order
        = ((b, (hs_proxy h') \<lparr>pc_resolver := r\<rparr>), out)" by (metis prod.collapse)
    then have "fst (dispatch_proxy X E h handler req remote)
        = h' \<lparr>hs_balancer := b, hs_proxy := (hs_proxy h') \<lparr>pc_resolver := r\<rparr>\<rparr>"
      using Pair Inr c by (simp add: dispatch_proxy_def)
    moreover have "turned (hs_balancer h) b"
      using candidates_turned [of "hs_balancer h'" X u "fst remote"] c h' by simp
    ultimately show ?thesis using r(2) h' router unfolding service_moves_def
      by (intro exI [of _ router] exI [of _ b] exI [of _ r]) simp
  qed
qed

lemma route_request_moves: "service_moves X h (fst (route_request X E h path req remote))"
proof -
  have "service_moves X h (fst (dispatch X E h c path req remote))" for c req
    by (simp add: dispatch_def Let_def dispatch_proxy_moves)
  then show ?thesis
    unfolding route_request_def Let_def
    by (auto split: prod.split sum.split option.split) (metis fst_conv)+
qed

lemma process_moves: "service_moves X h (fst (process X E h req remote))"
  by (simp add: process_def route_request_moves split: outcome.split sum.split prod.split)

lemma process_resolver:
  "(resolver_step X)\<^sup>*\<^sup>* (pc_resolver (hs_proxy h)) (pc_resolver (hs_proxy (fst (process X E h req remote))))"
  using process_moves [of X h E req remote] by (auto simp: service_moves_def)

text \<open>
  Two environments that agree on everything but what refused servers would do: servers whose address
  the filter refuses, and connections to addresses that are restricted and not listed.
\<close>

definition same_permitted :: "ext \<Rightarrow> string list option \<Rightarrow> ip_network list \<Rightarrow> env \<Rightarrow> env \<Rightarrow> bool" where
  "same_permitted X allowed nets E E' \<longleftrightarrow>
     e_fs E = e_fs E' \<and> e_dns E = e_dns E' \<and> e_now E = e_now E' \<and> e_later E = e_later E'
     \<and> (\<forall>addr. is_upstream_allowed X addr allowed = Inr () \<longrightarrow>
          e_resolves E addr = e_resolves E' addr
          \<and> (\<forall>idx up as.
               (\<forall>a\<in>set (case as of Some l \<Rightarrow> l | None \<Rightarrow> []).
                  is_restricted (fst a) \<longrightarrow> listed_in X nets (fst a))
               \<longrightarrow> e_send E addr idx up as = e_send E' addr idx up as))"

lemma forward_env:
  assumes "same_permitted X allowed (pr_allowed (pc_resolver pc)) E E'" "vetted X (pc_resolver pc)"
    and "is_upstream_allowed X addr allowed = Inr ()"
  shows "forward X E pc idx addr req client scheme = forward X E' pc idx addr req client scheme"
proof -
  have "client_request X E pc idx addr up = client_request X E' pc idx addr up" for up
    using assms by (intro client_request_env) (auto simp: same_permitted_def upf.permitted_iff)
  note same = this
  show ?thesis unfolding forward_def same by (rule refl)
qed

lemma proxy_loop_env:
  assumes "same_permitted X (hb_upstream_allowed_networks (hs_http_block h)) nets E E'"
    and "vetted X (pc_resolver pc)" "pr_allowed (pc_resolver pc) = nets"
  shows "proxy_loop X E h u req client b pc st cands = proxy_loop X E' h u req client b pc st cands"
  using assms
proof (induction cands arbitrary: b pc st)
  case (Cons idx cands)
  let ?a = "us_address (up_servers u ! idx)"
  obtain pc2 res where f: "forward X E pc idx ?a req client (hs_scheme h) = (pc2, res)"
    by (cases "forward X E pc idx ?a req client (hs_scheme h)")
  then obtain r where pc2: "pc2 = pc \<lparr>pc_resolver := r\<rparr>" "(resolver_step X)\<^sup>*\<^sup>* (pc_resolver pc) r"
    using forward_client [of X E pc idx ?a req client "hs_scheme h"] by auto
  then have v: "vetted X (pc_resolver pc2)" "pr_allowed (pc_resolver pc2) = nets"
    using resolver_steps_vetted [OF pc2(2) Cons.prems(2)] Cons.prems(3) by auto
  have same: "same_permitted X (hb_upstream_allowed_networks (hs_http_block h))
      (pr_allowed (pc_resolver pc)) E E'" using Cons.prems(1,3) by simp
  have f': "forward X E' pc idx ?a req client (hs_scheme h) = (pc2, res)"
    if "is_upstream_allowed X ?a (hb_upstream_allowed_networks (hs_http_block h)) = Inr ()"
    using forward_env [OF same Cons.prems(2) that, of idx req client "hs_scheme h"] f by simp
  show ?case
    using Cons.IH [OF Cons.prems] Cons.IH [OF Cons.prems(1) v]
    by (auto simp: Let_def f f' split: prod.split sum.split proxy_error.split)
qed simp

lemma select_upstream_keeps:
  "hs_http_block (fst (select_upstream X h handler client)) = hs_http_block h
   \<and> hs_proxy (fst (select_upstream X h handler client)) = hs_proxy h"
  by (auto simp: select_upstream_def split: option.split prod.split)

lemma route_request_env:
  assumes "same_permitted X (hb_upstream_allowed_networks (hs_http_block h))
      (pr_allowed (pc_resolver (hs_proxy h))) E E'"
    and "vetted X (pc_resolver (hs_proxy h))"
  shows "route_request X E h path req remote = route_request X E' h path req remote"
proof -
  have fs: "e_fs E = e_fs E'" using assms(1) by (simp add: same_permitted_def)
  have p: "dispatch_proxy X E h handler req remote = dispatch_proxy X E' h handler req remote" for handler req
  proof -
    obtain h' r where s: "select_upstream X h handler (fst remote) = (h', r)"
      by (cases "select_upstream X h handler (fst remote)")
    then have "hs_http_block h' = hs_http_block h" "hs_proxy h' = hs_proxy h"
      using select_upstream_keeps [of X h handler "fst remote"] by simp_all
    then have "proxy_loop X E h' u req c b (hs_proxy h') st cands
        = proxy_loop X E' h' u req c b (hs_proxy h') st cands"
      for u c b st cands using assms by (intro proxy_loop_env [OF _ _ refl]) simp_all
    then show ?thesis by (simp add: dispatch_proxy_def s split: sum.split)
  qed
  have d: "dispatch X E h c path req remote = dispatch X E' h c path req remote" for c req
    unfolding dispatch_def Let_def p fs by (rule refl)
  show ?thesis
    unfolding route_request_def Let_def d fs by (rule refl)
qed

text \<open>
  The filter bounds what a request can touch. From a resolver cache that holds vetted addresses
  only, neither a server whose address the filter refuses nor a connection to a restricted address
  that is not listed can influence anything: environments that differ only in what those would answer
  give the same outcome and the same state of the service. The cache stays vetted, so this holds for
  every later request too.
\<close>

theorem refused_upstreams_unreachable:
  assumes "same_permitted X (hb_upstream_allowed_networks (hs_http_block h))
      (pr_allowed (pc_resolver (hs_proxy h))) E E'"
    and "vetted X (pc_resolver (hs_proxy h))"
  shows "process X E h req remote = process X E' h req remote
    \<and> vetted X (pc_resolver (hs_proxy (fst (process X E h req remote))))
    \<and> pr_allowed (pc_resolver (hs_proxy (fst (process X E h req remote))))
      = pr_allowed (pc_resolver (hs_proxy h))"
proof
  show "process X E h req remote = process X E' h req remote"
    unfolding process_def
    using route_request_env [OF assms]
    by (simp split: outcome.split sum.split prod.split)
  show "vetted X (pc_resolver (hs_proxy (fst (process X E h req remote))))
    \<and> pr_allowed (pc_resolver (hs_proxy (fst (process X E h req remote))))
      = pr_allowed (pc_resolver (hs_proxy h))"
    using resolver_steps_vetted [OF process_resolver assms(2)] .
qed

theorem refused_upstreams_unreachable_witness:
  "process sample_ext sample_env (sample_handler sample_block False)
     (sample_request ''GET'' ''/'' [] []) (V4 (Ipv4 203 0 113 7), 4711)
   = process sample_ext (sample_env \<lparr>e_tcp := \<lambda>_. False, e_send := \<lambda>a i r as.
        if is_upstream_allowed sample_ext a None = Inr ()
           \<and> as \<noteq> Some [(V4 (Ipv4 127 0 0 1), 80)] then e_send sample_env a i r as else Elapsed\<rparr>)
     (sample_handler sample_block False)
     (sample_request ''GET'' ''/'' [] []) (V4 (Ipv4 203 0 113 7), 4711)"
proof -
  let ?h = "sample_handler sample_block False"
  let ?E = "sample_env \<lparr>e_tcp := \<lambda>_. False, e_send := \<lambda>a i r as.
        if is_upstream_allowed sample_ext a None = Inr ()
           \<and> as \<noteq> Some [(V4 (Ipv4 127 0 0 1), 80)] then e_send sample_env a i r as else Elapsed\<rparr>"
  have n: "hb_upstream_allowed_networks (hs_http_block ?h) = None"
    "pr_allowed (pc_resolver (hs_proxy ?h)) = []" "vetted sample_ext (pc_resolver (hs_proxy ?h))"
    by (simp_all add: sample_handler_def handler_new_def sample_block_def default_http_block_def
        proxy_client_new_def resolver_new_def parse_networks_def map_filter_def vetted_def)
  have "same_permitted sample_ext None [] sample_env ?E"
    by (auto simp: same_permitted_def listed_in_def)
  then show ?thesis
    using refused_upstreams_unreachable [where h = ?h] n by simp
qed

section \<open>Tunnels\<close>

text \<open>
  A tunnel goes only where the operator allowed: when CONNECT opens a connection, CONNECT is
  enabled, the authority has a host and a port on the configured list, the connection is to that
  port, and its address is outside the restricted ranges or in the allowed networks, whatever the
  name server answered.
\<close>

theorem tunnel_permitted:
  assumes "handle_connect X E h req = (h', resp, Some addr)"
    and "(resolver_step X)\<^sup>*\<^sup>* (resolver_new nets ttl) (pc_resolver (hs_proxy h))"
    and "nets = parse_networks X (hb_upstream_allowed_networks (hs_http_block h))"
  shows "hb_allow_connect (hs_http_block h)
    \<and> (\<exists>authority host. u_authority (rq_uri req) = Some authority
         \<and> split_host_port authority = (host, Some (snd addr))
         \<and> connect_target_permitted h host (snd addr) authority)
    \<and> (is_restricted (fst addr) \<longrightarrow> listed_in X nets (fst addr))
    \<and> e_tcp E addr \<and> rs_status resp = 200"
proof -
  from assms(1) obtain authority host port addrs where
    a: "hb_allow_connect (hs_http_block h)" "u_authority (rq_uri req) = Some authority"
    "split_host_port authority = (host, Some port)" "connect_target_permitted h host port authority"
    and c: "connect_addresses X E h host port = (h', Some addrs)"
    and f: "find (e_tcp E) addrs = Some addr" and r: "resp = simple_response X h' 200 []"
    by (auto simp: handle_connect_def split: if_splits option.splits prod.splits)
  from f have t: "e_tcp E addr" "addr \<in> set addrs" by (auto simp: find_Some_iff in_set_conv_nth)
  have "snd addr = port \<and> (is_restricted (fst addr) \<longrightarrow> listed_in X nets (fst addr))"
  proof (cases "parse_ip_addr host")
    case (Some ip)
    then have "addrs = [(ip, port)]" "ip_allowed X ip nets"
      using c assms(3) by (auto simp: connect_addresses_def split: if_splits)
    with t show ?thesis by (auto simp: upf.permitted_iff)
  next
    case None
    then obtain as where v: "snd (resolve_checked X (pc_resolver (hs_proxy h)) host (e_now E)
        (e_dns E host) (e_later E)) = Inr as" "addrs = map (\<lambda>sa. (fst sa, port)) as"
      using c by (auto simp: connect_addresses_def split: prod.splits sum.splits)
    from resolved_permitted [OF assms(2) v(1)] v(2) t show ?thesis by auto
  qed
  moreover have "rs_status resp = 200"
    by (simp add: r simple_response_def finalize_def response_new_def Let_def split: option.split)
  ultimately show ?thesis using a t by auto
qed

definition tunnel_block :: http_block where
  "tunnel_block =
     sample_block \<lparr>hb_allow_connect := True, hb_connect_allowed_targets := Some [''app''],
       hb_upstream_allowed_networks := Some [''127.0.0.0/8'']\<rparr>"

definition connect_request :: "unit request" where
  "connect_request = (sample_request ''CONNECT'' [] [] ()) \<lparr>rq_uri := \<lparr>u_authority = Some ''app:443'', u_pq = None\<rparr>\<rparr>"

lemma sample_tunnel:
  assumes "hs_http_block h = tunnel_block"
    and "pc_resolver (hs_proxy h) = resolver_new [IpNetwork ''127.0.0.0/8''] (from_secs 30)"
  shows "\<exists>h' resp. handle_connect sample_ext sample_env h connect_request
      = (h', resp, Some (V4 (Ipv4 127 0 0 1), 443))"
proof -
  have n: "parse_networks sample_ext (hb_upstream_allowed_networks (hs_http_block h)) = [IpNetwork ''127.0.0.0/8'']"
    "hb_allow_connect (hs_http_block h)" "hb_connect_allowed_targets (hs_http_block h) = Some [''app'']"
    by (simp_all add: assms(1) tunnel_block_def sample_block_def default_http_block_def parse_networks_def
        map_filter_def parse_network_def sample_ext_def)
  have s: "split_host_port ''app:443'' = (''app'', Some 443)" "split_host_port ''app'' = (''app'', None)"
    by (simp_all add: split_host_port_def strip_prefix_def rsplit_once_def parse_u16_def
        uint_from_str_radix_def to_digit_def digit_val_def)
  have p: "parse_ip_addr ''app'' = None" by (simp add: ip_parse_eval)
  have c: "connect_target_permitted h ''app'' 443 ''app:443''"
    by (simp add: connect_target_permitted_def n s eq_ignore_ascii_case_def)
  have a: "snd (connect_addresses sample_ext sample_env h ''app'' 443) = Some [(V4 (Ipv4 127 0 0 1), 443)]"
    by (simp add: connect_addresses_def p n assms(2) resolve_checked_def cached_def vet_answer_def resolver_new_def
        sample_env_def ip_allowed_def sample_ext_def split: prod.split)
  obtain h' where h': "connect_addresses sample_ext sample_env h ''app'' 443
      = (h', Some [(V4 (Ipv4 127 0 0 1), 443)])" using a by (metis prod.collapse)
  have "e_tcp sample_env (V4 (Ipv4 127 0 0 1), 443)" by (simp add: sample_env_def)
  then have "handle_connect sample_ext sample_env h connect_request
      = (h', simple_response sample_ext h' 200 [], Some (V4 (Ipv4 127 0 0 1), 443))"
    by (simp add: handle_connect_def connect_request_def n s c h')
  then show ?thesis by blast
qed

theorem tunnel_permitted_witness:
  "listed_in sample_ext [IpNetwork ''127.0.0.0/8''] (V4 (Ipv4 127 0 0 1))"
proof -
  let ?h = "sample_handler tunnel_block False"
  have n: "parse_networks sample_ext (hb_upstream_allowed_networks (hs_http_block ?h)) = [IpNetwork ''127.0.0.0/8'']"
    "pc_resolver (hs_proxy ?h) = resolver_new [IpNetwork ''127.0.0.0/8''] (from_secs 30)"
    "hs_http_block ?h = tunnel_block"
    by (simp_all add: tunnel_block_def sample_handler_def handler_new_def sample_block_def
        default_http_block_def parse_networks_def map_filter_def parse_network_def sample_ext_def
        proxy_client_new_def)
  from sample_tunnel [OF n(3,2)] obtain h' resp where
    t: "handle_connect sample_ext sample_env ?h connect_request = (h', resp, Some (V4 (Ipv4 127 0 0 1), 443))" by blast
  have "(resolver_step sample_ext)\<^sup>*\<^sup>* (resolver_new [IpNetwork ''127.0.0.0/8''] (from_secs 30))
      (pc_resolver (hs_proxy ?h))" unfolding n by (rule rtranclp.rtrancl_refl)
  from tunnel_permitted [OF t this n(1) [symmetric]] show ?thesis by simp
qed

section \<open>Response headers\<close>

lemma finalize_hsts:
  assumes "header_laws X" "hs_hsts h = Some v"
  shows "hm_get (rs_headers (finalize X h resp)) ''strict-transport-security'' \<noteq> None"
  using assms by (auto simp: finalize_def contains_key_get)

lemma process_hsts: "hs_hsts (fst (process X E h req remote)) = hs_hsts h"
  using process_moves [of X h E req remote] by (auto simp: service_moves_def)

text \<open>
  Every answer of the pipeline of a TLS listener with HSTS configured carries the header, error
  answers and answers relayed from upstreams included.
\<close>

theorem hsts_always:
  assumes "header_laws X" "hs_hsts h = Some v" "handle_collected X E h req remote = (h', Some resp)"
  shows "hm_get (rs_headers resp) ''strict-transport-security'' \<noteq> None"
proof -
  obtain h'' r where p: "process X E h req remote = (h'', r)" by (cases "process X E h req remote")
  have "hs_hsts h'' = Some v" using process_hsts [of X E h req remote] p assms(2) by simp
  then show ?thesis
    using assms(3) p finalize_hsts [OF assms(1)]
    by (auto simp: handle_collected_def split: outcome.splits)
qed

theorem hsts_always_witness:
  "\<exists>resp. snd (handle_collected sample_ext sample_env
      (sample_handler (sample_block \<lparr>hb_hsts_max_age := Some 300\<rparr>) True)
      (sample_request ''TRACE'' ''/'' [] []) (V4 (Ipv4 203 0 113 7), 4711)) = Some resp
    \<and> hm_get (rs_headers resp) ''strict-transport-security'' \<noteq> None"
proof -
  let ?h = "sample_handler (sample_block \<lparr>hb_hsts_max_age := Some 300\<rparr>) True"
  let ?req = "sample_request ''TRACE'' ''/'' [] []" and ?ip = "(V4 (Ipv4 203 0 113 7), 4711 :: u16)"
  have s: "security_checks sample_ext ?h ?req = Ok ()"
  proof -
    have v: "validate_uri (x_lower sample_ext) ''/'' = Ok ()" by code_simp
    show ?thesis
      by (simp add: security_checks_def header_checks_def Let_def sample_request_def v uri_path_def
          content_length_over_def hm_get_def hm_get_all_def split: option.split)
  qed
  have hp: "hb_host_header_policy (hs_http_block ?h) = ''any''"
    by (simp add: sample_handler_def handler_new_def sample_block_def default_http_block_def)
  have p: "process sample_ext sample_env ?h ?req ?ip = (?h, Err 405)"
    unfolding process_def s
    by (simp add: maybe_decompress_def sample_request_def hm_get_def hm_get_all_def validate_host_def
        hp check_method_allowed_def)
  have v: "\<exists>v. hs_hsts ?h = Some v"
    by (simp add: sample_handler_def handler_new_def hv_from_str_def sample_ext_def)
  then obtain v where v: "hs_hsts ?h = Some v" by blast
  have "handle_collected sample_ext sample_env ?h ?req ?ip
      = (?h, Some (finalize sample_ext ?h (error_response sample_ext 405)))"
    by (simp add: handle_collected_def p)
  from hsts_always [OF sample_ext_header_laws v this] this show ?thesis by simp
qed

text \<open>The values a GeoIP header must have: those of the database for the address, if any.\<close>

definition geo_answer ::
  "ext \<Rightarrow> 'c handler_service \<Rightarrow> ip_addr \<Rightarrow> (geoip_info \<Rightarrow> string option) \<Rightarrow> string list" where
  "geo_answer X h ip field =
     (case Option.bind (hs_geoip h) (\<lambda>g. Option.bind (geoip_lookup g ip) field) of
        Some v \<Rightarrow> if x_hv_ok X v then [v] else []
      | None \<Rightarrow> [])"

lemma get_all_geo_put:
  assumes "header_laws X"
  shows "hm_get_all (geo_put X n v m) j =
    (if j = n
     then (case v of Some s \<Rightarrow> if x_hv_ok X s then [s] else hm_get_all m j | None \<Rightarrow> hm_get_all m j)
     else hm_get_all m j)"
  using assms by (simp add: geo_put_def hv_from_str_def split: option.split)

text \<open>
  Location headers are the server's own: after stamping, each of the three GeoIP headers has the
  database's value for the connecting address or is absent, whatever the client sent, and no
  other header changes.
\<close>

theorem geoip_headers_own:
  assumes "header_laws X"
  shows "hm_get_all (stamp_geoip X h hm ip) k =
    (if k = ''x-geoip-country'' then geo_answer X h ip gi_iso_code
     else if k = ''x-geoip-city'' then geo_answer X h ip gi_city
     else if k = ''x-geoip-continent'' then geo_answer X h ip gi_continent
     else hm_get_all hm k)"
proof -
  let ?b = "fold (\<lambda>n hm. x_hm_remove X hm n) GEO_HEADERS hm"
  have b: "hm_get_all ?b j = (if j \<in> set GEO_HEADERS then [] else hm_get_all hm j)" for j
    by (rule get_all_fold_remove [OF assms])
  have G: "j \<in> set GEO_HEADERS \<longleftrightarrow>
      j = ''x-geoip-country'' \<or> j = ''x-geoip-city'' \<or> j = ''x-geoip-continent''" for j
    by (simp add: GEO_HEADERS_def)
  show ?thesis
  proof (cases "Option.bind (hs_geoip h) (\<lambda>g. geoip_lookup g ip)")
    case None
    then have "stamp_geoip X h hm ip = ?b" "geo_answer X h ip f = []" for f
      by (auto simp: stamp_geoip_def Let_def geo_answer_def split: option.splits bind_splits)
    then show ?thesis by (simp add: b G)
  next
    case (Some info)
    then obtain g where g: "hs_geoip h = Some g" "geoip_lookup g ip = Some info"
      by (auto split: bind_splits)
    have a: "geo_answer X h ip f =
        (case f info of Some v \<Rightarrow> if x_hv_ok X v then [v] else [] | None \<Rightarrow> [])" for f
      by (simp add: geo_answer_def g)
    have "stamp_geoip X h hm ip = geo_put X ''x-geoip-continent'' (gi_continent info)
        (geo_put X ''x-geoip-city'' (gi_city info) (geo_put X ''x-geoip-country'' (gi_iso_code info) ?b))"
      by (simp add: stamp_geoip_def Let_def g)
    then show ?thesis by (simp add: a b get_all_geo_put [OF assms] G split: option.split)
  qed
qed

theorem geoip_headers_own_witness:
  "hm_get_all (stamp_geoip sample_ext (sample_handler sample_block False)
     [(''x-geoip-country'', ''XX'')] (V4 (Ipv4 203 0 113 7))) ''x-geoip-country'' = []"
  unfolding geoip_headers_own [OF sample_ext_header_laws]
  by (simp add: geo_answer_def sample_handler_def handler_new_def sample_block_def default_http_block_def)

end
