(* ===== verification/Config_Sound.thy ===== *)
theory Config_Sound
  imports Flexd_Pipeline
begin

text \<open>
  What a passed \<^verbatim>\<open>Config::validate\<close> means for the running service: nothing of the configuration is
  silently dropped when the service is built, and a proxy location finds its upstream. The last
  section has the inputs on which validation and the running service disagree.
\<close>

section \<open>Facts of a validated block\<close>

lemmas block_checks = check_http_block_def check_ok

lemma validated_block:
  assumes "validate X os cf = Inr ()" "hb \<in> set (cf_http cf)"
  shows "check_http_block X os hb = Inr ()"
  using assms by (simp add: validate_def check_ok)

lemma block_rewrites:
  "check_http_block X os hb = Inr () \<Longrightarrow> list_all (\<lambda>r. regex_new X (rw_pattern r) \<noteq> None) (hb_rewrites hb)"
  by (auto simp: block_checks check_rewrite_def list_all_iff)

lemma block_regex:
  "check_http_block X os hb = Inr () \<Longrightarrow> l \<in> set (hb_locations hb) \<Longrightarrow> loc_match_type l = ''regex''
     \<Longrightarrow> regex_new X (loc_pattern l) \<noteq> None"
  by (auto simp: block_checks check_location_def)

lemma parse_networks_all:
  "\<forall>c\<in>set cs. parse_network X c \<noteq> None \<Longrightarrow> parse_networks X (Some cs) = map IpNetwork cs"
  by (induction cs) (auto simp: parse_networks_def map_filter_simps parse_network_def split: if_splits)

text \<open>
  Building the service from a validated block drops nothing: every rewrite rule and every regex
  location is compiled, in order, and every network of the allowlist and of the trusted proxies is
  in force.
\<close>

lemma validated_nothing_dropped:
  assumes "validate X os cf = Inr ()" "hb \<in> set (cf_http cf)"
    and "h = handler_new X os' open_db hb logger store tls timeouts"
  shows "map (\<lambda>(re, _, _). re) (hs_rewriter h) = map (Regex \<circ> rw_pattern) (hb_rewrites hb)
    \<and> (\<forall>c\<in>set (hs_locations h). loc_match_type (cl_location c) = ''regex''
         \<longrightarrow> cl_regex c = Some (Regex (loc_pattern (cl_location c))))
    \<and> (\<forall>cs. hb_upstream_allowed_networks hb = Some cs
         \<longrightarrow> pr_allowed (pc_resolver (hs_proxy h)) = map IpNetwork cs)
    \<and> (\<forall>cs. hb_trusted_proxies hb = Some cs \<longrightarrow> pc_trusted_proxies (hs_proxy h) = map IpNetwork cs)"
proof -
  note b = validated_block [OF assms(1,2)]
  have "cl_regex (compile_location X l) = Some (Regex (loc_pattern l))"
    if "l \<in> set (hb_locations hb)" "loc_match_type l = ''regex''" for l
    using block_regex [OF b that] that by (auto simp: compile_location_def regex_new_def split: if_splits)
  moreover have "cl_location (compile_location X l) = l" for l by (simp add: compile_location_def)
  moreover have "\<forall>c\<in>set cs. parse_network X c \<noteq> None" if "hb_upstream_allowed_networks hb = Some cs" for cs
    using b that by (simp add: block_checks check_networks_def)
  moreover have "\<forall>c\<in>set cs. parse_network X c \<noteq> None" if "hb_trusted_proxies hb = Some cs" for cs
    using b that by (simp add: block_checks check_trusted_proxies_def)
  ultimately show ?thesis
    using engine_in_order [OF block_rewrites [OF b]]
    by (auto simp: assms(3) handler_new_def proxy_client_new_def resolver_new_def parse_networks_all)
qed

section \<open>The upstream of a proxy location\<close>

lemma router_new_splits:
  assumes "distinct (map sp_name splits)" "sp \<in> set splits"
  shows "ar_splits (ab_router_new splits) (sp_name sp) = Some (ab_config_of sp)"
proof -
  have "n \<notin> sp_name ` set splits \<Longrightarrow>
      fold (\<lambda>sp m. m(sp_name sp \<mapsto> ab_config_of sp)) splits m n = m n" for n m splits
    by (induction splits arbitrary: m) auto
  then have "fold (\<lambda>sp m. m(sp_name sp \<mapsto> ab_config_of sp)) splits m (sp_name sp)
      = Some (ab_config_of sp)" for m
    using assms by (induction splits arbitrary: m) auto
  then show ?thesis by (simp add: ab_router_new_def)
qed

lemma find_by_name:
  "distinct (map f xs) \<Longrightarrow> x \<in> set xs \<Longrightarrow> find (\<lambda>y. f y = f x) xs = Some x"
  by (induction xs) auto

lemma find_ex: "list_ex P xs \<Longrightarrow> \<exists>x. find P xs = Some x \<and> x \<in> set xs \<and> P x"
  by (induction xs) auto

lemma resolve_upstream_known:
  "list_ex (\<lambda>u. up_name u = n) (hb_upstreams hb) \<Longrightarrow>
     \<exists>u. resolve_upstream hb n = Some u \<and> u \<in> set (hb_upstreams hb)"
  by (auto simp: resolve_upstream_def dest: find_ex)

lemma resolve_in_groups:
  assumes "ar_splits r n = Some (ab_config_of sp)" "\<not> sp_sticky sp"
    "sum_list (map g_weight (sp_groups sp)) = 100"
  shows "\<exists>g\<in>set (sp_groups sp). snd (resolve X r n s) = Some (g_name g)"
proof -
  let ?h = "ucast (x_hash_session X s n) mod (100 :: u32)"
  have eq: "snd (resolve X r n s) = (case group_loop 0 ?h (sp_groups sp) of
      Some g \<Rightarrow> Some (g_name g) | None \<Rightarrow> map_option g_name (list_first (sp_groups sp)))"
    using assms by (simp add: resolve_def ab_config_of_def Let_def split: option.split)
  show ?thesis
  proof (cases "group_loop 0 ?h (sp_groups sp)")
    case None
    have "sp_groups sp \<noteq> []" using assms(3) by auto
    then show ?thesis using eq None by (cases "sp_groups sp") (simp_all add: list_first_def)
  next
    case (Some g)
    then show ?thesis using eq abw.pick_mem [OF Some] by auto
  qed
qed

text \<open>
  A proxy location of a validated block always has a pool to go to, whatever a service made from the block
  has done so far: through an A/B split that is not sticky, the pool of the group the session falls into;
  else its own pool or the block's first. The sum of the weights is taken at its 32 bits, as the code does.
\<close>

lemma validated_selects:
  assumes "validate X os cf = Inr ()" "hb \<in> set (cf_http cf)" "l \<in> set (hb_locations hb)"
    and "is_proxy_type (h_type (loc_handler l))"
    and "distinct (map sp_name (hb_ab_splits hb))" "\<forall>sp\<in>set (hb_ab_splits hb). \<not> sp_sticky sp"
    and hb: "hs_http_block h = hb"
    and router: "map_option ar_splits (hs_ab_router h) =
      (if hb_ab_splits hb = [] then None else Some (ar_splits (ab_router_new (hb_ab_splits hb))))"
  shows "\<exists>u. snd (select_upstream X h (loc_handler l) client) = Inr u
      \<and> (u \<in> set (hb_upstreams hb) \<or> h_upstream (loc_handler l) = Some u)"
proof -
  note b = validated_block [OF assms(1,2)]
  have loc: "check_location X hb l = Inr ()" using b assms(3) by (simp add: block_checks)
  show ?thesis
  proof (cases "h_ab_split (loc_handler l)")
    case None
    with loc assms(4) have "has_servers (h_upstream (loc_handler l)) \<or> has_servers (list_first (hb_upstreams hb))"
      by (simp add: check_location_def check_ok)
    with None hb show ?thesis
      by (auto simp: select_upstream_def has_servers_def list_first_def split: option.splits list.splits)
  next
    case (Some n)
    with loc assms(4) have "list_ex (\<lambda>s. sp_name s = n) (hb_ab_splits hb)"
      by (simp add: check_location_def check_ok)
    then obtain sp where sp: "sp \<in> set (hb_ab_splits hb)" "sp_name sp = n" by (auto simp: list_ex_iff)
    then have "check_ab_split hb sp = Inr ()" using b by (simp add: block_checks)
    then have sum: "sum_list (map g_weight (sp_groups sp)) = 100"
      and ups: "\<forall>g\<in>set (sp_groups sp). list_ex (\<lambda>u. up_name u = g_upstream g) (hb_upstreams hb)"
      by (simp_all add: check_ab_split_def sum_weights_def check_ok)
    obtain ab where r: "hs_ab_router h = Some ab" "ar_splits ab = ar_splits (ab_router_new (hb_ab_splits hb))"
      using sp(1) router by (auto split: if_splits)
    then have "ar_splits ab n = Some (ab_config_of sp)"
      using router_new_splits [OF assms(5) sp(1)] sp(2) by simp
    from resolve_in_groups [OF this _ sum] assms(6) sp(1) obtain g where g: "g \<in> set (sp_groups sp)"
      "snd (resolve X ab n (show_ip X client)) = Some (g_name g)" by blast
    from g(1) obtain g' where g': "find (\<lambda>x. g_name x = g_name g) (sp_groups sp) = Some g'"
      "g' \<in> set (sp_groups sp)" using find_ex [of "\<lambda>x. g_name x = g_name g" "sp_groups sp"]
      by (auto simp: list_ex_iff)
    from ups g'(2) obtain u where u: "resolve_upstream hb (g_upstream g') = Some u" "u \<in> set (hb_upstreams hb)"
      using resolve_upstream_known by blast
    have f: "find (\<lambda>s. sp_name s = n) (hb_ab_splits hb) = Some sp"
      using find_by_name [OF assms(5) sp(1)] sp(2) by simp
    show ?thesis
      using Some r(1) g(2) g' u f hb by (auto simp: select_upstream_def split: prod.split)
  qed
qed

section \<open>Examples\<close>

definition proxy_location :: "upstream_ref option \<Rightarrow> string option \<Rightarrow> location" where
  "proxy_location u ab =
     \<lparr>loc_pattern = ''/'', loc_match_type = ''prefix'',
      loc_handler = \<lparr>h_type = ''proxy'', h_root = None, h_upstream = u, h_target = None,
        h_status = None, h_ab_split = ab\<rparr>\<rparr>"

definition plain_config :: "http_block \<Rightarrow> config" where
  "plain_config hb =
     \<lparr>cf_global = \<lparr>gl_worker_processes = default_worker_processes, gl_error_log = default_error_log,
        gl_pid_file = None, gl_user = None, gl_timeouts = None\<rparr>,
      cf_http = [hb], cf_stream = [], cf_mail = None\<rparr>"

definition any_os :: os where
  "any_os = \<lparr>os_exists = (\<lambda>_. False), os_meta = (\<lambda>_. None), os_euid_root = False\<rparr>"

definition split_block :: http_block where
  "split_block =
     default_http_block [] \<lparr>
       hb_locations := [proxy_location None (Some ''x'')],
       hb_ab_splits := [sample_split ''x'' False ''app'' ''app''],
       hb_upstreams := [sample_pool]\<rparr>"

lemma split_block_fields:
  "hb_locations split_block = [proxy_location None (Some ''x'')]"
  "hb_ab_splits split_block = [sample_split ''x'' False ''app'' ''app'']"
  "hb_upstreams split_block = [sample_pool]" "hb_listen split_block = []"
  "hb_rewrites split_block = []" "hb_trusted_proxies split_block = None"
  "hb_connect_allowed_targets split_block = None" "hb_host_header_policy split_block = ''strict''"
  "hb_upstream_allowed_networks split_block = None" "hb_ssl split_block = None"
  "hb_allow_connect split_block = False" "hb_connect_upstream split_block = None"
  by (simp_all add: split_block_def default_http_block_def)

lemma sample_pool_address:
  "validate_upstream_address X ''app1:80'' None = Inr ()"
  "validate_upstream_address X ''app2:80'' None = Inr ()"
  by (simp_all add: validate_upstream_address_def rsplit_once_def ip_parse_eval Let_def)

lemma split_block_valid: "validate sample_ext any_os (plain_config split_block) = Inr ()"
proof -
  have "check_ab_split split_block (sample_split ''x'' False ''app'' ''app'') = Inr ()"
    by (simp add: check_ab_split_def check_ok sum_weights_def sample_split_def split_block_fields sample_pool_def)
  moreover have "check_location sample_ext split_block (proxy_location None (Some ''x'')) = Inr ()"
    by (simp add: check_location_def check_ok proxy_location_def split_block_fields is_proxy_type_def sample_split_def)
  moreover have "check_networks sample_ext split_block = Inr ()"
    by (simp add: check_networks_def check_ok split_block_fields sample_pool_def sample_pool_address)
  moreover have "check_upstreams split_block = Inr ()"
    by (simp add: check_upstreams_def check_upstream_def check_ok split_block_fields sample_pool_def proxy_location_def)
  ultimately have "check_http_block sample_ext any_os split_block = Inr ()"
    by (simp add: block_checks split_block_fields check_trusted_proxies_def check_connect_targets_def
        check_host_policy_def)
  then show ?thesis by (simp add: validate_def check_ok plain_config_def)
qed

section \<open>Where validation and the running service disagree\<close>

text \<open>
  Validation knows fewer ranges than the filter: a server in a range that only the filter
  restricts (\<^verbatim>\<open>0.0.0.0/8\<close>, \<^verbatim>\<open>100.64.0.0/10\<close>, the documentation blocks, the broadcast address) passes
  validation without an allowlist, and every request to it is then refused.
\<close>

theorem validation_misses_ranges:
  assumes "restricted_v4 v" "\<not> v_is_private (V4 v)"
  shows "validate_upstream_address X (show_ipv4 v @ '':'' @ show_nat (unat (port :: u16))) None = Inr ()
    \<and> is_upstream_allowed X (show_ipv4 v @ '':'' @ show_nat (unat port)) None \<noteq> Inr ()"
proof -
  have c: "CHR '':'' \<notin> set (show_nat (unat port))" by (rule not_in_show_nat) simp
  have "rsplit_once CHR '':'' (show_ipv4 v @ '':'' @ show_nat (unat port))
      = Some (show_ipv4 v, show_nat (unat port))"
    using rsplit_once_append [OF c] by simp
  moreover have "split_host_port (show_ipv4 v @ '':'' @ show_nat (unat port)) = (show_ipv4 v, Some port)"
    by (rule split_host_port_ipv4)
  ultimately show ?thesis
    using assms
    by (simp add: validate_upstream_address_def is_upstream_allowed_def parse_show_ipv4
        upf.permitted_iff listed_in_def parse_networks_def map_filter_def)
qed

theorem validation_misses_ranges_witness:
  "validate_upstream_address sample_ext (show_ipv4 (Ipv4 100 64 0 1) @ '':'' @ show_nat (unat (80 :: u16))) None
     = Inr ()
   \<and> is_upstream_allowed sample_ext (show_ipv4 (Ipv4 100 64 0 1) @ '':'' @ show_nat (unat (80 :: u16))) None
     \<noteq> Inr ()"
  by (rule validation_misses_ranges) (simp_all add: v_is_private_def)

text \<open>
  The weights of a split are summed at 32 bits: weights of 4294967295 and 101 pass for a sum of
  100.
\<close>

theorem split_weights_wrap:
  "check_ab_split split_block
     \<lparr>sp_name = ''x'', sp_sticky = False,
      sp_groups = [\<lparr>g_name = ''a'', g_upstream = ''app'', g_weight = 4294967295\<rparr>,
                   \<lparr>g_name = ''b'', g_upstream = ''app'', g_weight = 101\<rparr>]\<rparr> = Inr ()"
  by (simp add: check_ab_split_def check_ok sum_weights_def split_block_fields sample_pool_def)

text \<open>
  An inline pool without servers passes validation when the block has a shared pool, but the
  running service takes the inline one: every request gets a 502.
\<close>

theorem empty_inline_pool:
  "check_location X (split_block)
     (proxy_location (Some \<lparr>up_name = ''none'', up_servers = [], up_strategy = ''round-robin''\<rparr>) None) = Inr ()
   \<and> snd (dispatch_proxy X E h (loc_handler (proxy_location
        (Some \<lparr>up_name = ''none'', up_servers = [], up_strategy = ''round-robin''\<rparr>) None)) req remote) = Inl 502"
  by (simp add: check_location_def check_ok proxy_location_def is_proxy_type_def has_servers_def
      list_first_def split_block_fields sample_pool_def dispatch_proxy_def select_upstream_def candidates_def)

end
