(* ===== verification/Flexd_Tls.thy ===== *)
theory Flexd_Tls
  imports Flexd_Acme
begin

text \<open>
  \<^verbatim>\<open>tls.rs\<close>: from the TLS settings, or the paths of an issued certificate, to the acceptors. What the PEM
  readers and the TLS library make of bytes is a parameter; what is loaded, in which order, what is
  refused and what is offered to clients are the definitions here.
\<close>

section \<open>Certificates and keys\<close>

text \<open>
  \<open>rc_open\<close> is what opening and reading a file gives, \<open>rc_certs\<close>, \<open>rc_pkcs8\<close> and \<open>rc_rsa\<close> the PEM readers, which
  fail as a whole on a bad entry, \<open>rc_signing\<close> whether a signing key can be made, \<open>rc_single\<close> whether
  rustls takes the pair and \<open>rc_quic\<close> whether the QUIC configuration can be built from it.
\<close>

record rustls_calls =
  rc_open :: "string \<Rightarrow> string option"
  rc_certs :: "string \<Rightarrow> string list option"
  rc_pkcs8 :: "string \<Rightarrow> string list option"
  rc_rsa :: "string \<Rightarrow> string list option"
  rc_signing :: "string \<Rightarrow> bool"
  rc_single :: "string list \<Rightarrow> string \<Rightarrow> bool"
  rc_quic :: "string \<Rightarrow> string \<Rightarrow> bool"

datatype tls_error =
    OpenCertificate string | ParseCertificate string | NoCertificates string
  | OpenKey string | ParseRsaKey string | NoPrivateKeys string
  | SigningKey string
  | CertificateUnset | KeyUnset
  | ServerConfig | QuicConfig

definition load_certificate :: "rustls_calls \<Rightarrow> string \<Rightarrow> tls_error + string list" where
  "load_certificate R path =
     (case rc_open R path of
        None \<Rightarrow> Inl (OpenCertificate path)
      | Some pem \<Rightarrow>
          (case rc_certs R pem of
             None \<Rightarrow> Inl (ParseCertificate path)
           | Some certs \<Rightarrow> if certs = [] then Inl (NoCertificates path) else Inr certs))"

text \<open>A PKCS#8 parse error is not reported: the file is then read again for RSA keys.\<close>

definition load_private_key :: "rustls_calls \<Rightarrow> string \<Rightarrow> tls_error + string" where
  "load_private_key R path =
     (case rc_open R path of
        None \<Rightarrow> Inl (OpenKey path)
      | Some pem \<Rightarrow>
          (case Option.bind (rc_pkcs8 R pem) list_first of
             Some key \<Rightarrow> Inr key
           | None \<Rightarrow>
               (case rc_rsa R pem of
                  None \<Rightarrow> Inl (ParseRsaKey path)
                | Some keys \<Rightarrow>
                    (case list_first keys of
                       Some key \<Rightarrow> Inr key
                     | None \<Rightarrow> Inl (NoPrivateKeys path)))))"

record certified_key =
  ck_certs :: "string list"
  ck_key :: string

text \<open>\<^verbatim>\<open>acme::load_certified_key\<close>.\<close>

definition load_certified_key :: "rustls_calls \<Rightarrow> string \<Rightarrow> string \<Rightarrow> tls_error + certified_key" where
  "load_certified_key R cert_file key_file =
     (case load_certificate R cert_file of
        Inl e \<Rightarrow> Inl e
      | Inr certs \<Rightarrow>
          (case load_private_key R key_file of
             Inl e \<Rightarrow> Inl e
           | Inr key \<Rightarrow>
               if rc_signing R key then Inr \<lparr>ck_certs = certs, ck_key = key\<rparr>
               else Inl (SigningKey key_file)))"

section \<open>Acceptors\<close>

datatype tls_version = TLS12 | TLS13

definition proto_version :: "ext \<Rightarrow> string \<Rightarrow> tls_version option" where
  "proto_version X proto =
     (let p = to_uppercase (x_upper X) proto in
      if p = ''TLSV1.2'' then Some TLS12
      else if p = ''TLSV1.3'' then Some TLS13
      else None)"

definition tls_versions :: "ext \<Rightarrow> string list \<Rightarrow> tls_version list" where
  "tls_versions X protocols =
     (let versions = List.map_filter (proto_version X) protocols in
      if versions = [] then [TLS13, TLS12] else versions)"

text \<open>
  The certificates an acceptor answers with: one pair, or the resolver of an ACME block with its
  default; the resolver's challenge store is shared, and read at the handshake.
\<close>

datatype cert_source = Single certified_key | Resolver certified_key

record tls_acceptor =
  ta_versions :: "tls_version list"
  ta_certs :: cert_source
  ta_alpn :: "string list"

definition build_tls_acceptor :: "ext \<Rightarrow> rustls_calls \<Rightarrow> ssl_settings \<Rightarrow> tls_error + tls_acceptor" where
  "build_tls_acceptor X R ssl =
     (case ssl_certificate ssl of
        None \<Rightarrow> Inl CertificateUnset
      | Some cert_file \<Rightarrow>
          (case ssl_certificate_key ssl of
             None \<Rightarrow> Inl KeyUnset
           | Some key_file \<Rightarrow>
               (case load_certificate R cert_file of
                  Inl e \<Rightarrow> Inl e
                | Inr certs \<Rightarrow>
                    (case load_private_key R key_file of
                       Inl e \<Rightarrow> Inl e
                     | Inr key \<Rightarrow>
                         if rc_single R certs key
                         then Inr \<lparr>ta_versions = tls_versions X (ssl_protocols ssl),
                                   ta_certs = Single \<lparr>ck_certs = certs, ck_key = key\<rparr>,
                                   ta_alpn = [''h2'', ''http/1.1'']\<rparr>
                         else Inl ServerConfig))))"

definition build_tls_acceptor_acme ::
  "ext \<Rightarrow> rustls_calls \<Rightarrow> string \<Rightarrow> string \<Rightarrow> string list \<Rightarrow> tls_error + tls_acceptor" where
  "build_tls_acceptor_acme X R cert_file key_file protocols =
     (case load_certified_key R cert_file key_file of
        Inl e \<Rightarrow> Inl e
      | Inr dflt \<Rightarrow>
          Inr \<lparr>ta_versions = tls_versions X protocols, ta_certs = Resolver dflt,
               ta_alpn = [''h2'', ''http/1.1'', ''acme-tls/1'']\<rparr>)"

text \<open>The certificate a handshake gets, given the store as it is then.\<close>

definition acceptor_cert ::
  "tls_acceptor \<Rightarrow> certified_key challenge_store \<Rightarrow> string list option \<Rightarrow> string option
   \<Rightarrow> certified_key option" where
  "acceptor_cert a store alpn sni =
     (case ta_certs a of
        Single ck \<Rightarrow> Some ck
      | Resolver dflt \<Rightarrow> acme_resolve dflt store alpn sni)"

record quinn_config =
  qc_cert :: string
  qc_key :: string
  qc_alpn :: "string list"
  qc_max_uni :: nat
  qc_max_bidi :: nat

definition build_quinn_from_paths :: "rustls_calls \<Rightarrow> string \<Rightarrow> string \<Rightarrow> tls_error + quinn_config" where
  "build_quinn_from_paths R cert_file key_file =
     (case load_certificate R cert_file of
        Inl e \<Rightarrow> Inl e
      | Inr certs \<Rightarrow>
          (case list_first certs of
             None \<Rightarrow> Inl (NoCertificates cert_file)
           | Some cert \<Rightarrow>
               (case load_private_key R key_file of
                  Inl e \<Rightarrow> Inl e
                | Inr key \<Rightarrow>
                    if \<not> rc_single R [cert] key then Inl ServerConfig
                    else if \<not> rc_quic R cert key then Inl QuicConfig
                    else Inr \<lparr>qc_cert = cert, qc_key = key, qc_alpn = [''h3''],
                              qc_max_uni = 100, qc_max_bidi = 100\<rparr>)))"

definition build_quinn_server_config :: "rustls_calls \<Rightarrow> ssl_settings \<Rightarrow> tls_error + quinn_config" where
  "build_quinn_server_config R ssl =
     (case ssl_certificate ssl of
        None \<Rightarrow> Inl CertificateUnset
      | Some cert_file \<Rightarrow>
          (case ssl_certificate_key ssl of
             None \<Rightarrow> Inl KeyUnset
           | Some key_file \<Rightarrow> build_quinn_from_paths R cert_file key_file))"

section \<open>What the acceptors offer\<close>

lemma check_protocol_version: "check_protocol X p = Inr () \<Longrightarrow> \<exists>v. proto_version X p = Some v"
  by (auto simp: check_protocol_def proto_version_def Let_def split: if_splits)

lemma map_filter_all: "\<forall>x\<in>set xs. f x \<noteq> None \<Longrightarrow> List.map_filter f xs = map (the \<circ> f) xs"
  by (induction xs) (auto simp: map_filter_simps)

text \<open>
  The versions of a validated block are the configured ones, in order and each of them: validation
  accepts no name that the acceptor would leave out, and the default of both versions is for an
  empty list only.
\<close>

theorem validated_versions:
  assumes "\<forall>p\<in>set protocols. check_protocol X p = Inr ()" "protocols \<noteq> []"
  shows "map Some (tls_versions X protocols) = map (proto_version X) protocols"
proof -
  have all: "\<forall>p\<in>set protocols. proto_version X p \<noteq> None"
    using assms(1) check_protocol_version by fastforce
  have m: "List.map_filter (proto_version X) protocols = map (the \<circ> proto_version X) protocols"
    by (rule map_filter_all [OF all])
  have "map Some (map (the \<circ> proto_version X) protocols) = map (proto_version X) protocols"
    using all by (simp add: list.map_comp)
  with m assms(2) show ?thesis by (simp add: tls_versions_def)
qed

lemma acceptor_has_cert:
  assumes "build_tls_acceptor X R ssl = Inr a \<or> build_tls_acceptor_acme X R cf kf protocols = Inr a"
  shows "\<exists>ck. (ta_certs a = Single ck \<or> ta_certs a = Resolver ck) \<and> ck_certs ck \<noteq> []
    \<and> ''h2'' \<in> set (ta_alpn a) \<and> ''http/1.1'' \<in> set (ta_alpn a) \<and> ta_versions a \<noteq> []"
  using assms
  by (auto simp: build_tls_acceptor_def build_tls_acceptor_acme_def load_certified_key_def
      load_certificate_def tls_versions_def Let_def split: option.splits sum.splits if_splits)

text \<open>A library that reads every file as one certificate and one key, for the examples.\<close>

definition sample_rustls :: rustls_calls where
  "sample_rustls =
     \<lparr>rc_open = (\<lambda>_. Some ''pem''), rc_certs = (\<lambda>_. Some [''cert'']), rc_pkcs8 = (\<lambda>_. Some [''key'']),
      rc_rsa = (\<lambda>_. None), rc_signing = (\<lambda>_. True), rc_single = (\<lambda>_ _. True), rc_quic = (\<lambda>_ _. True)\<rparr>"

end
