(* ===== verification/Bare_Lf.thy ===== *)
theory Bare_Lf
  imports Flexd_Prelude
begin

text \<open>
  \<^verbatim>\<open>server.rs\<close>: the check of a plain connection's first bytes for line feeds without a carriage return,
  and the wrapper that gives these bytes back to the HTTP parser. The lemmas say what the check
  decides and that the wrapper changes nothing of what the client sent.
\<close>

section \<open>The check\<close>

abbreviation CR :: char where "CR \<equiv> byte 13"
abbreviation LF :: char where "LF \<equiv> byte 10"

text \<open>\<^verbatim>\<open>windows(4).position(..)\<close>: the first index at which a blank line starts.\<close>

fun blank_line_at :: "string \<Rightarrow> nat option" where
  "blank_line_at [] = None"
| "blank_line_at (c # cs) =
     (if prefix [CR, LF, CR, LF] (c # cs) then Some 0 else map_option Suc (blank_line_at cs))"

definition header_end :: "string \<Rightarrow> nat" where
  "header_end buf = (case blank_line_at buf of Some p \<Rightarrow> p + 4 | None \<Rightarrow> length buf)"

definition has_bare_lf :: "string \<Rightarrow> bool" where
  "has_bare_lf buf =
     (let header_section = take (header_end buf) buf in
      list_ex (\<lambda>i. header_section ! i = LF \<and> (i = 0 \<or> header_section ! (i - 1) \<noteq> CR))
        [0..<length header_section])"

section \<open>The wrapper\<close>

text \<open>
  The wrapped connection is a state with a read operation: what a read into a buffer with room for so
  many bytes gives, and the connection after it.
\<close>

datatype read_poll = Pending | Failed | Ready string

record 's bare_lf_guard =
  bg_inner :: 's
  bg_prefix :: string
  bg_prefix_pos :: nat
  bg_rejected :: bool

definition guard_new :: "'s \<Rightarrow> string \<Rightarrow> bool \<Rightarrow> 's bare_lf_guard" where
  "guard_new inner pre rejected =
     \<lparr>bg_inner = inner, bg_prefix = pre, bg_prefix_pos = 0, bg_rejected = rejected\<rparr>"

definition guard_poll_read ::
  "('s \<Rightarrow> nat \<Rightarrow> 's \<times> read_poll) \<Rightarrow> 's bare_lf_guard \<Rightarrow> nat \<Rightarrow> 's bare_lf_guard \<times> read_poll" where
  "guard_poll_read rd g room =
     (if bg_rejected g then (g, Ready [])
      else if bg_prefix_pos g < length (bg_prefix g)
      then (let remaining = drop (bg_prefix_pos g) (bg_prefix g);
                to_copy = min (length remaining) room
            in (g \<lparr>bg_prefix_pos := bg_prefix_pos g + to_copy\<rparr>, Ready (take to_copy remaining)))
      else (case rd (bg_inner g) room of (inner, r) \<Rightarrow> (g \<lparr>bg_inner := inner\<rparr>, r)))"

text \<open>
  The write half passes everything on, to a connection that takes some of the bytes of a write, flushes and
  closes: \<open>wr\<close>, \<open>fl\<close> and \<open>sd\<close>.
\<close>

datatype write_poll = WritePending | WriteFailed | Wrote nat

definition guard_poll_write ::
  "('s \<Rightarrow> string \<Rightarrow> 's \<times> write_poll) \<Rightarrow> 's bare_lf_guard \<Rightarrow> string \<Rightarrow> 's bare_lf_guard \<times> write_poll" where
  "guard_poll_write wr g buf = (case wr (bg_inner g) buf of (inner, r) \<Rightarrow> (g \<lparr>bg_inner := inner\<rparr>, r))"

definition guard_poll_flush ::
  "('s \<Rightarrow> 's \<times> write_poll) \<Rightarrow> 's bare_lf_guard \<Rightarrow> 's bare_lf_guard \<times> write_poll" where
  "guard_poll_flush fl g = (case fl (bg_inner g) of (inner, r) \<Rightarrow> (g \<lparr>bg_inner := inner\<rparr>, r))"

definition guard_poll_shutdown ::
  "('s \<Rightarrow> 's \<times> write_poll) \<Rightarrow> 's bare_lf_guard \<Rightarrow> 's bare_lf_guard \<times> write_poll" where
  "guard_poll_shutdown sd g = (case sd (bg_inner g) of (inner, r) \<Rightarrow> (g \<lparr>bg_inner := inner\<rparr>, r))"

section \<open>A plain connection\<close>

text \<open>
  \<^verbatim>\<open>serve_http1_with_bare_lf_check\<close> up to the HTTP server: what the first read, of at most 4096 bytes and
  five seconds, came to, and what is done then.
\<close>

datatype first_read = ReadBytes string | ReadError | ReadTimeout

datatype 's plain_action =
    CloseSilently
  | ReportError
  | Refuse string
  | ServeThrough "'s bare_lf_guard"

definition bad_request_bytes :: string where
  "bad_request_bytes =
     ''HTTP/1.1 400 Bad Request'' @ [CR, LF] @ ''Content-Length: 0'' @ [CR, LF]
       @ ''Connection: close'' @ [CR, LF, CR, LF]"

definition serve_http1_with_bare_lf_check :: "first_read \<Rightarrow> 's \<Rightarrow> 's plain_action" where
  "serve_http1_with_bare_lf_check r stream =
     (case r of
        ReadError \<Rightarrow> ReportError
      | ReadTimeout \<Rightarrow> CloseSilently
      | ReadBytes buf \<Rightarrow>
          if buf = [] then CloseSilently
          else if has_bare_lf buf then Refuse bad_request_bytes
          else ServeThrough (guard_new stream buf False))"

section \<open>What the check decides\<close>

lemma blank_line_at_Some:
  "blank_line_at buf = Some p \<Longrightarrow>
     p + 4 \<le> length buf \<and> take 4 (drop p buf) = [CR, LF, CR, LF]
     \<and> (\<forall>q<p. \<not> prefix [CR, LF, CR, LF] (drop q buf))"
proof (induction buf arbitrary: p rule: blank_line_at.induct)
  case (2 c cs)
  show ?case
  proof (cases "prefix [CR, LF, CR, LF] (c # cs)")
    case True
    with 2(2) show ?thesis by (auto simp: prefix_def)
  next
    case False
    with 2(2) obtain p' where p: "p = Suc p'" "blank_line_at cs = Some p'"
      by (auto simp del: prefix_code)
    from 2(1) [OF False p(2)] False show ?thesis
      by (auto simp: p(1) nth_Cons less_Suc_eq_0_disj simp del: prefix_code)
  qed
qed simp

lemma header_end_le: "header_end buf \<le> length buf"
  by (auto simp: header_end_def dest: blank_line_at_Some split: option.split)

lemma has_bare_lf_iff:
  "has_bare_lf buf \<longleftrightarrow> (\<exists>i<header_end buf. buf ! i = LF \<and> (i = 0 \<or> buf ! (i - 1) \<noteq> CR))"
proof -
  have "length (take (header_end buf) buf) = header_end buf" using header_end_le [of buf] by simp
  moreover have "take (header_end buf) buf ! (i - 1) = buf ! (i - 1)" if "i < header_end buf" for i
    using that by simp
  ultimately show ?thesis
    by (auto simp: has_bare_lf_def Let_def list_ex_iff)
qed

text \<open>
  A connection that is served starts with bytes in which every line feed of the header section, up to
  and including the first blank line, follows a carriage return; a body after the blank line is not
  looked at. A refused one gets exactly one answer, and nothing of it reaches the HTTP server.
\<close>

theorem plain_prefix_checked:
  "case serve_http1_with_bare_lf_check r stream of
     ServeThrough g \<Rightarrow>
       \<exists>buf. r = ReadBytes buf \<and> buf \<noteq> [] \<and> g = guard_new stream buf False
         \<and> (\<forall>i<header_end buf. buf ! i = LF \<longrightarrow> 0 < i \<and> buf ! (i - 1) = CR)
   | Refuse out \<Rightarrow>
       \<exists>buf i. r = ReadBytes buf \<and> out = bad_request_bytes \<and> i < header_end buf
         \<and> buf ! i = LF \<and> (i = 0 \<or> buf ! (i - 1) \<noteq> CR)
   | CloseSilently \<Rightarrow> r = ReadTimeout \<or> r = ReadBytes []
   | ReportError \<Rightarrow> r = ReadError"
  by (auto simp: serve_http1_with_bare_lf_check_def has_bare_lf_iff split: first_read.split)

section \<open>What the parser reads\<close>

text \<open>
  The client's bytes as the connection under the wrapper: a read gives some of what has arrived, at
  least one byte while there is any and room for it. \<open>chunk\<close> is how many are there.
\<close>

definition byte_source :: "(nat \<Rightarrow> nat) \<Rightarrow> string \<Rightarrow> nat \<Rightarrow> string \<times> read_poll" where
  "byte_source chunk s room =
     (let n = min (length s) (min room (max 1 (chunk (length s)))) in (drop n s, Ready (take n s)))"

text \<open>The bytes read with a sequence of buffer sizes.\<close>

fun read_run :: "('s \<Rightarrow> nat \<Rightarrow> 's \<times> read_poll) \<Rightarrow> 's bare_lf_guard \<Rightarrow> nat list \<Rightarrow> 's bare_lf_guard \<times> string" where
  "read_run rd g [] = (g, [])"
| "read_run rd g (room # rooms) =
     (case guard_poll_read rd g room of
        (g, Ready bs) \<Rightarrow> (case read_run rd g rooms of (g, rest) \<Rightarrow> (g, bs @ rest))
      | (g, _) \<Rightarrow> read_run rd g rooms)"

text \<open>What is still to come through a wrapper.\<close>

definition to_come :: "string bare_lf_guard \<Rightarrow> string" where
  "to_come g = (if bg_rejected g then [] else drop (bg_prefix_pos g) (bg_prefix g) @ bg_inner g)"

lemma guard_poll_read_bytes:
  "\<exists>bs g'. guard_poll_read (byte_source chunk) g room = (g', Ready bs)
     \<and> to_come g = bs @ to_come g' \<and> length bs \<le> room
     \<and> (0 < room \<and> to_come g \<noteq> [] \<longrightarrow> bs \<noteq> [])"
proof -
  consider (rejected) "bg_rejected g"
    | (prefix) "\<not> bg_rejected g" "bg_prefix_pos g < length (bg_prefix g)"
    | (inner) "\<not> bg_rejected g" "\<not> bg_prefix_pos g < length (bg_prefix g)" by blast
  then show ?thesis
  proof cases
    case prefix
    let ?rest = "drop (bg_prefix_pos g) (bg_prefix g)"
    let ?n = "min (length ?rest) room"
    have "guard_poll_read (byte_source chunk) g room =
        (g \<lparr>bg_prefix_pos := bg_prefix_pos g + ?n\<rparr>, Ready (take ?n ?rest))"
      using prefix by (simp add: guard_poll_read_def Let_def)
    moreover have "to_come g = take ?n ?rest @ to_come (g \<lparr>bg_prefix_pos := bg_prefix_pos g + ?n\<rparr>)"
      using prefix by (simp add: to_come_def) (metis add.commute append_take_drop_id drop_drop)
    moreover have "take ?n ?rest \<noteq> []" if "0 < room" using prefix that by simp
    ultimately show ?thesis by (intro exI [of _ "take ?n ?rest"]) auto
  next
    case inner
    let ?s = "bg_inner g"
    let ?n = "min (length ?s) (min room (max 1 (chunk (length ?s))))"
    have "guard_poll_read (byte_source chunk) g room = (g \<lparr>bg_inner := drop ?n ?s\<rparr>, Ready (take ?n ?s))"
      using inner by (simp add: guard_poll_read_def byte_source_def Let_def)
    moreover have "to_come g = take ?n ?s @ to_come (g \<lparr>bg_inner := drop ?n ?s\<rparr>)"
      using inner by (simp add: to_come_def)
    moreover have "take ?n ?s \<noteq> []" if "0 < room" "to_come g \<noteq> []"
      using inner that by (auto simp: to_come_def)
    ultimately show ?thesis by (intro exI [of _ "take ?n ?s"]) auto
  qed (auto simp: guard_poll_read_def to_come_def)
qed

lemma read_run_bytes:
  "\<exists>g' out. read_run (byte_source chunk) g rooms = (g', out) \<and> to_come g = out @ to_come g'"
proof (induction rooms arbitrary: g)
  case (Cons room rooms)
  obtain bs g1 where p: "guard_poll_read (byte_source chunk) g room = (g1, Ready bs)"
    "to_come g = bs @ to_come g1" using guard_poll_read_bytes [of chunk g room] by blast
  with Cons.IH [of g1] show ?case by auto
qed simp

lemma read_run_progress:
  "\<forall>room\<in>set rooms. 0 < room \<Longrightarrow>
     min (length rooms) (length (to_come g)) \<le> length (snd (read_run (byte_source chunk) g rooms))"
proof (induction rooms arbitrary: g)
  case (Cons room rooms)
  obtain bs g1 where p: "guard_poll_read (byte_source chunk) g room = (g1, Ready bs)"
    "to_come g = bs @ to_come g1" "to_come g \<noteq> [] \<longrightarrow> bs \<noteq> []"
    using guard_poll_read_bytes [of chunk g room] Cons.prems by auto
  obtain g2 rest where r: "read_run (byte_source chunk) g1 rooms = (g2, rest)"
    by (cases "read_run (byte_source chunk) g1 rooms")
  have IH: "min (length rooms) (length (to_come g1)) \<le> length rest" using Cons.IH [of g1] Cons.prems r by simp
  have len: "length (to_come g) = length bs + length (to_come g1)" using p(2) by simp
  have out: "length (snd (read_run (byte_source chunk) g (room # rooms))) = length bs + length rest"
    using p(1) r by simp
  have "length (to_come g) = 0 \<or> 0 < length bs" using p(3) by auto
  then have "Suc (length rooms) \<le> length bs + length rest \<or> length (to_come g) \<le> length bs + length rest"
    using IH len unfolding min_le_iff_disj by linarith
  then show ?case unfolding out min_le_iff_disj by simp
qed simp

text \<open>
  C29. Peeking loses nothing and adds nothing. Whatever the client sent is \<open>first @ rest\<close>, with \<open>first\<close> what
  the first read got; then through the wrapper the HTTP server reads exactly these bytes, in order,
  whatever the sizes of its buffers and the chunks in which the rest arrives, and with enough reads
  all of them.
\<close>

theorem peek_transparent:
  assumes "serve_http1_with_bare_lf_check (ReadBytes first) rest = ServeThrough g"
    and "\<forall>room\<in>set rooms. 0 < room"
  shows "prefix (snd (read_run (byte_source chunk) g rooms)) (first @ rest)
    \<and> (length (first @ rest) \<le> length rooms
       \<longrightarrow> snd (read_run (byte_source chunk) g rooms) = first @ rest)"
proof -
  have g: "to_come g = first @ rest"
    using assms(1)
    by (auto simp: serve_http1_with_bare_lf_check_def guard_new_def to_come_def split: if_splits)
  let ?n = "length (snd (read_run (byte_source chunk) g rooms))"
  obtain left where out: "first @ rest = snd (read_run (byte_source chunk) g rooms) @ left"
    using read_run_bytes [of chunk g rooms] g by auto
  then have "prefix (snd (read_run (byte_source chunk) g rooms)) (first @ rest)"
    by (rule prefixI)
  moreover have "snd (read_run (byte_source chunk) g rooms) = first @ rest"
    if "length (first @ rest) \<le> length rooms"
  proof -
    have "length (first @ rest) \<le> ?n"
      using read_run_progress [OF assms(2), of g chunk] that g by simp
    moreover have "length (first @ rest) = ?n + length left" unfolding out by simp
    ultimately have "left = []" by simp
    then show ?thesis using out by simp
  qed
  ultimately show ?thesis by blast
qed

theorem peek_transparent_witness:
  "snd (read_run (byte_source (\<lambda>_. 2)) (guard_new ''ho'' ''GET / '' False) (replicate 8 5)) = ''GET / ho''"
proof -
  have b: "\<not> has_bare_lf ''GET / ''" by code_simp
  then have "serve_http1_with_bare_lf_check (ReadBytes ''GET / '') ''ho''
      = ServeThrough (guard_new ''ho'' ''GET / '' False)"
    by (simp add: serve_http1_with_bare_lf_check_def)
  from peek_transparent [OF this, of "replicate 8 5" "\<lambda>_. 2"] show ?thesis by simp
qed

text \<open>Writing and closing through the wrapper is writing and closing directly, and reads do not notice.\<close>

datatype write_op = Write string | Flush | Close

fun write_run ::
  "('s \<Rightarrow> string \<Rightarrow> 's \<times> write_poll) \<Rightarrow> ('s \<Rightarrow> 's \<times> write_poll) \<Rightarrow> ('s \<Rightarrow> 's \<times> write_poll)
   \<Rightarrow> write_op list \<Rightarrow> 's \<Rightarrow> 's \<times> write_poll list" where
  "write_run wr fl sd [] s = (s, [])"
| "write_run wr fl sd (op # ops) s =
     (case (case op of Write buf \<Rightarrow> wr s buf | Flush \<Rightarrow> fl s | Close \<Rightarrow> sd s) of
        (s, r) \<Rightarrow> (case write_run wr fl sd ops s of (s, rs) \<Rightarrow> (s, r # rs)))"

lemma writes_transparent:
  "write_run (guard_poll_write wr) (guard_poll_flush fl) (guard_poll_shutdown sd) ops g =
     (case write_run wr fl sd ops (bg_inner g) of (inner, rs) \<Rightarrow> (g \<lparr>bg_inner := inner\<rparr>, rs))"
  by (induction ops arbitrary: g)
    (auto simp: guard_poll_write_def guard_poll_flush_def guard_poll_shutdown_def split: prod.split write_op.split)

text \<open>
  Only the first read is looked at, although the comment says that connections containing a bare
  line feed are rejected: when the bare line feed comes with a later read it reaches the HTTP server.
\<close>

theorem bare_lf_in_second_read:
  "\<exists>g. serve_http1_with_bare_lf_check (ReadBytes ''GET / HTTP/1.1'') ([LF] @ ''Host: a'' @ [LF, LF])
        = ServeThrough g
     \<and> to_come g = ''GET / HTTP/1.1'' @ [LF] @ ''Host: a'' @ [LF, LF]
     \<and> has_bare_lf (to_come g)"
proof -
  have "\<not> has_bare_lf ''GET / HTTP/1.1''" "has_bare_lf (''GET / HTTP/1.1'' @ [LF] @ ''Host: a'' @ [LF, LF])"
    by code_simp+
  then show ?thesis
    by (simp add: serve_http1_with_bare_lf_check_def guard_new_def to_come_def)
qed

end
