(* ===== verification/Rate_Limit.thy ===== *)
theory Rate_Limit
  imports Flexd_Prelude
begin

text \<open>
  \<^verbatim>\<open>security/rate_limit.rs\<close>: the per-connection tracker of HTTP/2 stream resets. The clock is an
  argument: \<^verbatim>\<open>Instant::now()\<close> is read once per call, and instants never go back. The lemmas bound
  what the tracker tolerates and what it terminates.
\<close>

section \<open>Operations\<close>

record window_state =
  ws_count :: usize
  ws_started :: instant

record reset_tracker =
  rt_max :: usize
  rt_window :: duration
  rt_state :: window_state

definition tracker_new :: "usize \<Rightarrow> duration \<Rightarrow> instant \<Rightarrow> reset_tracker" where
  "tracker_new mx window now =
     \<lparr>rt_max = mx, rt_window = window, rt_state = \<lparr>ws_count = 0, ws_started = now\<rparr>\<rparr>"

text \<open>
  \<^verbatim>\<open>duration_since\<close> saturates at zero, as subtraction of naturals does; the counter wraps at 64
  bits.
\<close>

definition record_reset :: "reset_tracker \<Rightarrow> instant \<Rightarrow> reset_tracker \<times> bool" where
  "record_reset t now =
     (let st = rt_state t;
          st = (if now - ws_started st > rt_window t
                then st \<lparr>ws_count := 0, ws_started := now\<rparr> else st);
          st = st \<lparr>ws_count := ws_count st + 1\<rparr>
      in (t \<lparr>rt_state := st\<rparr>, rt_max t < ws_count st))"

definition tracker_current :: "reset_tracker \<Rightarrow> usize" where
  "tracker_current t = ws_count (rt_state t)"

text \<open>The verdicts on a sequence of resets, and the tracker after it.\<close>

fun record_run :: "reset_tracker \<Rightarrow> instant list \<Rightarrow> bool list" where
  "record_run t [] = []"
| "record_run t (now # ts) =
     (case record_reset t now of (t', b) \<Rightarrow> b # record_run t' ts)"

definition record_all :: "reset_tracker \<Rightarrow> instant list \<Rightarrow> reset_tracker" where
  "record_all t ts = fold (\<lambda>now t. fst (record_reset t now)) ts t"

section \<open>Inside one window\<close>

abbreviation started :: "reset_tracker \<Rightarrow> instant" where
  "started t \<equiv> ws_started (rt_state t)"

lemma unat_Suc: "unat (w :: usize) + 1 < 2 ^ 64 \<Longrightarrow> unat (w + 1) = unat w + 1"
  using unat_add_lem [of w 1] by simp

lemma record_reset_keeps [simp]:
  "rt_max (fst (record_reset t now)) = rt_max t"
  "rt_window (fst (record_reset t now)) = rt_window t"
  by (simp_all add: record_reset_def Let_def)

lemma record_reset_inside:
  assumes "now \<le> started t + rt_window t"
  shows "started (fst (record_reset t now)) = started t"
    "tracker_current (fst (record_reset t now)) = tracker_current t + 1"
    "snd (record_reset t now) \<longleftrightarrow> rt_max t < tracker_current t + 1"
  using assms by (auto simp: record_reset_def Let_def tracker_current_def)

lemma record_reset_outside:
  assumes "started t + rt_window t < now"
  shows "started (fst (record_reset t now)) = now"
    "tracker_current (fst (record_reset t now)) = 1"
    "snd (record_reset t now) \<longleftrightarrow> rt_max t < 1"
  using assms by (auto simp: record_reset_def Let_def tracker_current_def)

lemma record_run_Cons:
  "record_run t (now # ts) = snd (record_reset t now) # record_run (fst (record_reset t now)) ts"
  by (simp split: prod.split)

declare record_run.simps(2) [simp del]
declare record_run_Cons [simp]

lemma record_run_inside:
  assumes "\<forall>x\<in>set ts. x \<le> started t + rt_window t"
    and "unat (tracker_current t) + length ts < 2 ^ 64"
  shows "record_run t ts =
    map (\<lambda>i. unat (rt_max t) < unat (tracker_current t) + i) [1..<length ts + 1]"
  using assms
proof (induction ts arbitrary: t)
  case Nil
  then show ?case by simp
next
  case (Cons x ts)
  let ?t = "fst (record_reset t x)"
  have x: "x \<le> started t + rt_window t" using Cons.prems(1) by simp
  note step = record_reset_inside [OF x]
  have c: "unat (tracker_current ?t) = unat (tracker_current t) + 1"
    unfolding step using Cons.prems(2) by (intro unat_Suc) simp
  have "record_run ?t ts = map (\<lambda>i. unat (rt_max t) < unat (tracker_current t) + Suc i)
      [1..<length ts + 1]"
    using Cons.IH [of ?t] Cons.prems c by (simp add: step(1))
  moreover have "snd (record_reset t x) \<longleftrightarrow> unat (rt_max t) < unat (tracker_current t) + 1"
    using c by (simp add: step word_less_nat_alt)
  ultimately show ?case
    by (simp add: upt_conv_Cons map_Suc_upt [symmetric] comp_def del: upt_Suc map_Suc_upt)
qed

lemma True_in_run_inside:
  assumes "\<forall>x\<in>set ts. x \<le> started t + rt_window t"
    and "unat (tracker_current t) + length ts < 2 ^ 64"
    and "ts \<noteq> []" "unat (rt_max t) < unat (tracker_current t) + length ts"
  shows "True \<in> set (record_run t ts)"
proof -
  have "length ts \<in> set [1..<length ts + 1]" using assms(3) by (cases ts) auto
  then show ?thesis
    unfolding record_run_inside [OF assms(1,2)] using assms(4) by (force simp del: upt_Suc)
qed

section \<open>The counter and the resets it counts\<close>

lemma record_all_snoc: "record_all t (ts @ [x]) = fst (record_reset (record_all t ts) x)"
  by (simp add: record_all_def)

lemma filter_le_mono:
  "a \<le> (b::nat) \<Longrightarrow> length (filter (\<lambda>x. b \<le> x) xs) \<le> length (filter (\<lambda>x. a \<le> x) xs)"
  by (induction xs) auto

lemma record_all_counts:
  assumes "sorted (t0 # ts)" "length ts < 2 ^ 64" "t = record_all (tracker_new mx w t0) ts"
  shows "rt_max t = mx \<and> rt_window t = w \<and> started t \<in> set (t0 # ts)
    \<and> unat (tracker_current t) \<le> length (filter (\<lambda>x. started t \<le> x) ts)"
  using assms
proof (induction ts arbitrary: t rule: rev_induct)
  case Nil
  then show ?case by (simp add: record_all_def tracker_new_def tracker_current_def)
next
  case (snoc x ts)
  let ?t = "record_all (tracker_new mx w t0) ts"
  have IH: "rt_max ?t = mx" "rt_window ?t = w" "started ?t \<in> set (t0 # ts)"
    "unat (tracker_current ?t) \<le> length (filter (\<lambda>x. started ?t \<le> x) ts)"
    using snoc.IH [of ?t] snoc.prems by (auto simp: sorted_append)
  have t: "t = fst (record_reset ?t x)" using snoc.prems(3) by (simp only: record_all_snoc)
  have x: "y \<le> x" if "y \<in> set (t0 # ts)" for y
    using that snoc.prems(1) by (auto simp: sorted_append)
  show ?case
  proof (cases "x \<le> started ?t + rt_window ?t")
    case True
    have "unat (tracker_current ?t) + 1 < 2 ^ 64"
      using snoc.prems(2) order.trans [OF IH(4) length_filter_le] by simp
    with True IH x [OF IH(3)] show ?thesis
      by (auto simp: t record_reset_inside unat_Suc)
  next
    case False
    then have out: "started ?t + rt_window ?t < x" by simp
    with out IH show ?thesis by (simp add: t record_reset_outside)
  qed
qed

section \<open>Properties\<close>

text \<open>
  Within one window the tracker is exact: the first \<open>max\<close> resets pass and every later one is
  reported.
\<close>

theorem window_exact:
  assumes "\<forall>x\<in>set ts. x \<le> t0 + window" "length ts < 2 ^ 64"
  shows "record_run (tracker_new mx window t0) ts =
    map (\<lambda>i. unat mx < i) [1..<length ts + 1]"
  using record_run_inside [of ts "tracker_new mx window t0"] assms
  by (simp add: tracker_new_def tracker_current_def)

theorem window_exact_witness:
  "record_run (tracker_new 2 10 0) [1, 2, 3] = [False, False, True]"
proof -
  have "record_run (tracker_new 2 10 0) [1, 2, 3]
      = map (\<lambda>i. unat (2 :: usize) < i) [1..<length [1, 2, 3 :: nat] + 1]"
    by (rule window_exact) simp_all
  then show ?thesis by (simp add: upt_rec)
qed

text \<open>
  The tracker reports only real floods: when a reset is reported, more than \<open>max\<close> resets, that
  one included, happened within the last window's length.
\<close>

theorem reported_is_flood:
  assumes "sorted (t0 # ts @ [now])" "length ts + 1 < 2 ^ 64"
    and "snd (record_reset (record_all (tracker_new mx w t0) ts) now)"
  shows "unat mx < length (filter (\<lambda>x. now - w \<le> x) (ts @ [now]))"
proof -
  let ?t = "record_all (tracker_new mx w t0) ts" and ?t' = "record_all (tracker_new mx w t0) (ts @ [now])"
  have t: "rt_max ?t = mx" "rt_window ?t = w"
    using record_all_counts [of t0 ts ?t mx w] assms(1,2) by (simp_all add: sorted_append)
  have t': "unat (tracker_current ?t') \<le> length (filter (\<lambda>x. started ?t' \<le> x) (ts @ [now]))"
    using record_all_counts [of t0 "ts @ [now]" ?t' mx w] assms(1,2) by simp
  have "mx < tracker_current ?t' \<and> now - w \<le> started ?t'"
    using assms(3) t record_reset_inside [of now ?t] record_reset_outside [of ?t now]
    by (cases "now \<le> started ?t + rt_window ?t") (auto simp: record_all_snoc)
  then have m: "unat mx < unat (tracker_current ?t')" and s: "now - w \<le> started ?t'"
    by (simp_all add: word_less_nat_alt)
  note m
  also note t'
  also have "length (filter (\<lambda>x. started ?t' \<le> x) (ts @ [now])) \<le> length (filter (\<lambda>x. now - w \<le> x) (ts @ [now]))"
    by (rule filter_le_mono [OF s])
  finally show ?thesis .
qed

theorem reported_is_flood_witness:
  "unat (2 :: usize) < length (filter (\<lambda>x. 5 - 10 \<le> x) ([1, 3] @ [5 :: nat]))"
  by (rule reported_is_flood [where ?t0.0 = 0])
     (simp_all add: record_all_def tracker_new_def record_reset_def)

text \<open>
  The window is fixed, not sliding as documented: with a limit of 3 per 10, the five resets at
  9, 10, 11, 12 and 13 follow each other within 4 units and none is reported.
\<close>

theorem window_not_sliding:
  "record_run (tracker_new 3 10 0) [9, 10, 11, 12, 13] = [False, False, False, False, False]"
  by (simp add: tracker_new_def record_reset_def)

text \<open>
  No burst of more than twice the limit gets through: if more than \<open>2 * max\<close> resets fall within
  one window's length of each other, some of them is reported, wherever the tracker's own window
  happens to start.
\<close>

theorem burst_detected:
  assumes "sorted ts" "\<forall>x\<in>set ts. a \<le> x \<and> x \<le> a + rt_window t"
    and "2 * unat (rt_max t) < length ts"
    and "unat (tracker_current t) + length ts < 2 ^ 64"
  shows "True \<in> set (record_run t ts)"
proof -
  have "True \<in> set (record_run t ts) \<or> length ts \<le> (unat (rt_max t) - unat (tracker_current t)) + unat (rt_max t)"
    using assms(1,2,4)
  proof (induction ts arbitrary: t)
    case Nil
    then show ?case by simp
  next
    case (Cons x ts)
    let ?t = "fst (record_reset t x)"
    show ?case
    proof (cases "x \<le> started t + rt_window t")
      case True
      note step = record_reset_inside [OF True]
      have c: "unat (tracker_current ?t) = unat (tracker_current t) + 1"
        unfolding step using Cons.prems(3) by (intro unat_Suc) simp
      have "True \<in> set (record_run ?t ts)
          \<or> length ts \<le> (unat (rt_max t) - unat (tracker_current ?t)) + unat (rt_max t)"
        using Cons.IH [of ?t] Cons.prems c by simp
      then show ?thesis
        using c step(3) unfolding step(2) word_less_nat_alt by auto
    next
      case False
      then have out: "started t + rt_window t < x" by simp
      note step = record_reset_outside [OF out]
      have r: "\<forall>y\<in>set ts. y \<le> started ?t + rt_window ?t"
        using Cons.prems(2) by (force simp: step)
      show ?thesis
      proof (cases "unat (rt_max t) < 1 + length ts")
        case True
        show ?thesis
        proof (cases "ts = []")
          case True
          with \<open>unat (rt_max t) < 1 + length ts\<close> show ?thesis
            by (simp add: step word_less_nat_alt)
        next
          case False
          have "True \<in> set (record_run ?t ts)"
            by (rule True_in_run_inside [OF r])
               (use Cons.prems(3) True False in \<open>simp_all add: step\<close>)
          then show ?thesis by simp
        qed
      next
        case False
        then show ?thesis by simp
      qed
    qed
  qed
  then show ?thesis using assms(3) by linarith
qed

theorem burst_detected_witness:
  "True \<in> set (record_run (record_all (tracker_new 2 10 0) [1]) [8, 9, 11, 12, 13])"
proof -
  let ?t = "record_all (tracker_new 2 10 0) [1]"
  have t: "rt_window ?t = 10" "rt_max ?t = 2" "tracker_current ?t = 1"
    by (simp_all add: record_all_def tracker_new_def record_reset_def tracker_current_def)
  show ?thesis
    by (rule burst_detected [where a = 8]) (simp_all add: t [simplified])
qed

end
