(* ===== verification/Flexd_Limits.thy ===== *)
theory Flexd_Limits
  imports Flexd_Prelude
begin

text \<open>
  \<^verbatim>\<open>security/limits.rs\<close>: the process-wide connection cap. The counter is a 64-bit atomic; an attempt to
  take a slot is one atomic addition, followed by one atomic subtraction when the cap was reached.
  Threads interleave between the two, so the operations are the steps of a machine over a counter
  and the phase of each thread, and the cap is an invariant of its reachable states.
\<close>

section \<open>The counter\<close>

definition MAX_CONNECTIONS :: usize where
  "MAX_CONNECTIONS = 10000"

text \<open>\<^verbatim>\<open>fetch_add\<close> and \<^verbatim>\<open>fetch_sub\<close> give the previous value and the new counter, and wrap.\<close>

definition fetch_add :: "usize \<Rightarrow> usize \<Rightarrow> usize \<times> usize" where
  "fetch_add c n = (c, c + n)"

definition fetch_sub :: "usize \<Rightarrow> usize \<Rightarrow> usize \<times> usize" where
  "fetch_sub c n = (c, c - n)"

definition is_overloaded :: "usize \<Rightarrow> bool" where
  "is_overloaded c \<longleftrightarrow> MAX_CONNECTIONS \<le> c"

definition get_active_connections :: "usize \<Rightarrow> usize" where
  "get_active_connections c = c"

definition release_connection :: "usize \<Rightarrow> usize" where
  "release_connection c = snd (fetch_sub c 1)"

text \<open>An attempt that no other thread interrupts.\<close>

definition acquire_connection :: "usize \<Rightarrow> usize \<times> bool" where
  "acquire_connection c =
     (case fetch_add c 1 of (prev, c) \<Rightarrow>
        if MAX_CONNECTIONS \<le> prev then (snd (fetch_sub c 1), False) else (c, True))"

section \<open>Interleaved threads\<close>

text \<open>
  A thread is outside, holds a slot, or stands between the addition and the subtraction of a
  failed attempt.
\<close>

datatype phase = Idle | Undoing | Holding

record conn_state =
  cs_counter :: usize
  cs_threads :: "phase list"

definition conn_init :: "nat \<Rightarrow> conn_state" where
  "conn_init n = \<lparr>cs_counter = 0, cs_threads = replicate n Idle\<rparr>"

inductive conn_step :: "conn_state \<Rightarrow> conn_state \<Rightarrow> bool" where
  add_taken:
    "i < length (cs_threads s) \<Longrightarrow> cs_threads s ! i = Idle \<Longrightarrow>
     fetch_add (cs_counter s) 1 = (prev, c) \<Longrightarrow> \<not> MAX_CONNECTIONS \<le> prev \<Longrightarrow>
     conn_step s \<lparr>cs_counter = c, cs_threads = (cs_threads s)[i := Holding]\<rparr>"
| add_full:
    "i < length (cs_threads s) \<Longrightarrow> cs_threads s ! i = Idle \<Longrightarrow>
     fetch_add (cs_counter s) 1 = (prev, c) \<Longrightarrow> MAX_CONNECTIONS \<le> prev \<Longrightarrow>
     conn_step s \<lparr>cs_counter = c, cs_threads = (cs_threads s)[i := Undoing]\<rparr>"
| undo:
    "i < length (cs_threads s) \<Longrightarrow> cs_threads s ! i = Undoing \<Longrightarrow>
     conn_step s \<lparr>cs_counter = snd (fetch_sub (cs_counter s) 1),
                  cs_threads = (cs_threads s)[i := Idle]\<rparr>"
| release:
    "i < length (cs_threads s) \<Longrightarrow> cs_threads s ! i = Holding \<Longrightarrow>
     conn_step s \<lparr>cs_counter = release_connection (cs_counter s),
                  cs_threads = (cs_threads s)[i := Idle]\<rparr>"

inductive_cases conn_stepE: "conn_step s s'"

abbreviation conn_reachable :: "nat \<Rightarrow> conn_state \<Rightarrow> bool" where
  "conn_reachable n \<equiv> conn_step\<^sup>*\<^sup>* (conn_init n)"

definition holders :: "conn_state \<Rightarrow> nat" where
  "holders s = count_list (cs_threads s) Holding"

definition undoing :: "conn_state \<Rightarrow> nat" where
  "undoing s = count_list (cs_threads s) Undoing"

section \<open>The invariant\<close>

definition conn_inv :: "nat \<Rightarrow> conn_state \<Rightarrow> bool" where
  "conn_inv n s \<longleftrightarrow>
     length (cs_threads s) = n
     \<and> unat (cs_counter s) = holders s + undoing s
     \<and> holders s \<le> unat MAX_CONNECTIONS"

lemma count_list_update:
  "i < length xs \<Longrightarrow> count_list (xs[i := y]) a + (if xs ! i = a then 1 else 0) =
     count_list xs a + (if y = a then 1 else 0)"
proof (induction xs arbitrary: i)
  case (Cons x xs)
  show ?case
  proof (cases i)
    case (Suc j)
    with Cons.IH [of j] Cons.prems show ?thesis by (cases "y = a") auto
  qed (use Cons.prems in simp)
qed simp

lemma count_list_pos: "i < length xs \<Longrightarrow> xs ! i = a \<Longrightarrow> 0 < count_list xs a"
  by (metis count_list_0_iff neq0_conv nth_mem)

lemma count_sum_le: "count_list xs Holding + count_list xs Undoing + count_list xs Idle = length xs"
proof (induction xs)
  case (Cons x xs)
  then show ?case by (cases x) auto
qed simp

lemma counter_down: "0 < unat (c :: usize) \<Longrightarrow> unat (snd (fetch_sub c 1)) = unat c - 1"
  by (simp add: fetch_sub_def unat_sub word_le_nat_alt)

lemma counter_up: "unat (c :: usize) + 1 < 2 ^ 64 \<Longrightarrow> unat (c + 1) = unat c + 1"
  using unat_add_lem [of c 1] by simp

lemma counter_room:
  assumes "conn_inv n s" "n < 2 ^ 64" "i < length (cs_threads s)" "cs_threads s ! i = Idle"
  shows "unat (cs_counter s) + 1 < 2 ^ 64"
  using assms count_list_pos [OF assms(3,4)] count_sum_le [of "cs_threads s"]
  by (simp add: conn_inv_def holders_def undoing_def)

lemma conn_step_inv:
  assumes "conn_step s s'" "conn_inv n s" "n < 2 ^ 64"
  shows "conn_inv n s'"
  using assms(1)
proof cases
  case (add_taken i prev c)
  note up = counter_up [OF counter_room [OF assms(2,3) add_taken(2,3)]]
  from add_taken show ?thesis
    using assms(2) up count_list_update [OF add_taken(2), of Holding Holding]
      count_list_update [OF add_taken(2), of Holding Undoing]
    by (auto simp: conn_inv_def holders_def undoing_def fetch_add_def word_le_nat_alt)
next
  case (add_full i prev c)
  note up = counter_up [OF counter_room [OF assms(2,3) add_full(2,3)]]
  from add_full show ?thesis
    using assms(2) up count_list_update [OF add_full(2), of Undoing Holding]
      count_list_update [OF add_full(2), of Undoing Undoing]
    by (auto simp: conn_inv_def holders_def undoing_def fetch_add_def)
next
  case (undo i)
  have "0 < unat (cs_counter s)"
    using assms(2) count_list_pos [OF undo(2,3)] by (simp add: conn_inv_def undoing_def)
  note down = counter_down [OF this]
  from undo show ?thesis
    using assms(2) down count_list_update [OF undo(2), of Idle Holding]
      count_list_update [OF undo(2), of Idle Undoing]
    by (simp add: conn_inv_def holders_def undoing_def)
next
  case (release i)
  have "0 < unat (cs_counter s)"
    using assms(2) count_list_pos [OF release(2,3)] by (simp add: conn_inv_def holders_def)
  note down = counter_down [OF this]
  from release show ?thesis
    using assms(2) down count_list_update [OF release(2), of Idle Holding]
      count_list_update [OF release(2), of Idle Undoing]
    by (simp add: conn_inv_def holders_def undoing_def release_connection_def)
qed

lemma conn_inv_init: "conn_inv n (conn_init n)"
  by (simp add: conn_inv_def conn_init_def holders_def undoing_def MAX_CONNECTIONS_def)

lemma conn_reachable_inv:
  assumes "conn_reachable n s" "n < 2 ^ 64"
  shows "conn_inv n s"
  using assms(1)
proof (induction rule: rtranclp_induct)
  case base
  show ?case by (rule conn_inv_init)
next
  case (step s s')
  show ?case by (rule conn_step_inv [OF step(2,3) assms(2)])
qed

section \<open>The abstract counter\<close>

text \<open>
  What the counter is for: a number of slots, of which one is taken if there is one left, or given back.
  The atomic steps of the threads refine it, with the failed attempts as steps that do nothing.
\<close>

inductive slot_step :: "nat \<Rightarrow> nat \<Rightarrow> bool" where
  take_slot: "k < 10000 \<Longrightarrow> slot_step k (Suc k)"
| give_slot: "slot_step (Suc k) k"

lemma holders_step:
  assumes "conn_step s s'" "conn_inv n s" "n < 2 ^ 64"
  shows "slot_step\<^sup>=\<^sup>= (holders s) (holders s')"
  using assms(1)
proof cases
  case (add_taken i prev c)
  have "holders s' = Suc (holders s)"
    using add_taken count_list_update [OF add_taken(2), of Holding Holding] by (simp add: holders_def)
  moreover have "holders s < 10000"
    using add_taken assms(2) by (simp add: conn_inv_def fetch_add_def MAX_CONNECTIONS_def word_le_nat_alt)
  ultimately show ?thesis by (simp add: take_slot)
next
  case (add_full i prev c)
  then show ?thesis
    using count_list_update [OF add_full(2), of Undoing Holding] by (simp add: holders_def)
next
  case (undo i)
  then show ?thesis
    using count_list_update [OF undo(2), of Idle Holding] by (simp add: holders_def)
next
  case (release i)
  have "holders s = Suc (holders s')"
    using release count_list_update [OF release(2), of Idle Holding] by (simp add: holders_def)
  then show ?thesis by (simp add: give_slot)
qed

section \<open>Properties\<close>

text \<open>
  C19. The lock-free counter implements the slots: every atomic step of any interleaving takes one slot
  while fewer than 10000 are taken, gives one back, or leaves their number alone, so every run of the
  threads is a run of the abstract counter from zero; and an attempt is turned away only while the
  holders and the attempts being undone fill the slots.
\<close>

theorem slots_refined:
  assumes "conn_reachable n s" "n < 2 ^ 64"
  shows "slot_step\<^sup>*\<^sup>* 0 (holders s) \<and> (conn_step s s' \<longrightarrow> slot_step\<^sup>=\<^sup>= (holders s) (holders s'))
    \<and> (MAX_CONNECTIONS \<le> cs_counter s \<longleftrightarrow> 10000 \<le> holders s + undoing s)"
proof (intro conjI impI)
  show "slot_step\<^sup>*\<^sup>* 0 (holders s)"
    using assms(1)
  proof (induction rule: rtranclp_induct)
    case base
    show ?case by (simp add: holders_def conn_init_def)
  next
    case (step y z)
    from holders_step [OF step(2) conn_reachable_inv [OF step(1) assms(2)] assms(2)] step.IH
    show ?case by (auto intro: rtranclp.rtrancl_into_rtrancl)
  qed
  show "slot_step\<^sup>=\<^sup>= (holders s) (holders s')" if "conn_step s s'"
    by (rule holders_step [OF that conn_reachable_inv [OF assms] assms(2)])
  show "MAX_CONNECTIONS \<le> cs_counter s \<longleftrightarrow> 10000 \<le> holders s + undoing s"
    using conn_reachable_inv [OF assms] by (simp add: conn_inv_def MAX_CONNECTIONS_def word_le_nat_alt)
qed

lemma one_taken: "conn_reachable 2 \<lparr>cs_counter = 1, cs_threads = [Holding, Idle]\<rparr>"
proof -
  have "conn_step (conn_init 2) \<lparr>cs_counter = 1, cs_threads = (cs_threads (conn_init 2))[0 := Holding]\<rparr>"
    by (rule add_taken [where prev = 0]) (simp_all add: conn_init_def fetch_add_def MAX_CONNECTIONS_def)
  then show ?thesis by (simp add: conn_init_def numeral_2_eq_2)
qed

theorem slots_refined_witness:
  "slot_step\<^sup>*\<^sup>* 0 (holders \<lparr>cs_counter = 1, cs_threads = [Holding, Idle]\<rparr>)
   \<and> holders \<lparr>cs_counter = 1, cs_threads = [Holding, Idle]\<rparr> = 1"
  using slots_refined [OF one_taken, of "\<lparr>cs_counter = 1, cs_threads = [Holding, Idle]\<rparr>"]
  by (simp add: holders_def)

text \<open>
  The cap holds under every interleaving of attempts and releases: in no reachable state do
  more than 10000 threads hold a slot, and the counter is the number of holders and of failed
  attempts not yet undone, so that it neither leaks slots nor wraps below zero.
\<close>

theorem connection_cap:
  assumes "conn_reachable n s" "n < 2 ^ 64"
  shows "holders s \<le> 10000 \<and> unat (cs_counter s) = holders s + undoing s"
  using conn_reachable_inv [OF assms] by (simp add: conn_inv_def MAX_CONNECTIONS_def)

theorem connection_cap_witness:
  "holders \<lparr>cs_counter = 1, cs_threads = [Holding, Idle]\<rparr> \<le> 10000
   \<and> unat (cs_counter \<lparr>cs_counter = 1, cs_threads = [Holding, Idle]\<rparr>)
     = holders \<lparr>cs_counter = 1, cs_threads = [Holding, Idle]\<rparr>
       + undoing \<lparr>cs_counter = 1, cs_threads = [Holding, Idle]\<rparr>"
  by (rule connection_cap [OF one_taken]) simp

text \<open>
  A failed attempt leaves no trace and a successful one is undone by the release, so a
  connection that came and went leaves the counter as it was; an attempt succeeds exactly when
  the server is not overloaded.
\<close>

theorem acquire_release_balanced:
  "snd (acquire_connection c) = (\<not> is_overloaded c)
   \<and> (if snd (acquire_connection c) then release_connection (fst (acquire_connection c)) = c
      else fst (acquire_connection c) = c)"
  by (simp add: acquire_connection_def is_overloaded_def fetch_add_def fetch_sub_def
      release_connection_def)

end
