(* ===== verification/Memory_Pressure.thy ===== *)
theory Memory_Pressure
  imports Flexd_Prelude
begin

text \<open>
  \<^verbatim>\<open>security/limits.rs\<close>: the memory check of the accept loops, from the text of \<^verbatim>\<open>/proc/meminfo\<close> to the
  comparison of two doubles. The floating-point operations are those of IEEE 754 on the non-negative
  numbers that occur: correctly rounded, ties to even. For machines of any real size the rounding does
  not show.
\<close>

section \<open>Doubles\<close>

text \<open>A non-negative double \<open>(m, s)\<close> is \<open>m\<close> divided by two to the \<open>s\<close>, with \<open>m\<close> of 53 bit_length.\<close>

type_synonym f64 = "nat \<times> int"

fun bit_length :: "nat \<Rightarrow> nat" where
  "bit_length n = (if n = 0 then 0 else Suc (bit_length (n div 2)))"

declare bit_length.simps [simp del]

definition round_half_even :: "nat \<Rightarrow> nat \<Rightarrow> nat" where
  "round_half_even n d =
     (let q = n div d; r = n mod d in
      if 2 * r < d \<or> 2 * r = d \<and> even q then q else q + 1)"

text \<open>The double nearest to a quotient; the shift brings the quotient between two to the 52 and to the 53.\<close>

definition f64_shift :: "nat \<Rightarrow> nat \<Rightarrow> int" where
  "f64_shift n d =
     (let s = 53 + int (bit_length d) - int (bit_length n) in
      if 2 ^ 53 * (d * 2 ^ nat (- s)) \<le> n * 2 ^ nat s then s - 1 else s)"

definition f64_round :: "nat \<Rightarrow> nat \<Rightarrow> f64" where
  "f64_round n d =
     (if n = 0 then (0, 0)
      else let s = f64_shift n d in (round_half_even (n * 2 ^ nat s) (d * 2 ^ nat (- s)), s))"

definition f64_of_u64 :: "u64 \<Rightarrow> f64" where
  "f64_of_u64 w = f64_round (unat w) 1"

fun f64_div :: "f64 \<Rightarrow> f64 \<Rightarrow> f64" where
  "f64_div (m1, s1) (m2, s2) = f64_round (m1 * 2 ^ nat (s2 - s1)) (m2 * 2 ^ nat (s1 - s2))"

fun f64_less :: "f64 \<Rightarrow> f64 \<Rightarrow> bool" where
  "f64_less (m1, s1) (m2, s2) \<longleftrightarrow> m1 * 2 ^ nat (s2 - s1) < m2 * 2 ^ nat (s1 - s2)"

text \<open>The literal 0.05.\<close>

definition MEMORY_PRESSURE_THRESHOLD :: f64 where
  "MEMORY_PRESSURE_THRESHOLD = f64_round 5 100"

section \<open>The text\<close>

text \<open>\<^verbatim>\<open>str::lines\<close>: a line end is a line feed, with the carriage return before it if there is one.\<close>

definition strip_cr :: "string \<Rightarrow> string" where
  "strip_cr l = (if suffix [byte 13] l then butlast l else l)"

definition str_lines :: "string \<Rightarrow> string list" where
  "str_lines s =
     (let ps = split_char (byte 10) s in
      map strip_cr (butlast ps) @ (if last ps = [] then [] else [last ps]))"

text \<open>\<^verbatim>\<open>split_whitespace().nth(1)\<close>: the second word.\<close>

fun take_word :: "string \<Rightarrow> string \<times> string" where
  "take_word [] = ([], [])"
| "take_word (c # cs) =
     (if find (\<lambda>w. w \<noteq> [] \<and> prefix w (c # cs)) ws_chars \<noteq> None then ([], c # cs)
      else (case take_word cs of (w, rest) \<Rightarrow> (c # w, rest)))"

definition second_word :: "string \<Rightarrow> string option" where
  "second_word s =
     (case take_word (trim_start_with ws_chars s) of
        ([], _) \<Rightarrow> None
      | (_, rest) \<Rightarrow>
          (case take_word (trim_start_with ws_chars rest) of
             ([], _) \<Rightarrow> None
           | (w, _) \<Rightarrow> Some w))"

definition kib_of :: "string \<Rightarrow> u64" where
  "kib_of line = (case Option.bind (second_word line) parse_u64 of None \<Rightarrow> 0 | Some n \<Rightarrow> n)"

definition mem_line :: "string \<Rightarrow> u64 \<times> u64 \<Rightarrow> u64 \<times> u64" where
  "mem_line line at =
     (let at = (if starts_with line ''MemAvailable:'' then (kib_of line, snd at) else at) in
      if starts_with line ''MemTotal:'' then (fst at, kib_of line) else at)"

definition mem_scan :: "string \<Rightarrow> u64 \<times> u64" where
  "mem_scan info = fold mem_line (str_lines info) (0, 0)"

text \<open>\<open>None\<close> is a file that cannot be read, or another operating system.\<close>

definition check_memory_pressure :: "string option \<Rightarrow> f64 \<Rightarrow> bool" where
  "check_memory_pressure meminfo threshold =
     (case meminfo of
        None \<Rightarrow> False
      | Some info \<Rightarrow>
          (case mem_scan info of
             (mem_available, mem_total) \<Rightarrow>
               0 < mem_total
               \<and> f64_less (f64_div (f64_of_u64 mem_available) (f64_of_u64 mem_total)) threshold))"

lemma no_meminfo [simp]: "\<not> check_memory_pressure None threshold"
  by (simp add: check_memory_pressure_def)

section \<open>Rounding\<close>

lemma bit_length_bounds: "0 < n \<Longrightarrow> 2 ^ bit_length n \<le> 2 * n \<and> n < 2 ^ bit_length n"
proof (induction n rule: bit_length.induct)
  case (1 n)
  show ?case
  proof (cases "n = 1")
    case True
    then show ?thesis by (simp add: bit_length.simps)
  next
    case False
    with 1(2) have "0 < n div 2" by simp
    moreover have "bit_length n = Suc (bit_length (n div 2))" using 1(2) by (simp add: bit_length.simps [of n])
    ultimately show ?thesis using 1(1) 1(2) by simp linarith
  qed
qed

lemma round_half_even_bounds:
  assumes "0 < d"
  shows "2 * (round_half_even n d * d) \<le> 2 * n + d \<and> 2 * n \<le> 2 * (round_half_even n d * d) + d"
proof -
  have n: "n div d * d + n mod d = n" by (rule div_mult_mod_eq)
  have r: "n mod d < d" using assms by simp
  show ?thesis
  proof (cases "2 * (n mod d) < d \<or> 2 * (n mod d) = d \<and> even (n div d)")
    case True
    then have "round_half_even n d * d = n div d * d" "2 * (n mod d) \<le> d"
      by (auto simp: round_half_even_def Let_def)
    then show ?thesis using n by (intro conjI) linarith+
  next
    case False
    then have "round_half_even n d * d = n div d * d + d" "d \<le> 2 * (n mod d)"
      by (auto simp: round_half_even_def Let_def)
    then show ?thesis using n r by (intro conjI) linarith+
  qed
qed

lemma round_half_even_one [simp]: "round_half_even n 1 = n" "round_half_even n (Suc 0) = n"
  by (simp_all add: round_half_even_def)

lemma round_half_even_le: "0 < d \<Longrightarrow> n < k * d \<Longrightarrow> round_half_even n d \<le> k"
proof -
  assume "0 < d" "n < k * d"
  then have "n div d < k" by (simp add: less_mult_imp_div_less)
  then show ?thesis by (auto simp: round_half_even_def Let_def)
qed

lemma round_half_even_ge: "0 < d \<Longrightarrow> k * d \<le> n \<Longrightarrow> k \<le> round_half_even n d"
proof -
  assume "0 < d" "k * d \<le> n"
  then have "k \<le> n div d" by (simp add: less_eq_div_iff_mult_less_eq)
  then show ?thesis by (auto simp: round_half_even_def Let_def)
qed

lemma shift_scale:
  fixes b c :: nat
  assumes "s = 53 + int c - int b"
  shows "2 ^ nat s * 2 ^ b = (2 ^ nat (- s) * (2 ^ 53 * 2 ^ c) :: nat)"
proof -
  have "nat s + b = nat (- s) + (53 + c)" using assms by auto
  then show ?thesis by (simp only: power_add [symmetric])
qed

lemma f64_shift_start:
  assumes "0 < n" "0 < d" "s = 53 + int (bit_length d) - int (bit_length n)"
  shows "2 ^ 52 * (d * 2 ^ nat (- s)) \<le> n * 2 ^ nat s" "n * 2 ^ nat s < 2 ^ 54 * (d * 2 ^ nat (- s))"
proof -
  define P Q :: nat where "P = 2 ^ nat s" and "Q = 2 ^ nat (- s)"
  have pos: "0 < P" "0 < Q" by (simp_all add: P_def Q_def)
  have eq: "P * 2 ^ bit_length n = Q * (2 ^ 53 * 2 ^ bit_length d)"
    unfolding P_def Q_def by (rule shift_scale) (rule assms)
  note bn = bit_length_bounds [OF assms(1)] and bd = bit_length_bounds [OF assms(2)]
  have "Q * (2 ^ 53 * d) \<le> Q * (2 ^ 53 * 2 ^ bit_length d)" using bd by (simp add: less_imp_le)
  also have "\<dots> \<le> P * (2 * n)" using bn eq [symmetric] by simp
  finally show "2 ^ 52 * (d * 2 ^ nat (- s)) \<le> n * 2 ^ nat s"
    by (simp add: P_def Q_def algebra_simps)
  have "P * n < P * 2 ^ bit_length n" using bn pos by simp
  also have "\<dots> \<le> Q * (2 ^ 53 * (2 * d))" unfolding eq using bd by simp
  finally show "n * 2 ^ nat s < 2 ^ 54 * (d * 2 ^ nat (- s))"
    by (simp add: P_def Q_def algebra_simps)
qed

lemma f64_shift_down:
  "2 * K * (d * 2 ^ nat (- s)) \<le> n * 2 ^ nat s \<longleftrightarrow> K * (d * 2 ^ nat (- (s - 1))) \<le> n * 2 ^ nat (s - 1)"
  for K :: nat
proof (cases "0 < s")
  case True
  then have "nat s = Suc (nat (s - 1))" "nat (- s) = 0" "nat (- (s - 1)) = 0" by auto
  then show ?thesis by (simp add: algebra_simps)
next
  case False
  then have "nat s = 0" "nat (s - 1) = 0" "nat (- (s - 1)) = Suc (nat (- s))" by auto
  then show ?thesis by (simp add: algebra_simps)
qed

lemma f64_shift_range:
  assumes "0 < n" "0 < d"
  shows "2 ^ 52 * (d * 2 ^ nat (- f64_shift n d)) \<le> n * 2 ^ nat (f64_shift n d)
         \<and> n * 2 ^ nat (f64_shift n d) < 2 ^ 53 * (d * 2 ^ nat (- f64_shift n d))"
proof -
  define s where "s = 53 + int (bit_length d) - int (bit_length n)"
  note start = f64_shift_start [OF assms s_def]
  have shift: "f64_shift n d = (if 2 ^ 53 * (d * 2 ^ nat (- s)) \<le> n * 2 ^ nat s then s - 1 else s)"
    by (simp add: f64_shift_def s_def Let_def)
  show ?thesis
  proof (cases "2 ^ 53 * (d * 2 ^ nat (- s)) \<le> n * 2 ^ nat s")
    case True
    have "2 ^ 52 * (d * 2 ^ nat (- (s - 1))) \<le> n * 2 ^ nat (s - 1)"
      using True f64_shift_down [of "2 ^ 52" d s n] by simp
    moreover have "\<not> 2 ^ 53 * (d * 2 ^ nat (- (s - 1))) \<le> n * 2 ^ nat (s - 1)"
      using start(2) f64_shift_down [of "2 ^ 53" d s n] by simp
    ultimately show ?thesis using True shift by (simp only: if_True) simp
  next
    case False
    then show ?thesis using start(1) shift by (simp only: if_False) simp
  qed
qed

section \<open>The comparison\<close>

lemma threshold_value: "MEMORY_PRESSURE_THRESHOLD = (7205759403792794, 57)"
  by (simp add: MEMORY_PRESSURE_THRESHOLD_def f64_round_def f64_shift_def bit_length.simps
      round_half_even_def Let_def)

lemma small_power: "2 ^ k < (x :: nat) \<Longrightarrow> x \<le> 2 ^ nat s \<Longrightarrow> int k < s"
proof (rule ccontr)
  assume "2 ^ k < x" "x \<le> 2 ^ nat s" "\<not> int k < s"
  then have "nat s \<le> k" by simp
  then have "(2 :: nat) ^ nat s \<le> 2 ^ k" by (intro power_increasing) auto
  with \<open>2 ^ k < x\<close> \<open>x \<le> 2 ^ nat s\<close> show False by simp
qed

lemma f64_round_below:
  assumes "0 < n" "0 < d" "20 * n * 2 ^ 50 \<le> d * (2 ^ 50 - 1)"
  shows "f64_less (f64_round n d) (7205759403792794, 57)"
proof -
  define s where "s = f64_shift n d"
  have lo: "2 ^ 52 * (d * 2 ^ nat (- s)) \<le> n * 2 ^ nat s"
    and hi: "n * 2 ^ nat s < 2 ^ 53 * (d * 2 ^ nat (- s))"
    using f64_shift_range [OF assms(1,2)] by (simp_all add: s_def)
  have "20 * n < d" using assms by simp
  have "n * (2 ^ 52 * 20) \<le> 2 ^ 52 * d" using \<open>20 * n < d\<close> by simp
  also have "\<dots> \<le> 2 ^ 52 * (d * 2 ^ nat (- s))" by simp
  also note lo
  finally have "n * (2 ^ 52 * 20) \<le> n * 2 ^ nat s" .
  then have "2 ^ 52 * 20 \<le> (2 :: nat) ^ nat s" using assms(1) mult_le_cancel1 by blast
  then have "57 \<le> s" using small_power [of 56 "2 ^ 52 * 20" s] by simp
  then have neg: "nat (- s) = 0" by simp
  define m where "m = round_half_even (n * 2 ^ nat s) d"
  have fr: "f64_round n d = (m, s)"
    using assms(1) by (simp add: f64_round_def m_def neg flip: s_def)
  show ?thesis
  proof (cases "s = 57")
    case True
    have "2 * (m * d) \<le> 2 * (n * 2 ^ 57) + d"
      using round_half_even_bounds [OF assms(2), of "n * 2 ^ 57"] True by (simp add: m_def)
    moreover have "20 * (n * 2 ^ 57) + 128 * d \<le> 144115188075855872 * d" using assms(3) by simp
    ultimately have "m * d < 7205759403792794 * d" using assms(2) by linarith
    then show ?thesis using fr True by simp
  next
    case False
    then have "Suc 0 \<le> nat (s - 57)" using \<open>57 \<le> s\<close> by simp
    then have "(2 :: nat) ^ Suc 0 \<le> 2 ^ nat (s - 57)" by (intro power_increasing) auto
    moreover have "m \<le> 2 ^ 53"
      unfolding m_def by (rule round_half_even_le [OF assms(2)]) (use hi neg in simp)
    ultimately have "m < 7205759403792794 * 2 ^ nat (s - 57)" by simp
    then show ?thesis using fr \<open>57 \<le> s\<close> by simp
  qed
qed

lemma f64_round_above:
  assumes "0 < n" "0 < d" "d \<le> 20 * n"
  shows "\<not> f64_less (f64_round n d) (7205759403792794, 57)"
proof -
  define s where "s = f64_shift n d"
  have lo: "2 ^ 52 * (d * 2 ^ nat (- s)) \<le> n * 2 ^ nat s"
    and hi: "n * 2 ^ nat s < 2 ^ 53 * (d * 2 ^ nat (- s))"
    using f64_shift_range [OF assms(1,2)] by (simp_all add: s_def)
  define m where "m = round_half_even (n * 2 ^ nat s) (d * 2 ^ nat (- s))"
  have fr: "f64_round n d = (m, s)"
    using assms(1) by (simp add: f64_round_def m_def flip: s_def)
  have "s \<le> 57"
  proof (rule ccontr)
    assume "\<not> s \<le> 57"
    then have "nat (- s) = 0" "58 \<le> nat s" by auto
    then have "n * 2 ^ 58 \<le> n * 2 ^ nat s" by (intro mult_left_mono power_increasing) auto
    also have "\<dots> < 2 ^ 53 * d" using hi \<open>nat (- s) = 0\<close> by simp
    finally show False using assms by simp
  qed
  show ?thesis
  proof (cases "s = 57")
    case True
    have "2 * (n * 2 ^ 57) \<le> 2 * (m * d) + d"
      using round_half_even_bounds [OF assms(2), of "n * 2 ^ 57"] True by (simp add: m_def)
    moreover have "144115188075855872 * d \<le> 20 * (n * 2 ^ 57)" using assms(3) by simp
    ultimately have "7205759403792793 * d < m * d" using assms(2) by linarith
    then show ?thesis using fr True by simp
  next
    case False
    have "2 ^ 52 \<le> m"
      unfolding m_def by (rule round_half_even_ge) (use lo assms(2) in simp_all)
    moreover have "Suc 0 \<le> nat (57 - s)" using \<open>s \<le> 57\<close> False by simp
    then have "(2 :: nat) ^ Suc 0 \<le> 2 ^ nat (57 - s)" by (intro power_increasing) auto
    ultimately have "2 ^ 52 * 2 \<le> m * 2 ^ nat (57 - s)" by (intro mult_le_mono) auto
    then show ?thesis using fr \<open>s \<le> 57\<close> by simp
  qed
qed

lemma bit_length_le: "n < 2 ^ k \<Longrightarrow> bit_length n \<le> k"
proof (cases "n = 0")
  case False
  assume "n < 2 ^ k"
  moreover have "2 ^ bit_length n \<le> 2 * n" using False bit_length_bounds [of n] by simp
  ultimately have "(2 :: nat) ^ bit_length n < 2 ^ Suc k" by simp
  then show ?thesis by (simp only: power_strict_increasing_iff less_Suc_eq_le)
qed (simp add: bit_length.simps)

lemma f64_of_u64_exact:
  assumes "0 < unat w" "unat w < 2 ^ 50"
  shows "\<exists>s\<ge>0. f64_of_u64 w = (unat w * 2 ^ nat s, s)"
proof -
  have "bit_length 1 = 1" by (simp add: bit_length.simps)
  then have "0 \<le> f64_shift (unat w) 1"
    using bit_length_le [OF assms(2)] by (simp add: f64_shift_def Let_def)
  then show ?thesis using assms(1) by (auto simp: f64_of_u64_def f64_round_def Let_def)
qed

lemma scale_max: "0 \<le> s \<Longrightarrow> 0 \<le> t \<Longrightarrow> n * 2 ^ nat s * 2 ^ nat (t - s) = n * 2 ^ nat (max s t)" for n :: nat
proof -
  assume "0 \<le> s" "0 \<le> t"
  then have "nat s + nat (t - s) = nat (max s t)" by auto
  then show ?thesis by (simp only: mult.assoc power_add [symmetric])
qed

lemma ratio_below_threshold:
  assumes "unat a < 2 ^ 50" "0 < unat t" "unat t < 2 ^ 50"
  shows "f64_less (f64_div (f64_of_u64 a) (f64_of_u64 t)) MEMORY_PRESSURE_THRESHOLD
         \<longleftrightarrow> 20 * unat a < unat t"
proof (cases "unat a = 0")
  case True
  obtain st where "f64_of_u64 t = (unat t * 2 ^ nat st, st)"
    using f64_of_u64_exact [OF assms(2,3)] by blast
  then show ?thesis
    using True assms(2) by (simp add: f64_of_u64_def f64_round_def threshold_value)
next
  case False
  then obtain sa where sa: "0 \<le> sa" "f64_of_u64 a = (unat a * 2 ^ nat sa, sa)"
    using f64_of_u64_exact [of a] assms(1) by auto
  obtain st where st: "0 \<le> st" "f64_of_u64 t = (unat t * 2 ^ nat st, st)"
    using f64_of_u64_exact [OF assms(2,3)] by blast
  define K :: nat where "K = 2 ^ nat (max sa st)"
  have K: "0 < K" by (simp add: K_def)
  have div_eq: "f64_div (f64_of_u64 a) (f64_of_u64 t) = f64_round (unat a * K) (unat t * K)"
    unfolding sa(2) st(2) f64_div.simps K_def
    by (simp only: scale_max [OF sa(1) st(1)] scale_max [OF st(1) sa(1)] max.commute [of st])
  show ?thesis
  proof (cases "20 * unat a < unat t")
    case True
    then have "20 * unat a * 2 ^ 50 \<le> unat t * (2 ^ 50 - 1)" using assms(3) by simp
    then have "20 * unat a * 2 ^ 50 * K \<le> unat t * (2 ^ 50 - 1) * K" by (rule mult_le_mono1)
    then have "20 * (unat a * K) * 2 ^ 50 \<le> unat t * K * (2 ^ 50 - 1)" by (simp only: ac_simps)
    then show ?thesis
      using f64_round_below [of "unat a * K" "unat t * K"] True False K assms(2)
      by (simp add: div_eq threshold_value)
  next
    case not_short: False
    then have "unat t * K \<le> 20 * unat a * K" by (intro mult_le_mono1) simp
    then show ?thesis
      using f64_round_above [of "unat a * K" "unat t * K"] not_short False K assms(2)
      by (simp add: div_eq threshold_value)
  qed
qed

section \<open>When connections are shed\<close>

text \<open>A text whose two lines are among others.\<close>

definition sample_meminfo :: string where
  "sample_meminfo =
     ''MemTotal: 2000 kB'' @ [byte 10] @ ''MemFree: 9 kB'' @ [byte 10]
     @ ''MemAvailable: 99 kB'' @ [byte 10]"

lemma line_bytes: "byte 10 = CHR 0x0A" "byte 13 = CHR 0x0D"
  by code_simp+

lemma sample_meminfo_lines:
  "str_lines sample_meminfo
   = [''MemTotal: 2000 kB'', ''MemFree: 9 kB'', ''MemAvailable: 99 kB'']"
  by (simp add: sample_meminfo_def str_lines_def strip_cr_def Let_def line_bytes suffix_def)

lemma no_space_prefix:
  assumes "32 < code c" "code c < 128"
  shows "find (\<lambda>w. w \<noteq> [] \<and> prefix w (c # cs)) ws_chars = None"
  using assms by (auto simp: find_None_iff prefix_Cons dest: ws_chars_ends)

lemma take_word_graphic:
  assumes "32 < code c" "code c < 128"
  shows "take_word (c # cs) = map_prod (Cons c) id (take_word cs)"
  using no_space_prefix [OF assms] by (simp add: map_prod_def)

lemma trim_graphic:
  assumes "32 < code c" "code c < 128"
  shows "trim_start_with ws_chars (c # cs) = c # cs"
  using no_space_prefix [OF assms] by (simp add: trim_start_with.simps)

lemma space_bytes:
  "byte 9 \<noteq> CHR '' ''" "byte 10 \<noteq> CHR '' ''" "byte 11 \<noteq> CHR '' ''" "byte 12 \<noteq> CHR '' ''"
  "byte 13 \<noteq> CHR '' ''" "byte 32 = CHR '' ''"
  by code_simp+

lemma space_prefix: "find (\<lambda>w. w \<noteq> [] \<and> prefix w (CHR '' '' # cs)) ws_chars = Some '' ''"
  by (simp add: ws_chars_def space_bytes)

lemma take_word_space: "take_word (CHR '' '' # cs) = ([], CHR '' '' # cs)"
  using space_prefix [of cs] by simp

lemma trim_space: "trim_start_with ws_chars (CHR '' '' # cs) = trim_start_with ws_chars cs"
  using space_prefix [of cs] by (simp add: trim_start_with.simps [of _ "CHR '' '' # cs"])

lemmas word_simps = second_word_def take_word_graphic trim_graphic take_word_space trim_space

lemma sample_meminfo_words:
  "second_word ''MemTotal: 2000 kB'' = Some ''2000''"
  "second_word ''MemAvailable: 99 kB'' = Some ''99''"
  by (simp_all add: word_simps del: take_word.simps(2))

lemma sample_meminfo_scan: "mem_scan sample_meminfo = (99, 2000)"
  by (simp add: mem_scan_def sample_meminfo_lines mem_line_def kib_of_def sample_meminfo_words
      parse_u64_def uint_from_str_radix_def to_digit_def digit_val_def)

text \<open>
  Below two to the 50 KiB the double division and comparison decide exactly whether less than a
  twentieth of the memory is available; a file without a total, or none at all, sheds nothing.
\<close>

lemma memory_shed_exactly:
  assumes "mem_scan info = (a, t)" "unat a < 2 ^ 50" "unat t < 2 ^ 50"
  shows "check_memory_pressure (Some info) MEMORY_PRESSURE_THRESHOLD
          \<longleftrightarrow> 20 * unat a < unat t"
proof (cases "t = 0")
  case True
  then show ?thesis using assms(1) by (simp add: check_memory_pressure_def)
next
  case False
  then have "0 < t" "0 < unat t" by (simp_all add: word_neq_0_conv unat_gt_0)
  then show ?thesis
    using assms ratio_below_threshold by (simp add: check_memory_pressure_def)
qed

end
