(* ===== verification/Server_Accept.thy ===== *)
theory Server_Accept
  imports Config_Sound Flexd_Tls Bare_Lf Rate_Limit Flexd_Limits Memory_Pressure
begin

text \<open>
  \<^verbatim>\<open>server.rs\<close>: the accept loop of an HTTP listener and what becomes of a connection. The loop is a
  machine on events (shutdown, reload, a connection, a failed accept); the services it made are a
  store that connections refer to by index, as the \<^verbatim>\<open>Arc\<close>s of the source do, so that a reload leaves
  the connections it finds as they are. All listeners share the connection counter.
\<close>

section \<open>Helpers\<close>

definition listen_addr :: "listen_directive \<Rightarrow> socket_addr" where
  "listen_addr l =
     ((case Option.bind (ld_address l) parse_ip_addr of Some ip \<Rightarrow> ip | None \<Rightarrow> V4 (Ipv4 0 0 0 0)),
      ld_port l)"

definition default_reset_rate :: reset_rate_limit where
  "default_reset_rate = \<lparr>rr_count = 100, rr_window_seconds = 10\<rparr>"

text \<open>
  \<open>opens\<close> is whether a log file can be opened, before and after the directory of the fallback was
  created; \<open>None\<close> is the panic of \<^verbatim>\<open>expect\<close>.
\<close>

definition build_logger :: "(bool \<Rightarrow> string \<Rightarrow> bool) \<Rightarrow> string \<Rightarrow> access_logger option" where
  "build_logger opens path =
     (case logger_new (opens False path) path of
        Some l \<Rightarrow> Some l
      | None \<Rightarrow> logger_new (opens True ''./logs/access.log'') ''./logs/access.log'')"

text \<open>\<^verbatim>\<open>Vec::get\<close>.\<close>

definition nth_opt :: "'a list \<Rightarrow> nat \<Rightarrow> 'a option" where
  "nth_opt xs i = (if i < length xs then Some (xs ! i) else None)"

section \<open>The loop\<close>

text \<open>What a listener finds when it starts or reloads: files, databases, certificates, log files.\<close>

record surroundings =
  sr_os :: os
  sr_geo :: "string \<Rightarrow> mmdb option"
  sr_rustls :: rustls_calls
  sr_log :: "bool \<Rightarrow> string \<Rightarrow> bool"

text \<open>
  The variables of the loop. \<open>ln_handlers\<close> are the services made so far, the current one last; older
  ones live on in the connections that were accepted with them.
\<close>

record 'c listener =
  ln_idx :: nat
  ln_tls :: bool
  ln_acme :: "'c acme_manager option"
  ln_block :: http_block
  ln_timeouts :: timeout_settings
  ln_acceptor :: "tls_acceptor option"
  ln_handlers :: "'c handler_service list"
  ln_running :: bool

definition acceptor_of ::
  "ext \<Rightarrow> rustls_calls \<Rightarrow> 'c acme_manager option \<Rightarrow> ssl_settings \<Rightarrow> tls_acceptor option" where
  "acceptor_of X R acme ssl =
     (case (case acme of
              Some m \<Rightarrow> build_tls_acceptor_acme X R (cert_path m) (key_path m) (ssl_protocols ssl)
            | None \<Rightarrow> build_tls_acceptor X R ssl) of
        Inr a \<Rightarrow> Some a
      | Inl _ \<Rightarrow> None)"

definition accept_start ::
  "ext \<Rightarrow> surroundings \<Rightarrow> http_block \<Rightarrow> nat \<Rightarrow> bool \<Rightarrow> 'c acme_manager option \<Rightarrow> timeout_settings
   \<Rightarrow> 'c listener option" where
  "accept_start X W hb idx is_tls acme timeouts =
     (case build_logger (sr_log W) (hb_access_log hb) of
        None \<Rightarrow> None
      | Some logger \<Rightarrow>
          Some \<lparr>ln_idx = idx, ln_tls = is_tls, ln_acme = acme, ln_block = hb, ln_timeouts = timeouts,
                ln_acceptor =
                  (if is_tls then Option.bind (hb_ssl hb) (acceptor_of X (sr_rustls W) acme) else None),
                ln_handlers =
                  [handler_new X (sr_os W) (sr_geo W) hb logger (map_option am_store acme) is_tls timeouts],
                ln_running = True\<rparr>)"

definition accept_reload :: "ext \<Rightarrow> surroundings \<Rightarrow> config \<Rightarrow> 'c listener \<Rightarrow> 'c listener option" where
  "accept_reload X W cf ln =
     (case nth_opt (cf_http cf) (ln_idx ln) of
        None \<Rightarrow> Some ln
      | Some hb \<Rightarrow>
          let timeouts = (case gl_timeouts (cf_global cf) of None \<Rightarrow> default_timeouts | Some t \<Rightarrow> t) in
          (case build_logger (sr_log W) (hb_access_log hb) of
             None \<Rightarrow> None
           | Some logger \<Rightarrow>
               Some (ln \<lparr>ln_block := hb, ln_timeouts := timeouts,
                 ln_handlers := ln_handlers ln @
                   [handler_new X (sr_os W) (sr_geo W) hb logger (map_option am_store (ln_acme ln))
                      (ln_tls ln) timeouts],
                 ln_acceptor :=
                   (if ln_tls ln
                    then (case hb_ssl hb of
                            Some ssl \<Rightarrow> acceptor_of X (sr_rustls W) (ln_acme ln) ssl
                          | None \<Rightarrow> ln_acceptor ln)
                    else ln_acceptor ln)\<rparr>)))"

text \<open>What an accepted connection takes with it: the service by its index, and copies of the rest.\<close>

record conn_task =
  ct_remote :: socket_addr
  ct_handler :: nat
  ct_acceptor :: "tls_acceptor option"
  ct_reset_rate :: reset_rate_limit
  ct_timeouts :: timeout_settings

text \<open>
  An accepted connection comes with what \<^verbatim>\<open>/proc/meminfo\<close> then reads. A panic ends the task of the loop, like
  a shutdown.
\<close>

datatype accept_event =
    Shutdown
  | Reload config surroundings
  | Accepted socket_addr "string option"
  | AcceptFailed

datatype accept_action = Quiet | Send503 | Spawn conn_task | Pause

definition reset_rate_of :: "http_block \<Rightarrow> reset_rate_limit" where
  "reset_rate_of hb =
     (case hb_http2_max_reset_rate hb of None \<Rightarrow> default_reset_rate | Some r \<Rightarrow> r)"

definition accept_step ::
  "ext \<Rightarrow> accept_event \<Rightarrow> 'c listener \<Rightarrow> usize \<Rightarrow> 'c listener \<times> usize \<times> accept_action" where
  "accept_step X ev ln active =
     (if \<not> ln_running ln then (ln, active, Quiet)
      else (case ev of
              Shutdown \<Rightarrow> (ln \<lparr>ln_running := False\<rparr>, active, Quiet)
            | Reload cf W \<Rightarrow>
                (case accept_reload X W cf ln of
                   None \<Rightarrow> (ln \<lparr>ln_running := False\<rparr>, active, Quiet)
                 | Some ln \<Rightarrow> (ln, active, Quiet))
            | AcceptFailed \<Rightarrow> (ln, active, Pause)
            | Accepted remote meminfo \<Rightarrow>
                if check_memory_pressure meminfo MEMORY_PRESSURE_THRESHOLD then (ln, active, Send503)
                else (case acquire_connection active of
                        (active, False) \<Rightarrow> (ln, active, Send503)
                      | (active, True) \<Rightarrow>
                          (ln, active,
                           Spawn \<lparr>ct_remote = remote, ct_handler = length (ln_handlers ln) - 1,
                                  ct_acceptor = ln_acceptor ln,
                                  ct_reset_rate = reset_rate_of (ln_block ln),
                                  ct_timeouts = ln_timeouts ln\<rparr>))))"

text \<open>\<^verbatim>\<open>send_503\<close>.\<close>

definition response_503 :: "ext \<Rightarrow> response" where
  "response_503 X =
     \<lparr>rs_status = 503, rs_headers = x_hm_insert X [] ''content-type'' ''text/plain; charset=utf-8'',
      rs_body = ''503 Service Unavailable'' @ [byte 10]\<rparr>"

section \<open>A connection\<close>

text \<open>
  The settings the HTTP servers are run with, and how a connection is served. A handshake gives the
  protocol agreed on; it fails, or takes longer than ten seconds.
\<close>

record h2_settings =
  h2_max_concurrent_streams :: nat
  h2_max_pending_accept_reset_streams :: usize
  h2_keep_alive_interval :: duration
  h2_keep_alive_timeout :: duration

datatype handshake = Handshaken "string option" | HandshakeFailed | HandshakeElapsed

datatype 's serving =
    ServeHttp2 h2_settings
  | ServeHttp1 duration
  | ServePlain "'s plain_action" duration
  | HangUp

definition http2_settings :: "reset_rate_limit \<Rightarrow> timeout_settings \<Rightarrow> h2_settings" where
  "http2_settings rr timeouts =
     \<lparr>h2_max_concurrent_streams = 128, h2_max_pending_accept_reset_streams = rr_count rr,
      h2_keep_alive_interval = from_secs 20, h2_keep_alive_timeout = from_secs (unat (to_keepalive timeouts))\<rparr>"

definition serve_task :: "conn_task \<Rightarrow> handshake \<Rightarrow> first_read \<Rightarrow> 's \<Rightarrow> 's serving" where
  "serve_task t shake r stream =
     (case ct_acceptor t of
        Some acceptor \<Rightarrow>
          (case shake of
             Handshaken alpn \<Rightarrow>
               if alpn = Some ''h2'' then ServeHttp2 (http2_settings (ct_reset_rate t) (ct_timeouts t))
               else ServeHttp1 (from_secs (unat (to_request (ct_timeouts t))))
           | HandshakeFailed \<Rightarrow> HangUp
           | HandshakeElapsed \<Rightarrow> HangUp)
      | None \<Rightarrow>
          ServePlain (serve_http1_with_bare_lf_check r stream)
            (from_secs (unat (to_request (ct_timeouts t)))))"

end
