(* ===== verification/Server_Quic.thy ===== *)
theory Server_Quic
  imports Server_Accept
begin

text \<open>
  \<^verbatim>\<open>server.rs\<close>: the QUIC listener and HTTP/3. The loop is a machine like that of the TCP listeners; a
  request's body arrives in chunks, each a buffer of contiguous pieces, and is collected under the
  block's limit before the handler sees the request.
\<close>

section \<open>The loop\<close>

datatype quic_error = QuicNoSsl | QuicTls tls_error | QuicSocket | QuicRuntime | QuicEndpoint

record 'c quic_listener =
  ql_idx :: nat
  ql_config :: quinn_config
  ql_block :: http_block
  ql_handlers :: "'c handler_service list"
  ql_running :: bool

text \<open>
  The three calls that may fail: making the socket non-blocking, finding the runtime, creating the
  endpoint.
\<close>

record quic_calls =
  qs_nonblocking :: bool
  qs_runtime :: bool
  qs_endpoint :: bool

definition quic_config_of ::
  "rustls_calls \<Rightarrow> 'c acme_manager option \<Rightarrow> ssl_settings \<Rightarrow> tls_error + quinn_config" where
  "quic_config_of R acme ssl =
     (case acme of
        Some m \<Rightarrow> build_quinn_from_paths R (cert_path m) (key_path m)
      | None \<Rightarrow> build_quinn_server_config R ssl)"

definition quic_start ::
  "ext \<Rightarrow> surroundings \<Rightarrow> quic_calls \<Rightarrow> http_block \<Rightarrow> nat \<Rightarrow> 'c acme_manager option \<Rightarrow> timeout_settings
   \<Rightarrow> (quic_error, 'c quic_listener) outcome" where
  "quic_start X W Q hb idx acme timeouts =
     (case hb_ssl hb of
        None \<Rightarrow> Err QuicNoSsl
      | Some ssl \<Rightarrow>
          (case quic_config_of (sr_rustls W) acme ssl of
             Inl e \<Rightarrow> Err (QuicTls e)
           | Inr quic_config \<Rightarrow>
               if \<not> qs_nonblocking Q then Err QuicSocket
               else if \<not> qs_runtime Q then Err QuicRuntime
               else if \<not> qs_endpoint Q then Err QuicEndpoint
               else (case build_logger (sr_log W) (hb_access_log hb) of
                       None \<Rightarrow> Panic
                     | Some logger \<Rightarrow>
                         Ok \<lparr>ql_idx = idx, ql_config = quic_config, ql_block = hb,
                             ql_handlers =
                               [handler_new X (sr_os W) (sr_geo W) hb logger None True timeouts],
                             ql_running = True\<rparr>)))"

definition quic_reload :: "ext \<Rightarrow> surroundings \<Rightarrow> config \<Rightarrow> 'c quic_listener \<Rightarrow> 'c quic_listener option" where
  "quic_reload X W cf ql =
     (case nth_opt (cf_http cf) (ql_idx ql) of
        None \<Rightarrow> Some ql
      | Some hb \<Rightarrow>
          (case build_logger (sr_log W) (hb_access_log hb) of
             None \<Rightarrow> None
           | Some logger \<Rightarrow>
               let timeouts = (case gl_timeouts (cf_global cf) of None \<Rightarrow> default_timeouts | Some t \<Rightarrow> t) in
               Some (ql \<lparr>ql_block := hb,
                 ql_handlers := ql_handlers ql @
                   [handler_new X (sr_os W) (sr_geo W) hb logger None True timeouts]\<rparr>)))"

text \<open>
  A connection attempt comes with what \<^verbatim>\<open>/proc/meminfo\<close> then reads; \<open>QuicGone\<close> is the \<^verbatim>\<open>None\<close> of an endpoint
  that has stopped.
\<close>

record quic_task =
  qt_handler :: nat
  qt_max_body :: usize
  qt_max_field :: u64

datatype quic_event =
    QuicShutdown
  | QuicReload config surroundings
  | QuicGone
  | QuicIncoming "string option"

datatype quic_action = QuicQuiet | QuicIgnored | QuicSpawn quic_task | QuicClose

definition quic_step ::
  "ext \<Rightarrow> quic_event \<Rightarrow> 'c quic_listener \<Rightarrow> usize \<Rightarrow> 'c quic_listener \<times> usize \<times> quic_action" where
  "quic_step X ev ql active =
     (if \<not> ql_running ql then (ql, active, QuicQuiet)
      else (case ev of
              QuicShutdown \<Rightarrow> (ql \<lparr>ql_running := False\<rparr>, active, QuicClose)
            | QuicReload cf W \<Rightarrow>
                (case quic_reload X W cf ql of
                   None \<Rightarrow> (ql \<lparr>ql_running := False\<rparr>, active, QuicQuiet)
                 | Some ql \<Rightarrow> (ql, active, QuicQuiet))
            | QuicGone \<Rightarrow> (ql, active, QuicQuiet)
            | QuicIncoming meminfo \<Rightarrow>
                if check_memory_pressure meminfo MEMORY_PRESSURE_THRESHOLD then (ql, active, QuicIgnored)
                else (case acquire_connection active of
                        (active, False) \<Rightarrow> (ql, active, QuicIgnored)
                      | (active, True) \<Rightarrow>
                          (ql, active,
                           QuicSpawn
                             \<lparr>qt_handler = length (ql_handlers ql) - 1,
                              qt_max_body =
                                (case hb_max_body_size (ql_block ql) of
                                   None \<Rightarrow> 10 * 1024 * 1024 | Some n \<Rightarrow> n),
                              qt_max_field =
                                (case hb_http3_max_dynamic_table_size (ql_block ql) of
                                   None \<Rightarrow> 65536 | Some n \<Rightarrow> n)\<rparr>))))"

section \<open>A connection\<close>

text \<open>
  What accepting the next stream of a connection gives: a request, one that cannot be resolved, the
  end of the connection or its failure. The requests that get a task of their own:
\<close>

datatype h3_accept = H3Resolved "unit request" | H3Unresolved | H3Closed | H3Failed

fun h3_requests :: "h3_accept list \<Rightarrow> unit request list" where
  "h3_requests [] = []"
| "h3_requests (a # as) =
     (case a of
        H3Resolved req \<Rightarrow> req # h3_requests as
      | H3Unresolved \<Rightarrow> h3_requests as
      | H3Closed \<Rightarrow> []
      | H3Failed \<Rightarrow> [])"

section \<open>A request\<close>

text \<open>One chunk: its pieces are appended one by one, and the limit is looked at after each.\<close>

fun take_pieces :: "nat \<Rightarrow> string \<Rightarrow> string list \<Rightarrow> string \<times> bool" where
  "take_pieces max_body body [] = (body, False)"
| "take_pieces max_body body (p # ps) =
     (if max_body < length (body @ p) then (body @ p, True) else take_pieces max_body (body @ p) ps)"

datatype recv = RecvData "string list" | RecvEnd | RecvError

datatype collecting = Complete | Overflow | Aborted | Waiting

text \<open>The bytes held, and how the collection ended; \<open>Waiting\<close> is that more has to arrive.\<close>

fun recv_body :: "nat \<Rightarrow> string \<Rightarrow> recv list \<Rightarrow> string \<times> collecting" where
  "recv_body max_body body [] = (body, Waiting)"
| "recv_body max_body body (r # rs) =
     (case r of
        RecvData pieces \<Rightarrow>
          (case take_pieces max_body body pieces of
             (body, True) \<Rightarrow> (body, Overflow)
           | (body, False) \<Rightarrow> recv_body max_body body rs)
      | RecvEnd \<Rightarrow> (body, Complete)
      | RecvError \<Rightarrow> (body, Aborted))"

definition response_413 :: response where
  "response_413 = (response_new (''413 Payload Too Large'' @ [byte 10])) \<lparr>rs_status := 413\<rparr>"

datatype h3_send = SendHead status header_map | SendData string | FinishStream

text \<open>What is sent; \<open>head_ok\<close> is whether sending the head succeeds.\<close>

definition h3_send :: "bool \<Rightarrow> response \<Rightarrow> h3_send list" where
  "h3_send head_ok resp =
     SendHead (rs_status resp) (rs_headers resp)
       # (if head_ok
          then (if rs_body resp \<noteq> [] then [SendData (rs_body resp)] else []) @ [FinishStream]
          else [])"

definition serve_h3_request ::
  "ext \<Rightarrow> env \<Rightarrow> 'c handler_service \<Rightarrow> usize \<Rightarrow> unit request \<Rightarrow> socket_addr \<Rightarrow> recv list \<Rightarrow> bool
   \<Rightarrow> 'c handler_service \<times> h3_send list" where
  "serve_h3_request X E h max_body req remote rs head_ok =
     (case recv_body (unat max_body) [] rs of
        (body, Complete) \<Rightarrow>
          (case handle_h3 X E h req body remote of
             (h, Some resp) \<Rightarrow> (h, h3_send head_ok resp)
           | (h, None) \<Rightarrow> (h, []))
      | (_, Overflow) \<Rightarrow> (h, h3_send head_ok response_413)
      | (_, _) \<Rightarrow> (h, []))"

section \<open>Properties\<close>

fun pieces :: "recv list \<Rightarrow> string list" where
  "pieces [] = []"
| "pieces (RecvData ps # rs) = ps @ pieces rs"
| "pieces (_ # rs) = pieces rs"

lemma take_pieces_spec:
  assumes "length body \<le> m"
  shows "(length (body @ concat ps) \<le> m \<longrightarrow> take_pieces m body ps = (body @ concat ps, False))
    \<and> (m < length (body @ concat ps) \<longrightarrow> snd (take_pieces m body ps))"
  using assms by (induction m body ps rule: take_pieces.induct) auto

lemma take_pieces_held:
  assumes "length body \<le> m" "take_pieces m body ps = (held, over)"
  shows "\<exists>b p. held = b @ p \<and> length b \<le> m \<and> p \<in> set ([] # ps) \<and> (\<not> over \<longrightarrow> length held \<le> m)"
  using assms
proof (induction m body ps rule: take_pieces.induct)
  case (2 m body p ps)
  show ?case
  proof (cases "m < length (body @ p)")
    case True
    with 2(2,3) show ?thesis by auto
  next
    case False
    then have t: "length (body @ p) \<le> m" "take_pieces m (body @ p) ps = (held, over)" using 2(3) by simp_all
    from 2(1) [OF False t] show ?thesis by auto
  qed
qed auto

lemma recv_body_held:
  assumes "length body \<le> m"
  shows "\<exists>b p. fst (recv_body m body rs) = b @ p \<and> length b \<le> m \<and> p \<in> set ([] # pieces rs)"
  using assms
proof (induction rs arbitrary: body)
  case (Cons r rs)
  show ?case
  proof (cases r)
    case (RecvData ps)
    obtain held over where t: "take_pieces m body ps = (held, over)" by (cases "take_pieces m body ps")
    from take_pieces_held [OF Cons.prems t] obtain b p where
      h: "held = b @ p" "length b \<le> m" "p \<in> set ([] # ps)" "\<not> over \<longrightarrow> length held \<le> m" by blast
    show ?thesis
    proof (cases over)
      case True
      with h t RecvData show ?thesis by (intro exI [of _ b] exI [of _ p]) auto
    next
      case False
      with Cons.IH [of held] h(4) t RecvData show ?thesis by auto
    qed
  qed (use Cons.prems in auto)
qed auto

lemma recv_body_complete:
  assumes "length body \<le> m"
  shows "case recv_body m body (map RecvData pss @ RecvEnd # rest) of (held, c) \<Rightarrow>
     (if length (body @ concat (concat pss)) \<le> m then c = Complete \<and> held = body @ concat (concat pss)
      else c = Overflow)"
  using assms
proof (induction pss arbitrary: body)
  case (Cons ps pss)
  from take_pieces_spec [OF Cons.prems, of ps] consider
      (fits) "length (body @ concat ps) \<le> m" "take_pieces m body ps = (body @ concat ps, False)"
    | (over) "m < length (body @ concat ps)" "snd (take_pieces m body ps)" by linarith
  then show ?case
  proof cases
    case fits
    with Cons.IH [of "body @ concat ps"] show ?thesis by (auto split: prod.splits)
  next
    case over
    then show ?thesis by (cases "take_pieces m body ps") auto
  qed
qed simp

text \<open>
  C21. HTTP/3 bodies are collected under the limit, however they are cut into chunks and pieces. A
  request whose body ends within the limit is handled with exactly the bytes that were sent; a longer
  one is answered 413 and the handler never runs on it; and at no moment is more held than the limit
  and one piece.
\<close>

theorem h3_body_capped:
  "serve_h3_request X E h max_body req remote (map RecvData pss @ RecvEnd # rest) head_ok =
     (if length (concat (concat pss)) \<le> unat max_body
      then (case handle_h3 X E h req (concat (concat pss)) remote of
              (h, resp) \<Rightarrow> (h, case resp of None \<Rightarrow> [] | Some resp \<Rightarrow> h3_send head_ok resp))
      else (h, h3_send head_ok response_413))
   \<and> (\<exists>b p. fst (recv_body (unat max_body) [] rs) = b @ p \<and> length b \<le> unat max_body
        \<and> p \<in> set ([] # pieces rs))"
proof
  obtain held c where r: "recv_body (unat max_body) [] (map RecvData pss @ RecvEnd # rest) = (held, c)"
    by (cases "recv_body (unat max_body) [] (map RecvData pss @ RecvEnd # rest)")
  with recv_body_complete [of "[]" "unat max_body" pss rest]
  show "serve_h3_request X E h max_body req remote (map RecvData pss @ RecvEnd # rest) head_ok =
     (if length (concat (concat pss)) \<le> unat max_body
      then (case handle_h3 X E h req (concat (concat pss)) remote of
              (h, resp) \<Rightarrow> (h, case resp of None \<Rightarrow> [] | Some resp \<Rightarrow> h3_send head_ok resp))
      else (h, h3_send head_ok response_413))"
    by (auto simp: serve_h3_request_def split: prod.split option.split if_splits)
  show "\<exists>b p. fst (recv_body (unat max_body) [] rs) = b @ p \<and> length b \<le> unat max_body
      \<and> p \<in> set ([] # pieces rs)"
    by (rule recv_body_held) simp
qed

text \<open>
  A reload does not reach the certificate of a QUIC listener: after any events it is the one of the
  start, a renewed certificate is served by the TCP listeners only.
\<close>

definition quic_run :: "ext \<Rightarrow> (quic_event \<times> usize) list \<Rightarrow> 'c quic_listener \<Rightarrow> 'c quic_listener" where
  "quic_run X evs ql = fold (\<lambda>(ev, active) ql. fst (quic_step X ev ql active)) evs ql"

theorem quic_certificate_frozen:
  "ql_config (quic_run X evs ql) = ql_config ql"
proof (induction evs arbitrary: ql)
  case (Cons p evs)
  have "ql_config (fst (quic_step X ev ql active)) = ql_config ql" for ev active
    by (simp add: quic_step_def quic_reload_def Let_def
        split: quic_event.split option.split prod.split bool.split)
  with Cons show ?case by (simp add: quic_run_def split: prod.split)
qed (simp add: quic_run_def)

end
