(* ===== verification/Server_State.thy ===== *)
theory Server_State
  imports Server_Quic
begin

text \<open>
  The running server: the TCP and QUIC listeners with the services they made, the connections being
  served, and the connection counter they share. A step is an event of one listener, a request on one
  connection, or the end of a connection; any order of steps is possible.
\<close>

section \<open>States\<close>

record 'c server_state =
  sv_active :: usize
  sv_listeners :: "'c listener list"
  sv_conns :: "(nat \<times> conn_task) list"
  sv_quic :: "'c quic_listener list"
  sv_quic_conns :: "(nat \<times> quic_task) list"

text \<open>The state once the accept loops have been spawned.\<close>

definition server_init :: "'c listener list \<Rightarrow> 'c quic_listener list \<Rightarrow> 'c server_state" where
  "server_init lns qls =
     \<lparr>sv_active = 0, sv_listeners = lns, sv_conns = [], sv_quic = qls, sv_quic_conns = []\<rparr>"

definition spawned :: "nat \<Rightarrow> accept_action \<Rightarrow> (nat \<times> conn_task) list" where
  "spawned i act = (case act of Spawn t \<Rightarrow> [(i, t)] | _ \<Rightarrow> [])"

definition quic_spawned :: "nat \<Rightarrow> quic_action \<Rightarrow> (nat \<times> quic_task) list" where
  "quic_spawned i act = (case act of QuicSpawn t \<Rightarrow> [(i, t)] | _ \<Rightarrow> [])"

text \<open>\<^verbatim>\<open>ConnectionGuard\<close>: the end of a connection's task, by whatever way, gives the slot back.\<close>

definition connection_guard_drop :: "usize \<Rightarrow> usize" where
  "connection_guard_drop active = release_connection active"

text \<open>The challenge store is shared with the ACME task: a request sees it as it is then.\<close>

definition with_store :: "'c challenge_store \<Rightarrow> 'c handler_service \<Rightarrow> 'c handler_service" where
  "with_store store h = h \<lparr>hs_acme_store := map_option (\<lambda>_. store) (hs_acme_store h)\<rparr>"

section \<open>Steps\<close>

text \<open>What connections do by themselves, and with it what the listeners do.\<close>

inductive conn_work :: "ext \<Rightarrow> 'c server_state \<Rightarrow> 'c server_state \<Rightarrow> bool" for X where
  connection_request:
    "(i, t) \<in> set (sv_conns s) \<Longrightarrow> i < length (sv_listeners s) \<Longrightarrow> ln = sv_listeners s ! i \<Longrightarrow>
     ct_handler t < length (ln_handlers ln) \<Longrightarrow>
     handle X E (with_store store (ln_handlers ln ! ct_handler t)) req (ct_remote t) = (h, resp) \<Longrightarrow>
     conn_work X s
       (s \<lparr>sv_listeners := (sv_listeners s)[i := ln \<lparr>ln_handlers := (ln_handlers ln)[ct_handler t := h]\<rparr>]\<rparr>)"
| connection_end:
    "sv_conns s = cs @ c # cs' \<Longrightarrow>
     conn_work X s (s \<lparr>sv_active := connection_guard_drop (sv_active s), sv_conns := cs @ cs'\<rparr>)"
| quic_request:
    "(i, t) \<in> set (sv_quic_conns s) \<Longrightarrow> i < length (sv_quic s) \<Longrightarrow> ql = sv_quic s ! i \<Longrightarrow>
     qt_handler t < length (ql_handlers ql) \<Longrightarrow>
     serve_h3_request X E (ql_handlers ql ! qt_handler t) (qt_max_body t) req remote rs head_ok = (h, sent) \<Longrightarrow>
     conn_work X s
       (s \<lparr>sv_quic := (sv_quic s)[i := ql \<lparr>ql_handlers := (ql_handlers ql)[qt_handler t := h]\<rparr>]\<rparr>)"
| quic_end:
    "sv_quic_conns s = cs @ c # cs' \<Longrightarrow>
     conn_work X s (s \<lparr>sv_active := connection_guard_drop (sv_active s), sv_quic_conns := cs @ cs'\<rparr>)"

inductive server_step :: "ext \<Rightarrow> 'c server_state \<Rightarrow> 'c server_state \<Rightarrow> bool" for X where
  listener_event:
    "i < length (sv_listeners s) \<Longrightarrow>
     accept_step X ev (sv_listeners s ! i) (sv_active s) = (ln, active, act) \<Longrightarrow>
     server_step X s
       (s \<lparr>sv_active := active, sv_listeners := (sv_listeners s)[i := ln],
           sv_conns := spawned i act @ sv_conns s\<rparr>)"
| quic_event:
    "i < length (sv_quic s) \<Longrightarrow>
     quic_step X ev (sv_quic s ! i) (sv_active s) = (ql, active, act) \<Longrightarrow>
     server_step X s
       (s \<lparr>sv_active := active, sv_quic := (sv_quic s)[i := ql],
           sv_quic_conns := quic_spawned i act @ sv_quic_conns s\<rparr>)"
| connection: "conn_work X s s' \<Longrightarrow> server_step X s s'"

lemma server_step_cases [consumes 1, case_names listener_event connection_request connection_end
    quic_event quic_request quic_end]:
  assumes "server_step X s s'"
  obtains i ev ln active act where
    "s' = s \<lparr>sv_active := active, sv_listeners := (sv_listeners s)[i := ln],
        sv_conns := spawned i act @ sv_conns s\<rparr>"
    "i < length (sv_listeners s)" "accept_step X ev (sv_listeners s ! i) (sv_active s) = (ln, active, act)"
  | i t ln E store req h resp where
    "s' = s \<lparr>sv_listeners := (sv_listeners s)[i := ln \<lparr>ln_handlers := (ln_handlers ln)[ct_handler t := h]\<rparr>]\<rparr>"
    "(i, t) \<in> set (sv_conns s)" "i < length (sv_listeners s)" "ln = sv_listeners s ! i"
    "ct_handler t < length (ln_handlers ln)"
    "handle X E (with_store store (ln_handlers ln ! ct_handler t)) req (ct_remote t) = (h, resp)"
  | cs c cs' where
    "s' = s \<lparr>sv_active := connection_guard_drop (sv_active s), sv_conns := cs @ cs'\<rparr>"
    "sv_conns s = cs @ c # cs'"
  | i ev ql active act where
    "s' = s \<lparr>sv_active := active, sv_quic := (sv_quic s)[i := ql],
        sv_quic_conns := quic_spawned i act @ sv_quic_conns s\<rparr>"
    "i < length (sv_quic s)" "quic_step X ev (sv_quic s ! i) (sv_active s) = (ql, active, act)"
  | i t ql E req remote rs head_ok h sent where
    "s' = s \<lparr>sv_quic := (sv_quic s)[i := ql \<lparr>ql_handlers := (ql_handlers ql)[qt_handler t := h]\<rparr>]\<rparr>"
    "(i, t) \<in> set (sv_quic_conns s)" "i < length (sv_quic s)" "ql = sv_quic s ! i"
    "qt_handler t < length (ql_handlers ql)"
    "serve_h3_request X E (ql_handlers ql ! qt_handler t) (qt_max_body t) req remote rs head_ok = (h, sent)"
  | cs c cs' where
    "s' = s \<lparr>sv_active := connection_guard_drop (sv_active s), sv_quic_conns := cs @ cs'\<rparr>"
    "sv_quic_conns s = cs @ c # cs'"
  using assms
proof (cases rule: server_step.cases)
  case listener_event
  show ?thesis by (rule that(1)) fact+
next
  case quic_event
  show ?thesis by (rule that(4)) fact+
next
  case connection
  then show ?thesis
  proof (cases rule: conn_work.cases)
    case connection_request
    show ?thesis by (rule that(2)) fact+
  next
    case connection_end
    show ?thesis by (rule that(3)) fact+
  next
    case quic_request
    show ?thesis by (rule that(5)) fact+
  next
    case quic_end
    show ?thesis by (rule that(6)) fact+
  qed
qed

abbreviation server_reachable :: "ext \<Rightarrow> 'c server_state \<Rightarrow> 'c server_state \<Rightarrow> bool" where
  "server_reachable X \<equiv> (server_step X)\<^sup>*\<^sup>*"

end
