(* ===== verification/Server_Conns.thy ===== *)
theory Server_Conns
  imports Server_State
begin

text \<open>
  The accept loops in operation: how many connections are open, which configuration serves them, and
  when a TLS listener talks TLS.
\<close>

section \<open>What a request leaves of a service\<close>

text \<open>The parts a request may change; the resolver only by its own steps.\<close>

definition moved :: "ext \<Rightarrow> 'c handler_service \<Rightarrow> 'c handler_service \<Rightarrow> bool" where
  "moved X h h' \<longleftrightarrow>
     (\<exists>router b r lg st. h' = h \<lparr>hs_ab_router := router, hs_balancer := b,
          hs_proxy := (hs_proxy h) \<lparr>pc_resolver := r\<rparr>, hs_access_logger := lg, hs_acme_store := st\<rparr>
        \<and> rerouted (hs_ab_router h) router \<and> turned (hs_balancer h) b
        \<and> (resolver_step X)\<^sup>*\<^sup>* (pc_resolver (hs_proxy h)) r)"

lemma movedI:
  assumes "hs_http_block h' = hs_http_block h" "hs_geoip h' = hs_geoip h" "hs_rewriter h' = hs_rewriter h"
    and "hs_locations h' = hs_locations h" "hs_scheme h' = hs_scheme h" "hs_hsts h' = hs_hsts h"
    and "hs_max_body h' = hs_max_body h"
    and "rerouted (hs_ab_router h) (hs_ab_router h')" "turned (hs_balancer h) (hs_balancer h')"
    and "hs_proxy h' = (hs_proxy h) \<lparr>pc_resolver := pc_resolver (hs_proxy h')\<rparr>"
    and "(resolver_step X)\<^sup>*\<^sup>* (pc_resolver (hs_proxy h)) (pc_resolver (hs_proxy h'))"
  shows "moved X h h'"
  unfolding moved_def
  by (intro exI [of _ "hs_ab_router h'"] exI [of _ "hs_balancer h'"] exI [of _ "pc_resolver (hs_proxy h')"]
      exI [of _ "hs_access_logger h'"] exI [of _ "hs_acme_store h'"] conjI handler_service.equality)
    (use assms in simp_all)

lemma moved_fields:
  assumes "moved X h h'"
  shows "hs_http_block h' = hs_http_block h \<and> hs_geoip h' = hs_geoip h \<and> hs_rewriter h' = hs_rewriter h
    \<and> hs_locations h' = hs_locations h \<and> hs_scheme h' = hs_scheme h \<and> hs_hsts h' = hs_hsts h
    \<and> hs_max_body h' = hs_max_body h
    \<and> rerouted (hs_ab_router h) (hs_ab_router h') \<and> turned (hs_balancer h) (hs_balancer h')
    \<and> hs_proxy h' = (hs_proxy h) \<lparr>pc_resolver := pc_resolver (hs_proxy h')\<rparr>
    \<and> (resolver_step X)\<^sup>*\<^sup>* (pc_resolver (hs_proxy h)) (pc_resolver (hs_proxy h'))"
  using assms by (auto simp: moved_def)

lemma moved_refl [simp]: "moved X h h"
  by (rule movedI) simp_all

lemma moved_trans: "moved X h1 h2 \<Longrightarrow> moved X h2 h3 \<Longrightarrow> moved X h1 h3"
  unfolding moved_def [of X h1 h2] moved_def [of X h2 h3] by (auto intro!: movedI elim: rtranclp_trans rerouted_trans turned_trans)

lemma service_moves_moved: "service_moves X h h' \<Longrightarrow> moved X h h'"
  by (auto simp: service_moves_def intro!: movedI)

lemma with_store_moved: "moved X h (with_store store h)"
  by (rule movedI) (simp_all add: with_store_def)

lemma log_request_moved: "moved X h (log_request X E h remote m target resp ua)"
  by (rule movedI) (simp_all add: log_request_def)

lemma answer_moved: "moved X h (fst hr) \<Longrightarrow> moved X h (fst (answer X E remote m target ua hr))"
  by (cases hr) (auto simp: answer_def split: option.split intro: moved_trans log_request_moved)

lemma handle_collected_moved: "moved X h (fst (handle_collected X E h req remote))"
  using service_moves_moved [OF process_moves, of X h E req remote]
  by (auto simp: handle_collected_def split: prod.split outcome.split)

lemma connect_addresses_moved: "moved X h (fst (connect_addresses X E h host port))"
proof -
  have "moved X h (h \<lparr>hs_proxy := (hs_proxy h) \<lparr>pc_resolver :=
      fst (resolve_checked X (pc_resolver (hs_proxy h)) host now a later)\<rparr>\<rparr>)" for now a later
    by (rule movedI) (simp_all add: resolve_checked_steps)
  then show ?thesis
    by (simp add: connect_addresses_def split: option.split prod.split) (metis fst_conv)
qed

lemma handle_connect_moved: "moved X h (fst (handle_connect X E h req))"
proof -
  have "moved X h h'" if "connect_addresses X E h host port = (h', r)" for h' r host port
    using connect_addresses_moved [of X h E host port] that by simp
  then show ?thesis
    by (simp add: handle_connect_def split: option.split prod.split)
qed

lemma handle_moved: "moved X h (fst (handle X E h req remote))"
proof -
  have "moved X h h'" if "handle_connect X E h req = (h', resp, r)" for h' resp r
    using handle_connect_moved [of X h E req] that by simp
  then show ?thesis
    by (auto simp: handle_def Let_def answer_moved handle_collected_moved
        split: option.split prod.split outcome.split sum.split)
qed

section \<open>Connections and slots\<close>

definition slots_inv :: "'c server_state \<Rightarrow> bool" where
  "slots_inv s \<longleftrightarrow>
     unat (sv_active s) = length (sv_conns s) + length (sv_quic_conns s)
     \<and> length (sv_conns s) + length (sv_quic_conns s) \<le> 10000"

lemma acquire_connection_cases:
  "acquire_connection c = (if c < MAX_CONNECTIONS then (c + 1, True) else (c, False))"
  by (simp add: acquire_connection_def fetch_add_def fetch_sub_def not_less)

lemma accept_step_slots:
  assumes "accept_step X ev ln active = (ln', active', act)"
  shows "(\<exists>t. act = Spawn t \<and> active < MAX_CONNECTIONS \<and> active' = active + 1)
    \<or> (spawned i act = [] \<and> active' = active)"
  using assms
  by (auto simp: accept_step_def acquire_connection_cases spawned_def
      split: if_splits accept_event.splits option.splits)

lemma quic_step_slots:
  assumes "quic_step X ev ql active = (ql', active', act)"
  shows "(\<exists>t. act = QuicSpawn t \<and> active < MAX_CONNECTIONS \<and> active' = active + 1)
    \<or> (quic_spawned i act = [] \<and> active' = active)"
  using assms
  by (auto simp: quic_step_def acquire_connection_cases quic_spawned_def
      split: if_splits quic_event.splits option.splits)

lemma server_step_slots:
  assumes "server_step X s s'" "slots_inv s"
  shows "slots_inv s'"
  using assms(1)
proof (cases rule: server_step_cases)
  case (listener_event i ev ln active act)
  from accept_step_slots [OF listener_event(3), of i] assms(2) show ?thesis
    by (auto simp: listener_event(1) slots_inv_def spawned_def MAX_CONNECTIONS_def word_less_nat_alt counter_up)
next
  case (connection_end cs c cs')
  with assms(2) show ?thesis
    by (simp add: slots_inv_def connection_guard_drop_def release_connection_def counter_down)
next
  case (quic_event i ev ql active act)
  from quic_step_slots [OF quic_event(3), of i] assms(2) show ?thesis
    by (auto simp: quic_event(1) slots_inv_def quic_spawned_def MAX_CONNECTIONS_def word_less_nat_alt counter_up)
next
  case (quic_end cs c cs')
  with assms(2) show ?thesis
    by (simp add: slots_inv_def connection_guard_drop_def release_connection_def counter_down)
qed (use assms(2) in \<open>simp_all add: slots_inv_def\<close>)

text \<open>
  C7. The process-wide cap holds over all HTTP listeners, TCP and QUIC: whatever connections come, are
  refused or end, the counter is the number of connections being served, so it neither leaks nor
  wraps, and that number never exceeds 10000.
\<close>

theorem served_connections_capped:
  assumes "server_reachable X (server_init lns qls) s"
  shows "unat (sv_active s) = length (sv_conns s) + length (sv_quic_conns s)
    \<and> length (sv_conns s) + length (sv_quic_conns s) \<le> 10000"
  using assms
proof (induction rule: rtranclp_induct)
  case base
  show ?case by (simp add: server_init_def)
next
  case (step s s')
  with server_step_slots [of X s s'] show ?case by (simp add: slots_inv_def)
qed

section \<open>Generations\<close>

text \<open>The services made from a block, as requests may have left them.\<close>

definition serves :: "ext \<Rightarrow> bool \<Rightarrow> http_block \<Rightarrow> timeout_settings \<Rightarrow> 'c handler_service \<Rightarrow> bool" where
  "serves X tls hb timeouts h \<longleftrightarrow>
     (\<exists>os geo lg st. moved X (handler_new X os geo hb lg st tls timeouts) h)"

lemma serves_new [simp]: "serves X tls hb timeouts (handler_new X os geo hb lg st tls timeouts)"
  unfolding serves_def by (blast intro: moved_refl)

lemma serves_moved: "serves X tls hb timeouts h \<Longrightarrow> moved X h h' \<Longrightarrow> serves X tls hb timeouts h'"
  unfolding serves_def by (blast intro: moved_trans)

text \<open>How a listener may change: services are only added, or moved by requests.\<close>

definition grows :: "ext \<Rightarrow> 'c listener \<Rightarrow> 'c listener \<Rightarrow> bool" where
  "grows X ln ln' \<longleftrightarrow>
     ln_tls ln' = ln_tls ln \<and> length (ln_handlers ln) \<le> length (ln_handlers ln')
     \<and> (\<forall>g<length (ln_handlers ln). moved X (ln_handlers ln ! g) (ln_handlers ln' ! g))"

lemma grows_refl [simp]: "grows X ln ln"
  by (simp add: grows_def)

lemma grows_trans: "grows X a b \<Longrightarrow> grows X b c \<Longrightarrow> grows X a c"
  unfolding grows_def by (meson le_trans less_le_trans moved_trans)

definition current :: "ext \<Rightarrow> 'c listener \<Rightarrow> bool" where
  "current X ln \<longleftrightarrow>
     ln_handlers ln \<noteq> []
     \<and> serves X (ln_tls ln) (ln_block ln) (ln_timeouts ln) (ln_handlers ln ! (length (ln_handlers ln) - 1))"

lemma accept_start_current: "accept_start X W hb idx tls acme timeouts = Some ln \<Longrightarrow> current X ln"
  by (auto simp: accept_start_def current_def split: option.splits)

lemma accept_reload_grows:
  assumes "accept_reload X W cf ln = Some ln'"
  shows "grows X ln ln' \<and> (current X ln \<longrightarrow> current X ln')"
  using assms
  by (auto simp: accept_reload_def grows_def current_def Let_def nth_append split: option.splits)

lemma accept_step_grows:
  assumes "accept_step X ev ln active = (ln', active', act)"
  shows "grows X ln ln' \<and> (current X ln \<longrightarrow> current X ln')"
proof -
  have stop: "grows X ln (ln \<lparr>ln_running := False\<rparr>)"
    "current X ln \<longrightarrow> current X (ln \<lparr>ln_running := False\<rparr>)"
    by (simp_all add: grows_def current_def)
  show ?thesis
    using assms accept_reload_grows [of X _ _ ln] stop
    by (auto simp: accept_step_def acquire_connection_cases
        split: if_splits accept_event.splits option.splits)
qed

definition conn_ok :: "ext \<Rightarrow> 'c listener list \<Rightarrow> nat \<times> conn_task \<Rightarrow> bool" where
  "conn_ok X lns c \<longleftrightarrow>
     (case c of (i, t) \<Rightarrow>
        i < length lns \<and> ct_handler t < length (ln_handlers (lns ! i))
        \<and> (\<exists>hb. serves X (ln_tls (lns ! i)) hb (ct_timeouts t) (ln_handlers (lns ! i) ! ct_handler t)
             \<and> ct_reset_rate t = reset_rate_of hb))"

definition grow_all :: "ext \<Rightarrow> 'c listener list \<Rightarrow> 'c listener list \<Rightarrow> bool" where
  "grow_all X lns lns' \<longleftrightarrow> length lns' = length lns \<and> (\<forall>i<length lns. grows X (lns ! i) (lns' ! i))"

lemma grow_all_update: "grows X (lns ! i) ln \<Longrightarrow> grow_all X lns (lns[i := ln])"
  by (cases "i < length lns") (auto simp: grow_all_def nth_list_update)

lemma conn_ok_grow: "conn_ok X lns c \<Longrightarrow> grow_all X lns lns' \<Longrightarrow> conn_ok X lns' c"
  by (cases c)
    (force simp: conn_ok_def grow_all_def grows_def intro: serves_moved)

lemma server_step_grow:
  assumes "server_step X s s'"
  shows "grow_all X (sv_listeners s) (sv_listeners s')"
  using assms
proof (cases rule: server_step_cases)
  case (listener_event i ev ln active act)
  with accept_step_grows [OF listener_event(3)] show ?thesis by (simp add: grow_all_update)
next
  case (connection_request i t ln E store req h resp)
  have "moved X (ln_handlers ln ! ct_handler t) h"
    using moved_trans [OF with_store_moved handle_moved] connection_request(6) by (metis fst_conv)
  then have "grows X ln (ln \<lparr>ln_handlers := (ln_handlers ln)[ct_handler t := h]\<rparr>)"
    using connection_request(5) by (auto simp: grows_def nth_list_update)
  with connection_request show ?thesis by (simp add: grow_all_update)
qed (simp_all add: grow_all_def)

lemma server_steps_grow:
  "server_reachable X s s' \<Longrightarrow> grow_all X (sv_listeners s) (sv_listeners s')"
proof (induction rule: rtranclp_induct)
  case (step y z)
  with server_step_grow [OF step(2)] show ?case
    by (auto simp: grow_all_def intro: grows_trans)
qed (simp add: grow_all_def)

definition generation_inv :: "ext \<Rightarrow> 'c server_state \<Rightarrow> bool" where
  "generation_inv X s \<longleftrightarrow>
     (\<forall>ln\<in>set (sv_listeners s). current X ln) \<and> (\<forall>c\<in>set (sv_conns s). conn_ok X (sv_listeners s) c)"

lemma spawned_conn_ok:
  assumes "accept_step X ev ln active = (ln', active', act)" "current X ln"
    and "c \<in> set (spawned i act)" "i < length lns" "lns ! i = ln'"
  shows "conn_ok X lns c"
  using assms
  by (auto simp: accept_step_def spawned_def conn_ok_def current_def acquire_connection_cases
      split: if_splits accept_event.splits option.splits)

lemma server_step_generation:
  assumes "server_step X s s'" "generation_inv X s"
  shows "generation_inv X s'"
  using assms(1)
proof (cases rule: server_step_cases)
  case (listener_event i ev ln active act)
  have cur: "current X (sv_listeners s ! i)" using assms(2) listener_event(2) by (simp add: generation_inv_def)
  then have "current X ln" using accept_step_grows [OF listener_event(3)] by simp
  then have "\<forall>ln\<in>set (sv_listeners s'). current X ln"
    using assms(2) by (auto simp: listener_event(1) generation_inv_def dest: subsetD [OF set_update_subset_insert])
  moreover have "conn_ok X (sv_listeners s') c" if "c \<in> set (sv_conns s')" for c
  proof (cases "c \<in> set (spawned i act)")
    case True
    from spawned_conn_ok [OF listener_event(3) cur True, of "sv_listeners s'"] listener_event show ?thesis by simp
  next
    case False
    with that assms(2) have "conn_ok X (sv_listeners s) c" by (simp add: listener_event(1) generation_inv_def)
    then show ?thesis by (rule conn_ok_grow [OF _ server_step_grow [OF assms(1)]])
  qed
  ultimately show ?thesis by (simp add: generation_inv_def)
next
  case (connection_request i t ln E store req h resp)
  have "moved X (ln_handlers ln ! ct_handler t) h"
    using moved_trans [OF with_store_moved handle_moved] connection_request(6) by (metis fst_conv)
  then have "current X ln \<Longrightarrow> current X (ln \<lparr>ln_handlers := (ln_handlers ln)[ct_handler t := h]\<rparr>)"
    using connection_request(5) by (auto simp: current_def nth_list_update intro: serves_moved)
  then have "\<forall>ln\<in>set (sv_listeners s'). current X ln"
    using assms(2) connection_request(1,3,4)
    by (auto simp: generation_inv_def dest: subsetD [OF set_update_subset_insert])
  with assms(2) conn_ok_grow [OF _ server_step_grow [OF assms(1)]] show ?thesis
    by (simp add: generation_inv_def connection_request(1))
next
  case (connection_end cs c cs')
  with assms(2) show ?thesis by (simp add: generation_inv_def)
qed (use assms(2) in \<open>simp_all add: generation_inv_def\<close>)

lemma generation_inv_reachable:
  assumes "server_reachable X (server_init lns qls) s" "\<forall>ln\<in>set lns. current X ln"
  shows "generation_inv X s"
  using assms(1)
proof (induction rule: rtranclp_induct)
  case base
  show ?case using assms(2) by (simp add: generation_inv_def server_init_def)
qed (rule server_step_generation)

text \<open>A listener as the accept loop sets it up.\<close>

definition started_listener :: "ext \<Rightarrow> 'c listener \<Rightarrow> bool" where
  "started_listener X ln \<longleftrightarrow>
     (\<exists>W hb idx tls acme timeouts. accept_start X W hb idx tls acme timeouts = Some ln)"


section \<open>All services\<close>

text \<open>
  Every service in the server, of whatever listener and generation, was made from some block; its DNS
  cache has come about by the resolver's own steps, so it holds vetted addresses only.
\<close>

definition services :: "'c server_state \<Rightarrow> 'c handler_service set" where
  "services s = (\<Union>ln\<in>set (sv_listeners s). set (ln_handlers ln)) \<union> (\<Union>ql\<in>set (sv_quic s). set (ql_handlers ql))"

definition made :: "ext \<Rightarrow> 'c handler_service \<Rightarrow> bool" where
  "made X h \<longleftrightarrow> (\<exists>tls hb timeouts. serves X tls hb timeouts h)"

lemma made_new [simp]: "made X (handler_new X os geo hb lg st tls timeouts)"
  unfolding made_def using serves_new by blast

lemma made_moved: "made X h \<Longrightarrow> moved X h h' \<Longrightarrow> made X h'"
  unfolding made_def using serves_moved by blast

lemma accept_step_made:
  assumes "accept_step X ev ln active = (ln', active', act)" "\<forall>h\<in>set (ln_handlers ln). made X h"
  shows "\<forall>h\<in>set (ln_handlers ln'). made X h"
  using assms
  by (auto simp: accept_step_def accept_reload_def acquire_connection_cases Let_def
      split: if_splits accept_event.splits option.splits)

lemma quic_step_made:
  assumes "quic_step X ev ql active = (ql', active', act)" "\<forall>h\<in>set (ql_handlers ql). made X h"
  shows "\<forall>h\<in>set (ql_handlers ql'). made X h"
  using assms
  by (auto simp: quic_step_def quic_reload_def acquire_connection_cases Let_def
      split: if_splits quic_event.splits option.splits)

lemma handle_h3_moved: "moved X h (fst (handle_h3 X E h req body remote))"
  by (auto simp: handle_h3_def Let_def answer_moved handle_collected_moved split: option.split)

lemma serve_h3_request_moved: "moved X h (fst (serve_h3_request X E h mx req remote rs ok))"
proof -
  have "moved X h h'" if "handle_h3 X E h req body remote = (h', r)" for h' r body
    using handle_h3_moved [of X h E req body remote] that by simp
  then show ?thesis
    by (auto simp: serve_h3_request_def split: prod.split collecting.split option.split)
qed

lemma services_update:
  "h \<in> services (s \<lparr>sv_listeners := (sv_listeners s)[i := ln]\<rparr>) \<Longrightarrow> h \<in> services s \<or> h \<in> set (ln_handlers ln)"
  "h \<in> services (s \<lparr>sv_quic := (sv_quic s)[i := ql]\<rparr>) \<Longrightarrow> h \<in> services s \<or> h \<in> set (ql_handlers ql)"
  by (auto simp: services_def dest!: subsetD [OF set_update_subset_insert])

lemma services_listener: "i < length (sv_listeners s) \<Longrightarrow> h \<in> set (ln_handlers (sv_listeners s ! i)) \<Longrightarrow> h \<in> services s"
  using nth_mem [of i "sv_listeners s"] by (auto simp: services_def simp del: nth_mem)

lemma services_quic: "i < length (sv_quic s) \<Longrightarrow> h \<in> set (ql_handlers (sv_quic s ! i)) \<Longrightarrow> h \<in> services s"
  using nth_mem [of i "sv_quic s"] by (auto simp: services_def simp del: nth_mem)

lemma update_moves:
  assumes "h' \<in> set (hs[g := h])" "g < length hs" "moved X (hs ! g) h"
  shows "\<exists>k\<in>set hs. moved X k h'"
proof -
  from assms(1) have "h' = h \<or> h' \<in> set hs" by (auto dest: subsetD [OF set_update_subset_insert])
  with assms(2,3) show ?thesis using nth_mem [OF assms(2)] moved_refl by blast
qed

lemma conn_work_moves:
  assumes "conn_work X s s'"
  shows "\<forall>h'\<in>services s'. \<exists>h\<in>services s. moved X h h'"
  using assms
proof cases
  case (connection_request i t ln E store req h resp)
  have m: "moved X (ln_handlers ln ! ct_handler t) h"
    using moved_trans [OF with_store_moved handle_moved] connection_request(6) by (metis fst_conv)
  have g: "g \<in> services s" if "g \<in> set (ln_handlers ln)" for g
    using services_listener [OF connection_request(3)] that connection_request(4) by simp
  show ?thesis
  proof
    fix h' assume "h' \<in> services s'"
    then have "h' \<in> services s \<or> h' \<in> set ((ln_handlers ln)[ct_handler t := h])"
      unfolding connection_request(1) using services_update(1) by fastforce
    with g show "\<exists>h\<in>services s. moved X h h'"
      using update_moves [OF _ connection_request(5) m] moved_refl by blast
  qed
next
  case (quic_request i t ql E req remote rs head_ok h sent)
  have m: "moved X (ql_handlers ql ! qt_handler t) h"
    using serve_h3_request_moved quic_request(6) by (metis fst_conv)
  have g: "g \<in> services s" if "g \<in> set (ql_handlers ql)" for g
    using services_quic [OF quic_request(3)] that quic_request(4) by simp
  show ?thesis
  proof
    fix h' assume "h' \<in> services s'"
    then have "h' \<in> services s \<or> h' \<in> set ((ql_handlers ql)[qt_handler t := h])"
      unfolding quic_request(1) using services_update(2) by fastforce
    with g show "\<exists>h\<in>services s. moved X h h'"
      using update_moves [OF _ quic_request(5) m] moved_refl by blast
  qed
next
  case connection_end
  then have "services s' = services s" by (simp add: services_def)
  then show ?thesis using moved_refl by blast
next
  case quic_end
  then have "services s' = services s" by (simp add: services_def)
  then show ?thesis using moved_refl by blast
qed

lemma server_step_made:
  assumes "server_step X s s'" "\<forall>h\<in>services s. made X h"
  shows "\<forall>h\<in>services s'. made X h"
  using assms(1)
proof (cases rule: server_step.cases)
  case (listener_event i ev ln active act)
  have "\<forall>h\<in>set (ln_handlers ln). made X h"
    by (rule accept_step_made [OF listener_event(3)])
      (use assms(2) services_listener [OF listener_event(2)] in blast)
  with assms(2) show ?thesis
    by (auto simp: listener_event(1) services_def dest!: subsetD [OF set_update_subset_insert])
next
  case (quic_event i ev ql active act)
  have "\<forall>h\<in>set (ql_handlers ql). made X h"
    by (rule quic_step_made [OF quic_event(3)])
      (use assms(2) services_quic [OF quic_event(2)] in blast)
  with assms(2) show ?thesis
    by (auto simp: quic_event(1) services_def dest!: subsetD [OF set_update_subset_insert])
next
  case connection
  with assms(2) show ?thesis using conn_work_moves made_moved by blast
qed

text \<open>A QUIC listener as its loop sets it up.\<close>

definition started_quic :: "ext \<Rightarrow> 'c quic_listener \<Rightarrow> bool" where
  "started_quic X ql \<longleftrightarrow> (\<exists>W Q hb idx acme timeouts. quic_start X W Q hb idx acme timeouts = Ok ql)"

lemma quic_start_handlers:
  assumes "quic_start X W Q hb idx acme timeouts = Ok ql"
  shows "\<exists>lg. ql_handlers ql = [handler_new X (sr_os W) (sr_geo W) hb lg None True timeouts]"
proof (cases "hb_ssl hb")
  case (Some ssl)
  then show ?thesis
    using assms
    by (cases "quic_config_of (sr_rustls W) acme ssl"; cases "build_logger (sr_log W) (hb_access_log hb)")
      (auto simp: quic_start_def split: if_splits)
qed (use assms in \<open>simp add: quic_start_def\<close>)

lemma services_made:
  assumes "server_reachable X (server_init lns qls) s"
    and "\<forall>ln\<in>set lns. started_listener X ln" "\<forall>ql\<in>set qls. started_quic X ql" "h \<in> services s"
  shows "made X h"
proof -
  have "\<forall>h\<in>services s. made X h"
    using assms(1)
  proof (induction rule: rtranclp_induct)
    case base
    have "\<forall>h\<in>set (ln_handlers ln). made X h" if "started_listener X ln" for ln :: "'a listener"
      using that by (auto simp: started_listener_def accept_start_def split: option.splits)
    moreover have "\<forall>h\<in>set (ql_handlers ql). made X h" if "started_quic X ql" for ql :: "'a quic_listener"
      using that by (auto simp: started_quic_def dest!: quic_start_handlers)
    ultimately show ?case using assms(2,3) by (auto simp: services_def server_init_def)
  next
    case (step y z)
    then show ?case by (blast dest: server_step_made)
  qed
  with assms(4) show ?thesis by simp
qed

lemma made_resolver:
  assumes "made X h"
  shows "\<exists>ttl. (resolver_step X)\<^sup>*\<^sup>*
      (resolver_new (parse_networks X (hb_upstream_allowed_networks (hs_http_block h))) ttl)
      (pc_resolver (hs_proxy h))"
proof -
  from assms obtain os geo lg st tls hb timeouts
    where m: "moved X (handler_new X os geo hb lg st tls timeouts) h" by (auto simp: made_def serves_def)
  from moved_fields [OF m] show ?thesis
    by (auto simp: handler_new_def proxy_client_new_def)
qed

section \<open>Plaintext and TLS\<close>

text \<open>The connections a listener spawns over a run of events, each with the counter as it is then.\<close>

fun accept_run ::
  "ext \<Rightarrow> 'c listener \<Rightarrow> (accept_event \<times> usize) list \<Rightarrow> conn_task list" where
  "accept_run X ln [] = []"
| "accept_run X ln ((ev, active) # evs) =
     (case accept_step X ev ln active of
        (ln, _, act) \<Rightarrow> (case act of Spawn t \<Rightarrow> [t] | _ \<Rightarrow> []) @ accept_run X ln evs)"

text \<open>A reload after which the block, if it has TLS settings, has certificates that load.\<close>

definition reload_loads :: "ext \<Rightarrow> 'c acme_manager option \<Rightarrow> nat \<Rightarrow> accept_event \<Rightarrow> bool" where
  "reload_loads X acme idx ev =
     (case ev of
        Reload cf W \<Rightarrow>
          (case Option.bind (nth_opt (cf_http cf) idx) hb_ssl of
             Some ssl \<Rightarrow> acceptor_of X (sr_rustls W) acme ssl \<noteq> None
           | None \<Rightarrow> True)
      | _ \<Rightarrow> True)"

definition talks_tls :: "'c listener \<Rightarrow> bool" where
  "talks_tls ln \<longleftrightarrow>
     ln_tls ln \<and> (\<exists>a ck. ln_acceptor ln = Some a \<and> (ta_certs a = Single ck \<or> ta_certs a = Resolver ck)
        \<and> ck_certs ck \<noteq> [])"

lemma acceptor_of_cert:
  assumes "acceptor_of X R acme ssl = Some a"
  shows "\<exists>ck. (ta_certs a = Single ck \<or> ta_certs a = Resolver ck) \<and> ck_certs ck \<noteq> []"
  using assms acceptor_has_cert [of X R ssl a] 
  by (cases acme) (fastforce simp: acceptor_of_def split: sum.splits dest: acceptor_has_cert [OF disjI2])+

lemma accept_step_tls:
  assumes "accept_step X ev ln active = (ln', active', act)" "talks_tls ln"
    and "reload_loads X (ln_acme ln) (ln_idx ln) ev"
  shows "talks_tls ln' \<and> ln_acme ln' = ln_acme ln \<and> ln_idx ln' = ln_idx ln
    \<and> (\<forall>t. act = Spawn t \<longrightarrow> ct_acceptor t = ln_acceptor ln)"
proof (cases ev)
  case (Reload cf W)
  with assms show ?thesis
    by (auto simp: accept_step_def accept_reload_def reload_loads_def talks_tls_def Let_def
        dest!: acceptor_of_cert split: if_splits option.splits)
qed (use assms in \<open>auto simp: accept_step_def talks_tls_def acquire_connection_cases split: if_splits\<close>)

lemma accept_run_tls:
  assumes "talks_tls ln" "\<forall>(ev, _)\<in>set evs. reload_loads X (ln_acme ln) (ln_idx ln) ev"
  shows "\<forall>t\<in>set (accept_run X ln evs). \<exists>a ck. ct_acceptor t = Some a
    \<and> (ta_certs a = Single ck \<or> ta_certs a = Resolver ck) \<and> ck_certs ck \<noteq> []"
  using assms
proof (induction evs arbitrary: ln)
  case (Cons p evs)
  obtain ev active where p: "p = (ev, active)" by (cases p)
  obtain ln' active' act where st: "accept_step X ev ln active = (ln', active', act)"
    by (cases "accept_step X ev ln active")
  from accept_step_tls [OF st Cons.prems(1)] Cons.prems(2)
  have ln': "talks_tls ln'" "ln_acme ln' = ln_acme ln" "ln_idx ln' = ln_idx ln"
    "\<forall>t. act = Spawn t \<longrightarrow> ct_acceptor t = ln_acceptor ln" by (auto simp: p)
  then have "\<forall>t\<in>set (accept_run X ln' evs). \<exists>a ck. ct_acceptor t = Some a
      \<and> (ta_certs a = Single ck \<or> ta_certs a = Resolver ck) \<and> ck_certs ck \<noteq> []"
    using Cons.IH [of ln'] Cons.prems(2) by simp
  with ln'(4) Cons.prems(1) st show ?case
    by (auto simp: p talks_tls_def split: accept_action.splits)
qed simp

text \<open>
  C5. As long as its certificates load, a TLS listener talks TLS to everybody: no connection it accepts,
  through any run of events, is read or answered before a handshake with a certificate; after it the
  connection is HTTP/2 exactly when the client agreed on it, and a failed or slow handshake ends it.
\<close>

theorem tls_listener_talks_tls:
  assumes "accept_start X W hb idx True acme timeouts = Some ln"
    and "hb_ssl hb = Some ssl" "acceptor_of X (sr_rustls W) acme ssl = Some a"
    and "\<forall>(ev, _)\<in>set evs. reload_loads X acme idx ev"
    and "t \<in> set (accept_run X ln evs)"
  shows "(\<exists>a ck. ct_acceptor t = Some a \<and> (ta_certs a = Single ck \<or> ta_certs a = Resolver ck)
      \<and> ck_certs ck \<noteq> [])
    \<and> serve_task t shake r stream =
      (if shake = Handshaken (Some ''h2'') then ServeHttp2 (http2_settings (ct_reset_rate t) (ct_timeouts t))
       else if \<exists>alpn. shake = Handshaken alpn then ServeHttp1 (from_secs (unat (to_request (ct_timeouts t))))
       else HangUp)"
proof -
  have "talks_tls ln" "ln_acme ln = acme" "ln_idx ln = idx"
    using assms(1-3) acceptor_of_cert [OF assms(3)]
    by (auto simp: accept_start_def talks_tls_def split: option.splits)
  with accept_run_tls [of ln evs X] assms(4,5) show ?thesis
    by (fastforce simp: serve_task_def split: handshake.split)
qed


lemma reload_failure_drops_tls:
  assumes "ln_running ln" "ln_tls ln" "nth_opt (cf_http cf) (ln_idx ln) = Some hb"
    and "hb_ssl hb = Some ssl" "acceptor_of X (sr_rustls W) (ln_acme ln) ssl = None"
    and "build_logger (sr_log W) (hb_access_log hb) = Some lg"
  shows "ln_acceptor (fst (accept_step X (Reload cf W) ln active)) = None
    \<and> ln_running (fst (accept_step X (Reload cf W) ln active))"
  using assms by (simp add: accept_step_def accept_reload_def Let_def)


section \<open>Examples\<close>

definition sample_surroundings :: surroundings where
  "sample_surroundings =
     \<lparr>sr_os = any_os, sr_geo = (\<lambda>_. None), sr_rustls = sample_rustls, sr_log = (\<lambda>_ _. True)\<rparr>"

definition tls_block :: http_block where
  "tls_block = default_http_block [] \<lparr>hb_ssl := Some \<lparr>ssl_certificate = Some ''c.pem'',
     ssl_certificate_key = Some ''k.pem'', ssl_acme = None, ssl_protocols = default_tls_protocols\<rparr>\<rparr>"

definition bare_tls_block :: http_block where
  "bare_tls_block = default_http_block [\<lparr>ld_port = 443, ld_protocol = ''https'', ld_address = None\<rparr>]"

definition sample_listener :: "http_block \<Rightarrow> nat listener" where
  "sample_listener hb = the (accept_start sample_ext sample_surroundings hb 0 True None default_timeouts)"

definition sample_task :: "http_block \<Rightarrow> conn_task" where
  "sample_task hb =
     \<lparr>ct_remote = (V4 (Ipv4 203 0 113 7), 40000), ct_handler = 0,
      ct_acceptor = ln_acceptor (sample_listener hb), ct_reset_rate = reset_rate_of hb,
      ct_timeouts = default_timeouts\<rparr>"

definition sample_busy :: "http_block \<Rightarrow> nat server_state" where
  "sample_busy hb = \<lparr>sv_active = 1, sv_listeners = [sample_listener hb], sv_conns = [(0, sample_task hb)],
     sv_quic = [], sv_quic_conns = []\<rparr>"

lemma sample_start:
  "accept_start sample_ext sample_surroundings hb 0 True None default_timeouts = Some (sample_listener hb)"
  by (simp add: sample_listener_def accept_start_def build_logger_def logger_new_def sample_surroundings_def)

lemma sample_listener_fields:
  "ln_running (sample_listener hb)" "ln_tls (sample_listener hb)" "ln_idx (sample_listener hb) = 0"
  "ln_acme (sample_listener hb) = None" "ln_block (sample_listener hb) = hb"
  "ln_timeouts (sample_listener hb) = default_timeouts" "length (ln_handlers (sample_listener hb)) = 1"
  "hs_http_block (ln_handlers (sample_listener hb) ! 0) = hb"
  by (simp_all add: sample_listener_def accept_start_def build_logger_def logger_new_def
      sample_surroundings_def handler_new_def)

lemma sample_accept:
  "accept_step sample_ext (Accepted (V4 (Ipv4 203 0 113 7), 40000) None) (sample_listener hb) 0
     = (sample_listener hb, 1, Spawn (sample_task hb))"
  by (simp add: accept_step_def acquire_connection_cases MAX_CONNECTIONS_def sample_listener_fields sample_task_def)

lemma sample_busy_reachable:
  "server_reachable sample_ext (server_init [sample_listener hb] []) (sample_busy hb)"
proof (rule r_into_rtranclp)
  have "accept_step sample_ext (Accepted (V4 (Ipv4 203 0 113 7), 40000) None)
      (sv_listeners (server_init [sample_listener hb] []) ! 0) (sv_active (server_init [sample_listener hb] []))
      = (sample_listener hb, 1, Spawn (sample_task hb))"
    by (simp add: server_init_def sample_accept)
  from listener_event [OF _ this] show "server_step sample_ext (server_init [sample_listener hb] []) (sample_busy hb)"
    by (simp add: server_init_def sample_busy_def spawned_def)
qed

theorem served_connections_capped_witness:
  "unat (sv_active (sample_busy tls_block))
     = length (sv_conns (sample_busy tls_block)) + length (sv_quic_conns (sample_busy tls_block))
   \<and> length (sv_conns (sample_busy tls_block)) + length (sv_quic_conns (sample_busy tls_block)) \<le> 10000"
  by (rule served_connections_capped [OF sample_busy_reachable])

lemma sample_reload:
  "\<exists>ln'. accept_step sample_ext (Reload (plain_config hb') sample_surroundings) (sample_listener hb) 1
      = (ln', 1, Quiet) \<and> ln_block ln' = hb'"
  by (simp add: accept_step_def accept_reload_def sample_listener_fields nth_opt_def plain_config_def
      build_logger_def logger_new_def sample_surroundings_def Let_def)


lemma sample_acceptor:
  "hb_ssl tls_block = Some \<lparr>ssl_certificate = Some ''c.pem'', ssl_certificate_key = Some ''k.pem'',
     ssl_acme = None, ssl_protocols = default_tls_protocols\<rparr>"
  "\<exists>a. acceptor_of X sample_rustls None \<lparr>ssl_certificate = Some ''c.pem'', ssl_certificate_key = Some ''k.pem'',
     ssl_acme = None, ssl_protocols = default_tls_protocols\<rparr> = Some a"
  by (simp_all add: tls_block_def acceptor_of_def build_tls_acceptor_def load_certificate_def
      load_private_key_def sample_rustls_def list_first_def)

theorem tls_listener_talks_tls_witness:
  "sample_task tls_block
     \<in> set (accept_run sample_ext (sample_listener tls_block) [(Accepted (V4 (Ipv4 203 0 113 7), 40000) None, 0)])
   \<and> serve_task (sample_task tls_block) HandshakeFailed (ReadBytes ''GET'') () = HangUp"
proof -
  let ?evs = "[(Accepted (V4 (Ipv4 203 0 113 7), 40000) None, 0)] :: (accept_event \<times> usize) list"
  have t: "sample_task tls_block \<in> set (accept_run sample_ext (sample_listener tls_block) ?evs)"
    by (simp add: sample_accept)
  obtain a where a: "acceptor_of sample_ext (sr_rustls sample_surroundings) (None :: nat acme_manager option)
      \<lparr>ssl_certificate = Some ''c.pem'', ssl_certificate_key = Some ''k.pem'',
       ssl_acme = None, ssl_protocols = default_tls_protocols\<rparr> = Some a"
    using sample_acceptor(2) by (auto simp: sample_surroundings_def)
  have "\<forall>(ev, _)\<in>set ?evs. reload_loads sample_ext (None :: nat acme_manager option) 0 ev"
    by (simp add: reload_loads_def)
  from tls_listener_talks_tls [OF sample_start sample_acceptor(1) a this t,
      of HandshakeFailed "ReadBytes ''GET''" "()"] t show ?thesis by simp
qed

lemma bare_tls_block_valid: "validate sample_ext any_os (plain_config bare_tls_block) = Inr ()"
  by (simp add: validate_def check_ok plain_config_def block_checks bare_tls_block_def default_http_block_def
      check_listen_def check_upstreams_def check_trusted_proxies_def check_connect_targets_def
      check_host_policy_def check_networks_def)


definition sample_quic :: "nat quic_listener" where
  "sample_quic =
     \<lparr>ql_idx = 0, ql_config = \<lparr>qc_cert = ''c'', qc_key = ''k'', qc_alpn = [''h3''], qc_max_uni = 3, qc_max_bidi = 100\<rparr>,
      ql_block = tls_block, ql_handlers = ln_handlers (sample_listener tls_block), ql_running = True\<rparr>"


end
