(* ===== verification/Acme_Issue.thy ===== *)
theory Acme_Issue
  imports Flexd_Tls
begin

text \<open>
  \<^verbatim>\<open>acme.rs\<close>: a whole issuance attempt, from the account to the files on disk, the retries around it and
  the renewal test. The CA and the crates that talk to it are a record of answers, one for each
  attempt; the disk is a state. The lemmas say how long issuance can take, what it leaves on disk and
  what a failure leaves untouched.
\<close>

unbundle bit_operations_syntax

section \<open>The disk\<close>

text \<open>
  Files with their permission bits, the umask, and which calls succeed. A write that fails may leave
  part of the file behind, as \<open>dk_partial\<close> says.
\<close>

record disk =
  dk_files :: "string \<Rightarrow> (string \<times> u32) option"
  dk_umask :: u32
  dk_read_ok :: "string \<Rightarrow> bool"
  dk_mkdir_ok :: "string \<Rightarrow> bool"
  dk_write_ok :: "string \<Rightarrow> bool"
  dk_chmod_ok :: "string \<Rightarrow> bool"
  dk_partial :: "string \<Rightarrow> string \<Rightarrow> string option"

definition fs_read :: "disk \<Rightarrow> string \<Rightarrow> string option" where
  "fs_read d path = (if dk_read_ok d path then map_option fst (dk_files d path) else None)"

definition put_file :: "disk \<Rightarrow> string \<Rightarrow> string \<Rightarrow> disk" where
  "put_file d path bytes =
     d \<lparr>dk_files := (dk_files d)(path \<mapsto>
         (bytes, case dk_files d path of Some (_, mode) \<Rightarrow> mode | None \<Rightarrow> 438 AND NOT (dk_umask d)))\<rparr>"

text \<open>\<^verbatim>\<open>std::fs::write\<close>: a new file gets mode 0666 less the umask, an old one keeps its mode.\<close>

definition fs_write :: "disk \<Rightarrow> string \<Rightarrow> string \<Rightarrow> disk \<times> bool" where
  "fs_write d path bytes =
     (if dk_write_ok d path then (put_file d path bytes, True)
      else (case dk_partial d path bytes of
              None \<Rightarrow> (d, False)
            | Some part \<Rightarrow> (put_file d path part, False)))"

definition set_permissions :: "disk \<Rightarrow> string \<Rightarrow> u32 \<Rightarrow> disk \<times> bool" where
  "set_permissions d path mode =
     (case dk_files d path of
        Some (bytes, _) \<Rightarrow>
          if dk_chmod_ok d path
          then (d \<lparr>dk_files := (dk_files d)(path \<mapsto> (bytes, mode))\<rparr>, True) else (d, False)
      | None \<Rightarrow> (d, False))"

text \<open>Octal 0600 is 384.\<close>

definition write_secret :: "disk \<Rightarrow> string \<Rightarrow> string \<Rightarrow> disk \<times> bool" where
  "write_secret d path bytes =
     (case fs_write d path bytes of
        (d, False) \<Rightarrow> (d, False)
      | (d, True) \<Rightarrow> set_permissions d path 384)"

definition write_cert :: "'c acme_manager \<Rightarrow> disk \<Rightarrow> string \<Rightarrow> string \<Rightarrow> disk \<times> bool" where
  "write_cert m d chain_pem key_pem =
     (if \<not> dk_mkdir_ok d (ac_cert_dir (am_cfg m)) then (d, False)
      else (case write_secret d (cert_path m) chain_pem of
              (d, False) \<Rightarrow> (d, False)
            | (d, True) \<Rightarrow> write_secret d (key_path m) key_pem))"

section \<open>An attempt\<close>

text \<open>
  The answers of one attempt: whether the HTTP client can be built, with the PEM of the extra root if
  one is configured; the account, the order, its state after validation, the generated key, the
  request, its acceptance and the certificate; the HTTP responses seen on the way, in order; and the
  two base64 alphabets.
\<close>

record 'c ca =
  ca_calls :: "'c acme_calls"
  ca_read :: "string \<Rightarrow> string option"
  ca_client_ok :: "string option \<Rightarrow> bool"
  ca_create :: "string \<Rightarrow> bool \<Rightarrow> string \<Rightarrow> (string \<times> string) option \<Rightarrow> bool"
  ca_new_order :: "string list \<Rightarrow> authz option list option"
  ca_order_ready :: "bool option"
  ca_generate_key :: "string option"
  ca_csr :: "string list \<Rightarrow> string \<Rightarrow> string option"
  ca_finalize :: "string \<Rightarrow> bool"
  ca_certificate :: "string option"
  ca_responses :: "(status \<times> header_map) list"
  ca_b64_url :: "string \<Rightarrow> string option"
  ca_b64_std :: "string \<Rightarrow> string option"

text \<open>\<^verbatim>\<open>AcmeHttpClient::new\<close>, and what its \<^verbatim>\<open>request\<close> notes of the responses.\<close>

definition acme_http_client :: "'c ca \<Rightarrow> string option \<Rightarrow> acme_error + unit" where
  "acme_http_client CA ca_root =
     (case ca_root of
        None \<Rightarrow> if ca_client_ok CA None then Inr () else Inl ClientSetup
      | Some path \<Rightarrow>
          (case ca_read CA path of
             None \<Rightarrow> Inl ClientSetup
           | Some pem \<Rightarrow> if ca_client_ok CA (Some pem) then Inr () else Inl ClientSetup))"

definition note_response :: "ext \<Rightarrow> status \<times> header_map \<Rightarrow> u64 \<Rightarrow> u64" where
  "note_response X rsp retry_after =
     (if fst rsp = 429
      then (case Option.bind (Option.bind (hm_get (snd rsp) ''retry-after'') (hv_to_str X))
                   (\<lambda>s. parse_u64 (trim s)) of
              Some secs \<Rightarrow> secs
            | None \<Rightarrow> retry_after)
      else retry_after)"

definition decode_b64 :: "'c ca \<Rightarrow> string \<Rightarrow> string option" where
  "decode_b64 CA s = (case ca_b64_url CA s of Some bytes \<Rightarrow> Some bytes | None \<Rightarrow> ca_b64_std CA s)"

definition load_eab :: "'c ca \<Rightarrow> acme_config \<Rightarrow> acme_error + (string \<times> string) option" where
  "load_eab CA cfg =
     (case ac_eab cfg of
        None \<Rightarrow> Inr None
      | Some eab \<Rightarrow>
          (case cl_read_string (ca_calls CA) (eab_hmac_key eab) of
             None \<Rightarrow> Inl EabRead
           | Some b64 \<Rightarrow>
               (case decode_b64 CA (trim b64) of
                  None \<Rightarrow> Inl EabDecode
                | Some key \<Rightarrow> Inr (Some (eab_kid eab, key)))))"

text \<open>The end of an attempt, from a validated order to the chain and the key.\<close>

definition finish_order :: "'c ca \<Rightarrow> string list \<Rightarrow> acme_error + string \<times> string" where
  "finish_order CA domains =
     (case ca_generate_key CA of
        None \<Rightarrow> Inl KeyGeneration
      | Some key_pem \<Rightarrow>
          (case ca_csr CA domains key_pem of
             None \<Rightarrow> Inl CsrError
           | Some csr \<Rightarrow>
               if \<not> ca_finalize CA csr then Inl FinalizeOrder
               else (case ca_certificate CA of
                       None \<Rightarrow> Inl PollCertificate
                     | Some chain_pem \<Rightarrow> Inr (chain_pem, key_pem))))"

definition complete_order ::
  "'c ca \<Rightarrow> 'c acme_manager \<Rightarrow> disk \<Rightarrow> disk \<times> (acme_error + unit)" where
  "complete_order CA m d =
     (case ca_order_ready CA of
        None \<Rightarrow> (d, Inl PollReady)
      | Some False \<Rightarrow> (d, Inl NotReady)
      | Some True \<Rightarrow>
          (case finish_order CA (acme_domains m) of
             Inl e \<Rightarrow> (d, Inl e)
           | Inr (chain_pem, key_pem) \<Rightarrow>
               (case write_cert m d chain_pem key_pem of
                  (d, ok) \<Rightarrow> (d, if ok then Inr () else Inl Persist))))"

definition try_issue ::
  "'c ca \<Rightarrow> 'c acme_manager \<times> disk \<Rightarrow> ('c acme_manager \<times> disk) \<times> (acme_error + unit)" where
  "try_issue CA md =
     (case md of (m, d) \<Rightarrow>
        let cfg = am_cfg m in
        case acme_http_client CA (ac_ca_root cfg) of
          Inl e \<Rightarrow> (md, Inl e)
        | Inr _ \<Rightarrow>
            (case load_eab CA cfg of
               Inl e \<Rightarrow> (md, Inl e)
             | Inr eab \<Rightarrow>
                 if \<not> ca_create CA (''mailto:'' @ ac_email cfg) (ac_agree_tos cfg) (ac_ca_endpoint cfg) eab
                 then (md, Inl AccountCreation)
                 else if acme_domains m = [] then (md, Inl NoDomains)
                 else (case ca_new_order CA (acme_domains m) of
                         None \<Rightarrow> (md, Inl NewOrder)
                       | Some azs \<Rightarrow>
                           (case respond_all (ca_calls CA) cfg (am_store m) azs of
                              (store, Inl e) \<Rightarrow> ((m \<lparr>am_store := store\<rparr>, d), Inl e)
                            | (store, Inr _) \<Rightarrow>
                                (case complete_order CA m d of
                                   (d, r) \<Rightarrow> ((m \<lparr>am_store := store\<rparr>, d), r))))))"

section \<open>Retries\<close>

definition backoff_wait :: "nat \<Rightarrow> u64 \<Rightarrow> duration" where
  "backoff_wait attempt retry_after =
     max (from_secs (unat retry_after)) (from_secs (2 ^ min (attempt - 1) 6))"

text \<open>
  The loop over attempts: each gives its successor state and success, or its error with the seconds of
  the CA's last \<^verbatim>\<open>Retry-After\<close>. The result has the waits in between.
\<close>

function issue_loop ::
  "(nat \<Rightarrow> 's \<Rightarrow> 's \<times> (('e \<times> u64) + unit)) \<Rightarrow> nat \<Rightarrow> 's \<Rightarrow> 's \<times> duration list \<times> ('e + unit)" where
  "issue_loop attempt_of attempt s =
     (case attempt_of attempt s of
        (s, Inr _) \<Rightarrow> (s, [], Inr ())
      | (s, Inl (e, retry_after)) \<Rightarrow>
          if 5 \<le> attempt then (s, [], Inl e)
          else (case issue_loop attempt_of (attempt + 1) s of
                  (s, waits, r) \<Rightarrow> (s, backoff_wait attempt retry_after # waits, r)))"
  by pat_completeness auto
termination
  by (relation "measure (\<lambda>(f, n, s). 5 - n)") auto

declare issue_loop.simps [simp del]

definition attempt_issue ::
  "ext \<Rightarrow> (nat \<Rightarrow> 'c ca) \<Rightarrow> nat \<Rightarrow> 'c acme_manager \<times> disk
   \<Rightarrow> ('c acme_manager \<times> disk) \<times> ((acme_error \<times> u64) + unit)" where
  "attempt_issue X W attempt md =
     (case try_issue (W attempt) md of
        (md, Inr _) \<Rightarrow> (md, Inr ())
      | (md, Inl e) \<Rightarrow> (md, Inl (e, fold (note_response X) (ca_responses (W attempt)) 0)))"

definition issue_with_retry ::
  "ext \<Rightarrow> (nat \<Rightarrow> 'c ca) \<Rightarrow> 'c acme_manager \<times> disk
   \<Rightarrow> ('c acme_manager \<times> disk) \<times> duration list \<times> (acme_error + unit)" where
  "issue_with_retry X W md = issue_loop (attempt_issue X W) 1 md"

definition has_usable_cert :: "rustls_calls \<Rightarrow> 'c acme_manager \<Rightarrow> disk \<Rightarrow> bool" where
  "has_usable_cert R m d \<longleftrightarrow>
     (\<exists>ck. load_certified_key (R \<lparr>rc_open := fs_read d\<rparr>) (cert_path m) (key_path m) = Inr ck)"

definition ensure_cert ::
  "ext \<Rightarrow> rustls_calls \<Rightarrow> (nat \<Rightarrow> 'c ca) \<Rightarrow> 'c acme_manager \<times> disk
   \<Rightarrow> ('c acme_manager \<times> disk) \<times> duration list \<times> (acme_error + unit)" where
  "ensure_cert X R W md =
     (if has_usable_cert R (fst md) (snd md) then (md, [], Inr ()) else issue_with_retry X W md)"

text \<open>
  \<^verbatim>\<open>needs_renewal\<close>: \<open>not_after_of\<close> is the last second of validity that the X.509 parser finds in the PEM
  text, \<open>now\<close> the clock in seconds.
\<close>

definition needs_renewal ::
  "(string \<Rightarrow> int option) \<Rightarrow> 'c acme_manager \<Rightarrow> disk \<Rightarrow> int \<Rightarrow> string + bool" where
  "needs_renewal not_after_of m d now =
     (case fs_read d (cert_path m) of
        None \<Rightarrow> Inr True
      | Some pem \<Rightarrow>
          (case not_after_of pem of
             None \<Rightarrow> Inl ''parsing issued cert''
           | Some not_after \<Rightarrow>
               Inr (not_after - now < int (unat (ac_renewal_window (am_cfg m))) * 86400)))"

section \<open>What a write leaves\<close>

lemma cert_path_key_path [simp]: "cert_path m \<noteq> key_path m" "key_path m \<noteq> cert_path m"
  by (simp_all add: cert_path_def key_path_def)

lemma manager_store_update [simp]:
  "cert_path (m \<lparr>am_store := st\<rparr>) = cert_path m" "key_path (m \<lparr>am_store := st\<rparr>) = key_path m"
  "acme_domains (m \<lparr>am_store := st\<rparr>) = acme_domains m"
  by (simp_all add: cert_path_def key_path_def acme_domains_def)

lemma put_file_other: "q \<noteq> p \<Longrightarrow> dk_files (put_file d p b) q = dk_files d q"
  by (simp add: put_file_def)

lemma write_secret_other: "q \<noteq> p \<Longrightarrow> dk_files (fst (write_secret d p b)) q = dk_files d q"
  by (auto simp: write_secret_def fs_write_def set_permissions_def put_file_other
      split: option.splits bool.splits prod.splits if_splits)

lemma write_secret_ok: "write_secret d p b = (d', True) \<Longrightarrow> dk_files d' p = Some (b, 384)"
  by (auto simp: write_secret_def fs_write_def set_permissions_def put_file_def
      split: option.splits bool.splits prod.splits if_splits)

lemma write_cert_other:
  "q \<noteq> cert_path m \<Longrightarrow> q \<noteq> key_path m \<Longrightarrow> dk_files (fst (write_cert m d c k)) q = dk_files d q"
  using write_secret_other [of q "cert_path m" d c]
  by (cases "write_secret d (cert_path m) c") (auto simp: write_cert_def write_secret_other split: bool.split)

lemma write_cert_ok:
  assumes "write_cert m d c k = (d', True)"
  shows "dk_files d' (cert_path m) = Some (c, 384) \<and> dk_files d' (key_path m) = Some (k, 384)"
proof -
  obtain d2 where "write_secret d (cert_path m) c = (d2, True)" "write_secret d2 (key_path m) k = (d', True)"
    using assms by (auto simp: write_cert_def split: if_splits prod.splits bool.splits)
  then show ?thesis
    using write_secret_ok write_secret_other [of "cert_path m" "key_path m" d2 k] by force
qed

lemma complete_order_cases:
  assumes "complete_order CA m d = (d', r)"
  shows "(case r of
      Inr _ \<Rightarrow> \<exists>c k. finish_order CA (acme_domains m) = Inr (c, k)
        \<and> dk_files d' (cert_path m) = Some (c, 384) \<and> dk_files d' (key_path m) = Some (k, 384)
    | Inl e \<Rightarrow> e = Persist \<or> d' = d)
    \<and> (\<forall>q. q \<noteq> cert_path m \<and> q \<noteq> key_path m \<longrightarrow> dk_files d' q = dk_files d q)"
proof (cases "ca_order_ready CA = Some True \<and> (\<exists>c k. finish_order CA (acme_domains m) = Inr (c, k))")
  case True
  then obtain c k where "finish_order CA (acme_domains m) = Inr (c, k)" by blast
  moreover obtain d2 ok where "write_cert m d c k = (d2, ok)" by (cases "write_cert m d c k")
  ultimately show ?thesis
    using assms True write_cert_ok [of m d c k d2] write_cert_other [of _ m d c k]
    by (cases ok) (auto simp: complete_order_def)
next
  case False
  then show ?thesis
    using assms by (auto simp: complete_order_def split: option.splits bool.splits sum.splits prod.splits)
qed

lemma try_issue_cases:
  assumes "try_issue CA (m, d) = ((m', d'), r)"
  shows "(\<exists>st. m' = m \<lparr>am_store := st\<rparr>)
    \<and> (case r of
         Inr _ \<Rightarrow> \<exists>c k. finish_order CA (acme_domains m) = Inr (c, k)
           \<and> dk_files d' (cert_path m) = Some (c, 384) \<and> dk_files d' (key_path m) = Some (k, 384)
       | Inl e \<Rightarrow> e = Persist \<or> d' = d)
    \<and> (\<forall>q. q \<noteq> cert_path m \<and> q \<noteq> key_path m \<longrightarrow> dk_files d' q = dk_files d q)"
proof -
  have same: "\<exists>st. m = m \<lparr>am_store := st\<rparr>" by (rule exI [of _ "am_store m"]) simp
  obtain d2 r2 where c: "complete_order CA m d = (d2, r2)" by (cases "complete_order CA m d")
  show ?thesis
    using assms same complete_order_cases [OF c] c
    by (auto simp: try_issue_def Let_def split: sum.splits if_splits option.splits prod.splits)
qed

section \<open>Runs of attempts\<close>

text \<open>The state after the first attempts of a run.\<close>

primrec state_after :: "(nat \<Rightarrow> 's \<Rightarrow> 's \<times> 'r) \<Rightarrow> 's \<Rightarrow> nat \<Rightarrow> 's" where
  "state_after f s 0 = s"
| "state_after f s (Suc n) = fst (f (Suc n) (state_after f s n))"

lemma issue_loop_runs:
  assumes "a < 5" "issue_loop f (Suc a) (state_after f s0 a) = (s', waits, r)"
  shows "\<exists>n. a < n \<and> n \<le> 5 \<and> s' = state_after f s0 n \<and> length waits = n - Suc a
    \<and> (\<forall>k. a < k \<and> k < n \<longrightarrow> (\<exists>e ra. snd (f k (state_after f s0 (k - 1))) = Inl (e, ra)
         \<and> waits ! (k - Suc a) = backoff_wait k ra))
    \<and> (case r of
         Inr _ \<Rightarrow> snd (f n (state_after f s0 (n - 1))) = Inr ()
       | Inl e \<Rightarrow> n = 5 \<and> (\<exists>ra. snd (f 5 (state_after f s0 4)) = Inl (e, ra)))"
  using assms
proof (induction "5 - a" arbitrary: a waits)
  case (Suc x)
  obtain s2 o1 where f: "f (Suc a) (state_after f s0 a) = (s2, o1)" by (cases "f (Suc a) (state_after f s0 a)")
  then have s2: "state_after f s0 (Suc a) = s2" by simp
  have l0: "issue_loop f (Suc a) (state_after f s0 a) =
      (case o1 of
         Inr _ \<Rightarrow> (s2, [], Inr ())
       | Inl (e, ra) \<Rightarrow>
           if 5 \<le> Suc a then (s2, [], Inl e)
           else (case issue_loop f (Suc a + 1) s2 of
                   (s, waits, r) \<Rightarrow> (s, backoff_wait (Suc a) ra # waits, r)))"
    by (simp only: issue_loop.simps [of f "Suc a"] f prod.case)
  have o1: "snd (f (Suc a) (state_after f s0 a)) = o1" by (simp add: f)
  note state_after.simps [simp del]
  show ?case
  proof (cases o1)
    case (Inr u)
    then show ?thesis
      using Suc.prems s2 o1 l0 by (intro exI [of _ "Suc a"]) auto
  next
    case (Inl p)
    obtain e ra where p: "p = (e, ra)" by (cases p)
    show ?thesis
    proof (cases "Suc a = 5")
      case True
      then show ?thesis
        using Suc.prems s2 o1 l0 Inl p by (intro exI [of _ 5]) auto
    next
      case False
      with Suc.prems(1) have a: "Suc a < 5" by simp
      obtain s3 ws r3 where l: "issue_loop f (Suc (Suc a)) (state_after f s0 (Suc a)) = (s3, ws, r3)"
        by (cases "issue_loop f (Suc (Suc a)) (state_after f s0 (Suc a))")
      have eq: "s3 = s'" "r3 = r" "waits = backoff_wait (Suc a) ra # ws"
        using Suc.prems(2) s2 Inl p a l l0 by auto
      have x: "x = 5 - Suc a" using Suc.hyps(2) by simp
      from Suc.hyps(1) [OF x a l [unfolded eq(1,2)]] obtain n where
        n: "Suc a < n" "n \<le> 5" "s' = state_after f s0 n" "length ws = n - Suc (Suc a)"
        "\<forall>k. Suc a < k \<and> k < n \<longrightarrow> (\<exists>e ra. snd (f k (state_after f s0 (k - 1))) = Inl (e, ra)
           \<and> ws ! (k - Suc (Suc a)) = backoff_wait k ra)"
        "case r of Inr _ \<Rightarrow> snd (f n (state_after f s0 (n - 1))) = Inr ()
           | Inl e \<Rightarrow> n = 5 \<and> (\<exists>ra. snd (f 5 (state_after f s0 4)) = Inl (e, ra))" by blast
      have "\<exists>e ra. snd (f k (state_after f s0 (k - 1))) = Inl (e, ra) \<and> waits ! (k - Suc a) = backoff_wait k ra"
        if k: "a < k" "k < n" for k
      proof (cases "k = Suc a")
        case True
        then show ?thesis using o1 Inl p eq(3) by auto
      next
        case False
        with k n(5) obtain e ra where "snd (f k (state_after f s0 (k - 1))) = Inl (e, ra)"
          "ws ! (k - Suc (Suc a)) = backoff_wait k ra" by (metis Suc_lessI)
        moreover have "k - Suc a = Suc (k - Suc (Suc a))" using k False by simp
        ultimately show ?thesis by (simp add: eq(3))
      qed
      then show ?thesis using n eq(3) by (intro exI [of _ n]) auto
    qed
  qed
qed simp

lemma backoff_wait_ge:
  assumes "1 \<le> k" "k \<le> 5"
  shows "from_secs (unat ra) \<le> backoff_wait k ra \<and> from_secs (2 ^ (k - 1)) \<le> backoff_wait k ra"
proof -
  have "min (k - 1) 6 = k - 1" using assms by simp
  then show ?thesis by (simp add: backoff_wait_def)
qed

text \<open>Attempts keep the settings, and touch no other file.\<close>

lemma state_after_keeps:
  "(\<exists>st. fst (state_after (attempt_issue X W) (m, d) n) = m \<lparr>am_store := st\<rparr>)
   \<and> (\<forall>q. q \<noteq> cert_path m \<and> q \<noteq> key_path m \<longrightarrow>
        dk_files (snd (state_after (attempt_issue X W) (m, d) n)) q = dk_files d q)"
proof (induction n)
  case 0
  show ?case by (auto intro: exI [of _ "am_store m"])
next
  case (Suc n)
  obtain m1 d1 where s: "state_after (attempt_issue X W) (m, d) n = (m1, d1)"
    by (cases "state_after (attempt_issue X W) (m, d) n")
  obtain m2 d2 r where t: "try_issue (W (Suc n)) (m1, d1) = ((m2, d2), r)"
    by (metis prod.collapse)
  have "fst (attempt_issue X W (Suc n) (m1, d1)) = (m2, d2)"
    by (simp add: attempt_issue_def t split: sum.split)
  with Suc.IH s try_issue_cases [OF t] show ?case by auto
qed

section \<open>Properties\<close>


text \<open>A CA that is busy at first and issues from the third attempt on, and a disk where writing works.\<close>

definition sample_ca :: "nat \<Rightarrow> nat ca" where
  "sample_ca n =
     \<lparr>ca_calls = sample_calls, ca_read = (\<lambda>_. None), ca_client_ok = (\<lambda>_. True),
      ca_create = (\<lambda>_ _ _ _. 3 \<le> n), ca_new_order = (\<lambda>_. Some [Some sample_authz]),
      ca_order_ready = Some True, ca_generate_key = Some ''KEY'', ca_csr = (\<lambda>_ _. Some ''CSR''),
      ca_finalize = (\<lambda>_. True), ca_certificate = Some ''CHAIN'', ca_responses = [],
      ca_b64_url = (\<lambda>_. None), ca_b64_std = (\<lambda>_. None)\<rparr>"

definition sample_disk :: disk where
  "sample_disk =
     \<lparr>dk_files = (\<lambda>_. None), dk_umask = 18, dk_read_ok = (\<lambda>_. True), dk_mkdir_ok = (\<lambda>_. True),
      dk_write_ok = (\<lambda>_. True), dk_chmod_ok = (\<lambda>_. True), dk_partial = (\<lambda>_ _. None)\<rparr>"

definition sample_manager :: "nat acme_manager" where
  "sample_manager = acme_manager_new default_acme [''a.example'']"

lemma sample_respond:
  "respond_all sample_calls default_acme (challenge_store_new :: nat challenge_store) [Some sample_authz]
     = (put_http01 challenge_store_new ''tok'' ''tok.thumb'', Inr ())"
  by (simp add: sample_authz_def default_acme_def challenge_kind_def stage_challenge_def)

lemma sample_config: "ac_eab default_acme = None" "ac_ca_root default_acme = None"
  by (simp_all add: default_acme_def)

lemma sample_manager_fields:
  "am_cfg sample_manager = default_acme" "am_store sample_manager = challenge_store_new"
  "acme_domains sample_manager = [''a.example'']"
  by (simp_all add: sample_manager_def acme_manager_new_def acme_domains_def default_acme_def)

lemma sample_ca_fields:
  "ca_calls (sample_ca n) = sample_calls" "ca_client_ok (sample_ca n) p"
  "ca_create (sample_ca n) a b c e \<longleftrightarrow> 3 \<le> n" "ca_new_order (sample_ca n) ds = Some [Some sample_authz]"
  "ca_order_ready (sample_ca n) = Some True" "ca_responses (sample_ca n) = []"
  "finish_order (sample_ca n) ds = Inr (''CHAIN'', ''KEY'')"
  by (simp_all add: sample_ca_def finish_order_def)

lemma sample_write: "snd (write_cert m sample_disk c k)"
  by (simp add: write_cert_def sample_disk_def write_secret_def fs_write_def put_file_def set_permissions_def)

lemma sample_try:
  "try_issue (sample_ca n) (sample_manager, sample_disk) =
     (if n < 3 then ((sample_manager, sample_disk), Inl AccountCreation)
      else ((sample_manager \<lparr>am_store := put_http01 challenge_store_new ''tok'' ''tok.thumb''\<rparr>,
             fst (write_cert sample_manager sample_disk ''CHAIN'' ''KEY'')), Inr ()))"
  using sample_write [of sample_manager "''CHAIN''" "''KEY''"]
  by (cases "write_cert sample_manager sample_disk ''CHAIN'' ''KEY''")
    (simp add: try_issue_def Let_def acme_http_client_def load_eab_def sample_config sample_manager_fields
      sample_ca_fields sample_respond complete_order_def del: respond_all.simps)

lemma sample_issue:
  "issue_with_retry X sample_ca (sample_manager, sample_disk) =
     ((sample_manager \<lparr>am_store := put_http01 challenge_store_new ''tok'' ''tok.thumb''\<rparr>,
       fst (write_cert sample_manager sample_disk ''CHAIN'' ''KEY'')),
      [backoff_wait 1 0, backoff_wait 2 0], Inr ())"
  by (simp add: issue_with_retry_def issue_loop.simps attempt_issue_def sample_try sample_ca_fields
      numeral_2_eq_2)


lemma issue_leaves:
  assumes "issue_with_retry X W (m, d) = ((m', d'), waits, r)"
  shows "(r = Inr () \<longrightarrow> (\<exists>n\<in>{1..5}. \<exists>chain key. finish_order (W n) (acme_domains m) = Inr (chain, key)
       \<and> dk_files d' (cert_path m) = Some (chain, 384) \<and> dk_files d' (key_path m) = Some (key, 384)))
    \<and> (\<forall>q. q \<noteq> cert_path m \<and> q \<noteq> key_path m \<longrightarrow> dk_files d' q = dk_files d q)"
proof -
  let ?f = "attempt_issue X W"
  have "issue_loop ?f (Suc 0) (state_after ?f (m, d) 0) = ((m', d'), waits, r)"
    using assms by (simp add: issue_with_retry_def)
  from issue_loop_runs [OF _ this] obtain n where
    n: "0 < n" "n \<le> 5" "(m', d') = state_after ?f (m, d) n"
    "case r of Inr _ \<Rightarrow> snd (?f n (state_after ?f (m, d) (n - 1))) = Inr () | Inl e \<Rightarrow> n = 5" by (cases r) auto
  obtain st dl where last: "state_after ?f (m, d) (n - 1) = (m \<lparr>am_store := st\<rparr>, dl)"
    using state_after_keeps [of X W m d "n - 1"] by (metis prod.collapse)
  obtain md2 r2 where t: "try_issue (W n) (m \<lparr>am_store := st\<rparr>, dl) = (md2, r2)"
    by (cases "try_issue (W n) (m \<lparr>am_store := st\<rparr>, dl)")
  have a: "?f n (state_after ?f (m, d) (n - 1)) =
      (md2, case r2 of Inr _ \<Rightarrow> Inr () | Inl e \<Rightarrow> Inl (e, fold (note_response X) (ca_responses (W n)) 0))"
    unfolding last attempt_issue_def [of X W n] t by (simp split: sum.split)
  have "fst (?f n (state_after ?f (m, d) (n - 1))) = (m', d')" using n(1,3) by (cases n) auto
  then have md2: "md2 = (m', d')" unfolding a by simp
  have r2: "r2 = Inr ()" if "r = Inr ()" using n(4) that unfolding a by (cases r2) auto
  note c = try_issue_cases [of "W n" "m \<lparr>am_store := st\<rparr>" dl m' d' r2] t md2
  have "\<exists>n\<in>{1..5}. \<exists>chain key. finish_order (W n) (acme_domains m) = Inr (chain, key)
       \<and> dk_files d' (cert_path m) = Some (chain, 384) \<and> dk_files d' (key_path m) = Some (key, 384)"
    if "r = Inr ()"
    using c r2 [OF that] n(1,2) by (intro bexI [of _ n]) auto
  moreover have "dk_files d' q = dk_files d q" if "q \<noteq> cert_path m" "q \<noteq> key_path m" for q
    using state_after_keeps [of X W m d n] n(3) that by (metis snd_conv)
  ultimately show ?thesis by blast
qed

text \<open>
  C31. What issuance leaves on disk: after success the certificate and its key, from the same attempt,
  are under the configured paths with mode 0600; no other file was touched, whatever the outcome; and
  an attempt that fails before it starts writing leaves the files of the previous certificate alone.
\<close>

theorem issued_cert_private:
  assumes "issue_with_retry X W (m, d) = ((m', d'), waits, r)"
  shows "(r = Inr () \<longrightarrow> (\<exists>n\<in>{1..5}. \<exists>chain key. finish_order (W n) (acme_domains m) = Inr (chain, key)
       \<and> dk_files d' (cert_path m) = Some (chain, 384) \<and> dk_files d' (key_path m) = Some (key, 384)))
    \<and> (\<forall>q. q \<noteq> cert_path m \<and> q \<noteq> key_path m \<longrightarrow> dk_files d' q = dk_files d q)
    \<and> (\<forall>CA d e. snd (try_issue CA (m, d)) = Inl e \<and> e \<noteq> Persist \<longrightarrow> snd (fst (try_issue CA (m, d))) = d)"
proof -
  have "snd (fst (try_issue CA (m, d))) = d"
    if e: "snd (try_issue CA (m, d)) = Inl e" "e \<noteq> Persist" for CA d e
  proof -
    obtain m2 d2 where "try_issue CA (m, d) = ((m2, d2), Inl e)" using e(1) by (metis prod.collapse)
    with try_issue_cases [OF this] e(2) show ?thesis by simp
  qed
  with issue_leaves [OF assms] show ?thesis by blast
qed

theorem issued_cert_private_witness:
  "\<exists>d' waits m'. issue_with_retry sample_ext sample_ca (sample_manager, sample_disk) = ((m', d'), waits, Inr ())
     \<and> dk_files d' (key_path sample_manager) = Some (''KEY'', 384)"
proof -
  note i = sample_issue [of sample_ext]
  from issued_cert_private [OF i] sample_ca_fields(7) i show ?thesis by fastforce
qed

text \<open>
  Between the two steps of \<^verbatim>\<open>write_secret\<close> a new file has the mode that the umask leaves: with the usual
  022, every user can read the private key until the permissions are set.
\<close>

theorem secret_exposed_while_written:
  "dk_files (fst (fs_write sample_disk path key)) path = Some (key, 420)"
proof -
  have "(438 AND NOT 18 :: u32) = 420" by code_simp
  then show ?thesis by (simp add: fs_write_def sample_disk_def put_file_def)
qed

text \<open>
  A renewal whose key cannot be written replaces the certificate and keeps the old key: the files on
  disk no longer belong together, and both still load.
\<close>

theorem torn_renewal:
  assumes "dk_files d (cert_path m) = Some (old_chain, 384)" "dk_files d (key_path m) = Some (old_key, 384)"
    and "dk_mkdir_ok d (ac_cert_dir (am_cfg m))" "dk_write_ok d (cert_path m)" "dk_chmod_ok d (cert_path m)"
    and "\<not> dk_write_ok d (key_path m)" "dk_partial d (key_path m) key = None"
  shows "\<exists>d'. write_cert m d chain key = (d', False)
    \<and> dk_files d' (cert_path m) = Some (chain, 384) \<and> dk_files d' (key_path m) = Some (old_key, 384)"
  using assms by (simp add: write_cert_def write_secret_def fs_write_def set_permissions_def put_file_def)

text \<open>
  The certificate on disk is not compared with the names it is for: of two blocks with the same directory,
  which is the default, the second takes the certificate of the first for its own and issues none.
\<close>

theorem shared_cert_dir_reused:
  assumes "has_usable_cert R m1 d" "ac_cert_dir (am_cfg m2) = ac_cert_dir (am_cfg m1)"
  shows "ensure_cert X R W (m2, d) = ((m2, d), [], Inr ())"
  using assms by (simp add: ensure_cert_def has_usable_cert_def cert_path_def key_path_def)

end
