(* ===== verification/Server_Control.thy ===== *)
theory Server_Control
  imports Config_Sound Acme_Issue
begin

text \<open>
  What changes a running server: \<^verbatim>\<open>Config::load\<close> (\<^verbatim>\<open>config.rs\<close>), the signal handler and the renewal loop
  (\<^verbatim>\<open>server.rs\<close>), and the entry point (\<^verbatim>\<open>main.rs\<close>). Reading a file and the two parsers are parameters;
  which of them is asked, on what, and what happens to the result are the definitions.
\<close>

section \<open>Loading\<close>

record loader =
  ld_read :: "string \<Rightarrow> string option"
  ld_json :: "string \<Rightarrow> config option"
  ld_toml :: "string \<Rightarrow> config option"

datatype load_error = LoadRead string | LoadJson | LoadToml | LoadInvalid cfg_error

definition config_load :: "ext \<Rightarrow> os \<Rightarrow> loader \<Rightarrow> string \<Rightarrow> load_error + config" where
  "config_load X os L path =
     (case ld_read L path of
        None \<Rightarrow> Inl (LoadRead path)
      | Some content \<Rightarrow>
          if starts_with (trim content) ''{''
          then (case ld_json L (trim content) of
                  None \<Rightarrow> Inl LoadJson
                | Some cf \<Rightarrow> (case validate X os cf of Inl e \<Rightarrow> Inl (LoadInvalid e) | Inr _ \<Rightarrow> Inr cf))
          else (case ld_toml L content of
                  None \<Rightarrow> Inl LoadToml
                | Some cf \<Rightarrow> (case validate X os cf of Inl e \<Rightarrow> Inl (LoadInvalid e) | Inr _ \<Rightarrow> Inr cf)))"

section \<open>The entry point\<close>

record args =
  ar_config :: "string option"
  ar_test :: bool

text \<open>\<^verbatim>\<open>main\<close> up to \<^verbatim>\<open>Server::run\<close>: an error, a passed test, or the configuration to serve.\<close>

definition main_start :: "ext \<Rightarrow> os \<Rightarrow> loader \<Rightarrow> args \<Rightarrow> load_error + config option" where
  "main_start X os L a =
     (let path = (case ar_config a of None \<Rightarrow> ''./flexd.conf'' | Some p \<Rightarrow> p) in
      case config_load X os L path of
        Inl e \<Rightarrow> Inl e
      | Inr cf \<Rightarrow> if ar_test a then Inr None else Inr (Some cf))"

section \<open>Signals\<close>

text \<open>\<^verbatim>\<open>str::replace\<close>, for a pattern that is not empty.\<close>

function str_replace :: "string \<Rightarrow> string \<Rightarrow> string \<Rightarrow> string" where
  "str_replace pat by [] = []"
| "str_replace pat by (c # cs) =
     (if pat \<noteq> [] \<and> prefix pat (c # cs) then by @ str_replace pat by (drop (length pat) (c # cs))
      else c # str_replace pat by cs)"
  by pat_completeness auto
termination
  by (relation "measure (\<lambda>(p, b, s). length s)") auto

datatype signal = SIGTERM | SIGINT | SIGHUP

datatype message = ShutdownMsg | ReloadMsg

text \<open>The shared configuration, the messages broadcast so far, and whether the handler has returned.\<close>

record control =
  co_config :: config
  co_sent :: "message list"
  co_done :: bool

definition reload_path :: "config \<Rightarrow> string option" where
  "reload_path cf = map_option (str_replace ''.pid'' ''.conf'') (gl_pid_file (cf_global cf))"

definition on_signal :: "ext \<Rightarrow> os \<Rightarrow> loader \<Rightarrow> signal \<Rightarrow> control \<Rightarrow> control" where
  "on_signal X os L sig co =
     (if co_done co then co
      else (case sig of
              SIGTERM \<Rightarrow> co \<lparr>co_sent := co_sent co @ [ShutdownMsg], co_done := True\<rparr>
            | SIGINT \<Rightarrow> co \<lparr>co_sent := co_sent co @ [ShutdownMsg], co_done := True\<rparr>
            | SIGHUP \<Rightarrow>
                (case reload_path (co_config co) of
                   None \<Rightarrow> co
                 | Some path \<Rightarrow>
                     (case config_load X os L path of
                        Inl _ \<Rightarrow> co
                      | Inr cf \<Rightarrow> co \<lparr>co_config := cf, co_sent := co_sent co @ [ReloadMsg]\<rparr>))))"

text \<open>
  Once its three signal streams are registered; if one cannot be, it returns at once. Each signal finds
  the file system as it is then.
\<close>

definition signal_handler :: "ext \<Rightarrow> (signal \<times> os \<times> loader) list \<Rightarrow> control \<Rightarrow> control" where
  "signal_handler X evs co = fold (\<lambda>(sig, os, L). on_signal X os L sig) evs co"

section \<open>Renewal\<close>

text \<open>
  One turn of the renewal loop after its sleep, and the loop: whether a reload is broadcast. The turns
  have the CA, the X.509 parser's answer and the clock as they are then; a shutdown ends the loop.
\<close>

record 'c tick =
  tk_ca :: "nat \<Rightarrow> 'c ca"
  tk_not_after :: "string \<Rightarrow> int option"
  tk_now :: int

definition renewal_tick ::
  "ext \<Rightarrow> 'c tick \<Rightarrow> 'c acme_manager \<times> disk \<Rightarrow> ('c acme_manager \<times> disk) \<times> bool" where
  "renewal_tick X t md =
     (case needs_renewal (tk_not_after t) (fst md) (snd md) (tk_now t) of
        Inr True \<Rightarrow>
          (case issue_with_retry X (tk_ca t) md of
             (md, _, Inr _) \<Rightarrow> (md, True)
           | (md, _, Inl _) \<Rightarrow> (md, False))
      | Inr False \<Rightarrow> (md, False)
      | Inl _ \<Rightarrow> (md, False))"

fun acme_renewal_loop ::
  "ext \<Rightarrow> 'c tick option list \<Rightarrow> 'c acme_manager \<times> disk \<Rightarrow> ('c acme_manager \<times> disk) \<times> message list" where
  "acme_renewal_loop X [] md = (md, [])"
| "acme_renewal_loop X (None # ts) md = (md, [])"
| "acme_renewal_loop X (Some t # ts) md =
     (case renewal_tick X t md of
        (md, renewed) \<Rightarrow>
          (case acme_renewal_loop X ts md of
             (md, sent) \<Rightarrow> (md, (if renewed then [ReloadMsg] else []) @ sent)))"

section \<open>Properties\<close>

lemma config_load_valid: "config_load X os L path = Inr cf \<Longrightarrow> validate X os cf = Inr ()"
  by (auto simp: config_load_def split: option.splits sum.splits if_splits)

text \<open>What a configuration in force has: it passed validation when it was loaded.\<close>

definition was_valid :: "ext \<Rightarrow> config \<Rightarrow> bool" where
  "was_valid X cf \<longleftrightarrow> (\<exists>os. validate X os cf = Inr ())"

lemma on_signal_valid: "was_valid X (co_config co) \<Longrightarrow> was_valid X (co_config (on_signal X os L sig co))"
  by (auto simp: on_signal_def was_valid_def dest: config_load_valid
      split: signal.split option.split sum.split)

lemma on_signal_unchanged:
  "co_config (on_signal X os L sig co) \<noteq> co_config co \<Longrightarrow> co_sent (on_signal X os L sig co) = co_sent co @ [ReloadMsg]"
  by (auto simp: on_signal_def split: signal.splits option.splits sum.splits if_splits)

lemma on_signal_done: "co_done co \<Longrightarrow> on_signal X os L sig co = co"
  by (simp add: on_signal_def)

text \<open>
  Only validated configurations are ever in force: from the one the program was started with,
  through any signals and whatever the files hold when they come. A file that is missing, does not
  parse or does not validate leaves the running configuration as it was; every change of it is
  announced to the listeners; and after a shutdown was announced nothing changes any more.
\<close>

theorem running_config_valid:
  assumes "main_start X os L a = Inr (Some cf)"
    and "co = signal_handler X evs \<lparr>co_config = cf, co_sent = [], co_done = False\<rparr>"
  shows "(\<exists>os'. validate X os' (co_config co) = Inr ())
    \<and> (ReloadMsg \<notin> set (co_sent co) \<longrightarrow> co_config co = cf)
    \<and> (co_done co \<longleftrightarrow> ShutdownMsg \<in> set (co_sent co))
    \<and> (co_done co \<longrightarrow> last (co_sent co) = ShutdownMsg \<and> signal_handler X evs2 co = co)"
proof -
  let ?inv = "\<lambda>co. was_valid X (co_config co) \<and> (ReloadMsg \<notin> set (co_sent co) \<longrightarrow> co_config co = cf)
    \<and> (co_done co \<longleftrightarrow> ShutdownMsg \<in> set (co_sent co)) \<and> (co_done co \<longrightarrow> last (co_sent co) = ShutdownMsg)"
  have step: "?inv (on_signal X os L sig co)" if "?inv co" for os L sig co
  proof -
    have "was_valid X (co_config (on_signal X os L sig co))" using that by (intro on_signal_valid) simp
    with that show ?thesis
      by (auto simp: on_signal_def split: signal.split option.split sum.split)
  qed
  have "was_valid X cf"
    using assms(1) config_load_valid
    by (fastforce simp: main_start_def was_valid_def Let_def split: sum.splits if_splits)
  then have "?inv \<lparr>co_config = cf, co_sent = [], co_done = False\<rparr>" by simp
  then have "?inv (signal_handler X evs \<lparr>co_config = cf, co_sent = [], co_done = False\<rparr>)"
    unfolding signal_handler_def
  proof (induction evs rule: rev_induct)
    case (snoc e evs)
    then show ?case by (cases e) (simp add: step)
  qed simp
  moreover have "signal_handler X evs2 co = co" if "co_done co" for co
    unfolding signal_handler_def by (induction evs2) (auto simp: on_signal_done that)
  ultimately show ?thesis using assms(2) by (simp add: was_valid_def)
qed

text \<open>
  A renewal that is announced has happened: when the loop broadcasts a reload, the certificate was
  missing or within its renewal window, and both files hold what the CA issued, readable by the owner
  only; when the certificate is not due, nothing on disk changes and nothing is announced.
\<close>

theorem renewal_announced:
  assumes "renewal_tick X t (m, d) = ((m', d'), sent)"
  shows "(sent \<longrightarrow>
      (fs_read d (cert_path m) = None
       \<or> (\<exists>pem not_after. fs_read d (cert_path m) = Some pem \<and> tk_not_after t pem = Some not_after
            \<and> not_after - tk_now t < int (unat (ac_renewal_window (am_cfg m))) * 86400))
      \<and> (\<exists>n\<in>{1..5}. \<exists>chain key. finish_order (tk_ca t n) (acme_domains m) = Inr (chain, key)
           \<and> dk_files d' (cert_path m) = Some (chain, 384) \<and> dk_files d' (key_path m) = Some (key, 384)))
    \<and> (needs_renewal (tk_not_after t) m d (tk_now t) \<noteq> Inr True \<longrightarrow> \<not> sent \<and> d' = d \<and> m' = m)"
proof -
  obtain md waits r where i: "issue_with_retry X (tk_ca t) (m, d) = (md, waits, r)"
    by (metis prod.exhaust)
  obtain m1 d1 where md: "md = (m1, d1)" by (cases md)
  note leaves = issue_leaves [OF i [unfolded md]]
  show ?thesis
    using assms i md leaves
    by (auto simp: renewal_tick_def needs_renewal_def split: sum.splits option.splits bool.splits)
qed

section \<open>Examples\<close>

text \<open>
  A reload does not look at the file the program was started with: whatever \<^verbatim>\<open>--config\<close> said, the path is
  made from the pid file's, and where that has no \<^verbatim>\<open>.pid\<close> in it, it is the pid file itself.
\<close>

theorem reload_path_examples:
  "str_replace ''.pid'' ''.conf'' ''/run/flexd.pid'' = ''/run/flexd.conf''"
  "str_replace ''.pid'' ''.conf'' ''/run/flexd/pid'' = ''/run/flexd/pid''"
  by (code_simp, code_simp)

text \<open>A loader that finds one configuration in every file.\<close>

definition sample_loader :: "config \<Rightarrow> loader" where
  "sample_loader cf = \<lparr>ld_read = (\<lambda>_. Some ''[global]''), ld_json = (\<lambda>_. None), ld_toml = (\<lambda>_. Some cf)\<rparr>"

lemma sample_load:
  "validate sample_ext os cf = Inr () \<Longrightarrow> config_load sample_ext os (sample_loader cf) path = Inr cf"
proof -
  have "\<not> starts_with (trim ''[global]'') ''{''" by code_simp
  then show "validate sample_ext os cf = Inr () \<Longrightarrow> config_load sample_ext os (sample_loader cf) path = Inr cf"
    by (simp add: config_load_def sample_loader_def)
qed

theorem running_config_valid_witness:
  "\<exists>co. co = signal_handler sample_ext [(SIGHUP, any_os, sample_loader (plain_config split_block)),
        (SIGTERM, any_os, sample_loader (plain_config split_block))]
        \<lparr>co_config = plain_config split_block, co_sent = [], co_done = False\<rparr>
     \<and> co_done co \<and> (\<exists>os'. validate sample_ext os' (co_config co) = Inr ())
     \<and> signal_handler sample_ext [(SIGHUP, any_os, sample_loader (plain_config split_block))] co = co"
proof -
  let ?L = "sample_loader (plain_config split_block)"
  let ?co = "signal_handler sample_ext [(SIGHUP, any_os, ?L), (SIGTERM, any_os, ?L)]
      \<lparr>co_config = plain_config split_block, co_sent = [], co_done = False\<rparr>"
  have "main_start sample_ext any_os ?L \<lparr>ar_config = None, ar_test = False\<rparr> = Inr (Some (plain_config split_block))"
    by (simp add: main_start_def sample_load [OF split_block_valid])
  from running_config_valid [OF this refl, of "[(SIGHUP, any_os, ?L), (SIGTERM, any_os, ?L)]"
      "[(SIGHUP, any_os, ?L)]"]
  have "(\<exists>os'. validate sample_ext os' (co_config ?co) = Inr ())
    \<and> (co_done ?co \<longrightarrow> signal_handler sample_ext [(SIGHUP, any_os, ?L)] ?co = ?co)" by blast
  moreover have "co_done ?co"
    by (simp add: signal_handler_def on_signal_def split: option.split sum.split)
  ultimately show ?thesis by blast
qed

theorem renewal_announced_witness:
  "\<exists>m' d'. renewal_tick sample_ext \<lparr>tk_ca = sample_ca, tk_not_after = (\<lambda>_. None), tk_now = 0\<rparr>
       (sample_manager, sample_disk) = ((m', d'), True)
     \<and> dk_files d' (key_path sample_manager) = Some (''KEY'', 384)"
proof -
  let ?t = "\<lparr>tk_ca = sample_ca, tk_not_after = (\<lambda>_. None), tk_now = 0\<rparr>"
  note i = sample_issue [of sample_ext]
  have n: "needs_renewal (tk_not_after ?t) sample_manager sample_disk (tk_now ?t) = Inr True"
    by (simp add: needs_renewal_def fs_read_def sample_disk_def)
  obtain m' d' where t: "renewal_tick sample_ext ?t (sample_manager, sample_disk) = ((m', d'), True)"
    using n i by (auto simp: renewal_tick_def)
  from renewal_announced [OF t] sample_ca_fields(7) t show ?thesis by fastforce
qed

end
