(* ===== verification/Stream_Proxy.thy ===== *)
theory Stream_Proxy
  imports Flexd_Balance
begin

text \<open>
  \<^verbatim>\<open>server.rs\<close>: a connection of the TCP stream proxy. The servers of the pool are tried in the balancer's
  order until one accepts; while bytes are copied it counts as in flight.
\<close>

section \<open>A connection\<close>

text \<open>
  The attempts, as the addresses tried and the server that accepted. \<open>connects\<close> says whether the attempt
  on a server, within ten seconds, gives a connection.
\<close>

fun stream_loop :: "(nat \<Rightarrow> bool) \<Rightarrow> upstream_ref \<Rightarrow> nat list \<Rightarrow> string list \<times> nat option" where
  "stream_loop connects u [] = ([], None)"
| "stream_loop connects u (idx # cands) =
     (if length (up_servers u) \<le> idx then stream_loop connects u cands
      else if connects idx then ([us_address (up_servers u ! idx)], Some idx)
      else (case stream_loop connects u cands of
              (tried, r) \<Rightarrow> (us_address (up_servers u ! idx) # tried, r)))"

text \<open>
  The connection up to the copying: the balancer, the addresses tried, and the guard that lives as
  long as bytes are copied. Without a server the client's connection is dropped.
\<close>

definition stream_open ::
  "ext \<Rightarrow> (nat \<Rightarrow> bool) \<Rightarrow> balancer \<Rightarrow> upstream_ref \<Rightarrow> ip_addr
   \<Rightarrow> balancer \<times> string list \<times> (nat \<times> inflight_guard) option" where
  "stream_open X connects b u client =
     (case candidates X b u client of
        (b, cands) \<Rightarrow>
          (case stream_loop connects u cands of
             (tried, None) \<Rightarrow> (b, tried, None)
           | (tried, Some idx) \<Rightarrow> (case track b u idx of (b, g) \<Rightarrow> (b, tried, Some (idx, g)))))"

section \<open>The loop\<close>

text \<open>
  \<^verbatim>\<open>accept_stream_loop\<close>: one balancer for the pool, shared by the connections. A connection ends when the
  copying does, and its guard is dropped.
\<close>

record stream_listener =
  sl_balancer :: balancer
  sl_upstream :: upstream_ref
  sl_running :: bool

definition stream_start :: "stream_block \<Rightarrow> stream_listener" where
  "stream_start sb =
     \<lparr>sl_balancer = for_upstream (st_upstream sb), sl_upstream = st_upstream sb, sl_running = True\<rparr>"

datatype stream_event =
    StreamShutdown
  | StreamAccepted ip_addr "nat \<Rightarrow> bool"
  | StreamAcceptFailed
  | StreamEnded inflight_guard

definition stream_step ::
  "ext \<Rightarrow> stream_event \<Rightarrow> stream_listener \<Rightarrow> stream_listener \<times> (nat \<times> inflight_guard) option" where
  "stream_step X ev sl =
     (case ev of
        StreamShutdown \<Rightarrow> (sl \<lparr>sl_running := False\<rparr>, None)
      | StreamAccepted client connects \<Rightarrow>
          if \<not> sl_running sl then (sl, None)
          else (case stream_open X connects (sl_balancer sl) (sl_upstream sl) client of
                  (b, _, r) \<Rightarrow> (sl \<lparr>sl_balancer := b\<rparr>, r))
      | StreamAcceptFailed \<Rightarrow> (sl, None)
      | StreamEnded g \<Rightarrow> (sl \<lparr>sl_balancer := guard_drop (sl_balancer sl) g\<rparr>, None))"

section \<open>Properties\<close>

lemma stream_loop_valid:
  assumes "\<forall>i\<in>set cands. i < length (up_servers u)"
  shows "snd (stream_loop connects u cands) = find connects cands
    \<and> fst (stream_loop connects u cands)
      = map (\<lambda>i. us_address (up_servers u ! i))
          (takeWhile (\<lambda>i. \<not> connects i) cands
           @ (case find connects cands of Some i \<Rightarrow> [i] | None \<Rightarrow> []))"
  using assms by (induction cands) (auto split: prod.split option.split)

lemma candidates_distinct:
  "distinct (snd (candidates X b u client)) \<and> set (snd (candidates X b u client)) = {0..<length (up_servers u)}"
proof
  have m: "mset (snd (candidates X b u client)) = mset [0..<length (up_servers u)]"
    by (rule mset_candidates)
  then show "distinct (snd (candidates X b u client))" by (metis distinct_upt mset_eq_imp_distinct_iff)
  show "set (snd (candidates X b u client)) = {0..<length (up_servers u)}"
    using m by (metis mset_eq_setD set_upt)
qed

text \<open>
  C38. The stream proxy finds a server if there is one. The servers are tried in the balancer's order, each
  at most once, and the first that accepts is used; the client is dropped only if none accepts. While
  the connection lasts the server's gauge is one higher, and when it ends the balancer is as it was
  after the selection.
\<close>

theorem stream_failover:
  assumes "stream_open X connects b u client = (b', tried, r)"
    and "candidates X b u client = (b1, order)"
  shows "distinct order \<and> set order = {0..<length (up_servers u)}
    \<and> (case r of
         None \<Rightarrow> (\<forall>i<length (up_servers u). \<not> connects i) \<and> b' = b1
           \<and> tried = map (\<lambda>i. us_address (up_servers u ! i)) order
       | Some (i, g) \<Rightarrow> find connects order = Some i \<and> track b1 u i = (b', g) \<and> guard_drop b' g = b1
           \<and> tried = map (\<lambda>i. us_address (up_servers u ! i)) (takeWhile (\<lambda>i. \<not> connects i) order @ [i]))"
proof -
  have order: "distinct order" "set order = {0..<length (up_servers u)}"
    using candidates_distinct [of X b u client] assms(2) by auto
  then have "\<forall>i\<in>set order. i < length (up_servers u)" by auto
  note loop = stream_loop_valid [OF this, of connects]
  show ?thesis
  proof (cases "find connects order")
    case None
    then have none: "\<forall>i\<in>set order. \<not> connects i" by (simp add: find_None_iff)
    then have "takeWhile (\<lambda>i. \<not> connects i) order = order" by simp
    with None loop assms order none show ?thesis
      by (cases "stream_loop connects u order") (auto simp: stream_open_def)
  next
    case (Some i)
    obtain b2 g where t: "track b1 u i = (b2, g)" by (cases "track b1 u i")
    have "stream_open X connects b u client
        = (b2, map (\<lambda>i. us_address (up_servers u ! i)) (takeWhile (\<lambda>i. \<not> connects i) order @ [i]), Some (i, g))"
      using Some loop assms(2) t by (cases "stream_loop connects u order") (simp add: stream_open_def)
    with assms(1) Some t order track_drop [OF t] show ?thesis by auto
  qed
qed

theorem stream_failover_witness:
  "\<exists>b' tried g. stream_open sample_ext (\<lambda>i. i = 1) (for_upstream sample_pool) sample_pool
      (V4 (Ipv4 203 0 113 7)) = (b', tried, Some (1, g))"
proof -
  let ?c = "candidates sample_ext (for_upstream sample_pool) sample_pool (V4 (Ipv4 203 0 113 7))"
  let ?s = "stream_open sample_ext (\<lambda>i. i = 1) (for_upstream sample_pool) sample_pool (V4 (Ipv4 203 0 113 7))"
  have n: "length (up_servers sample_pool) = 2" by (simp add: sample_pool_def)
  obtain b1 order where c: "?c = (b1, order)" by (cases ?c)
  obtain b' tried r where s: "?s = (b', tried, r)" by (cases ?s)
  from stream_failover [OF s c] n have "r \<noteq> None" by (cases r) (auto dest!: spec [of _ "Suc 0"])
  then obtain i g where r: "r = Some (i, g)" by auto
  with stream_failover [OF s c] have "find (\<lambda>i. i = 1) order = Some i" by simp
  then have "i = 1" by (auto simp: find_Some_iff)
  with s r show ?thesis by auto
qed

end
