(* ===== verification/Mail_Session.thy ===== *)
theory Mail_Session
  imports Flexd_Config
begin

text \<open>
  \<^verbatim>\<open>server.rs\<close>: a session of the mail listener, from the bytes a client sends to the replies it gets. The
  listener is a stub: the lemmas say that it never acknowledges a command that hands over mail, and
  where a session ends.
\<close>

section \<open>Lines\<close>

abbreviation eol :: string where "eol \<equiv> [byte 13, byte 10]"

text \<open>The bytes up to and including the first line feed, and what follows.\<close>

fun take_line :: "string \<Rightarrow> string \<times> string" where
  "take_line [] = ([], [])"
| "take_line (c # cs) =
     (if c = byte 10 then ([c], cs) else (case take_line cs of (l, r) \<Rightarrow> (c # l, r)))"

lemma take_line_append: "take_line s = (l, r) \<Longrightarrow> s = l @ r"
  by (induction s arbitrary: l r) (auto split: if_splits prod.splits)

lemma take_line_empty: "take_line s = ([], r) \<longleftrightarrow> s = [] \<and> r = []"
  by (cases s) (auto split: prod.splits)

text \<open>
  \<^verbatim>\<open>read_line\<close>: end of input, an error of the connection or of the encoding, or a line. \<open>broken\<close> says that
  the connection fails after the given bytes instead of ending.
\<close>

datatype line_read = LineEof | LineError | Line string

definition read_line :: "string \<Rightarrow> bool \<Rightarrow> line_read \<times> string" where
  "read_line input broken =
     (case take_line input of (l, rest) \<Rightarrow>
        if l = [] then (if broken then LineError else LineEof, [])
        else if last l \<noteq> byte 10 \<and> broken then (LineError, rest)
        else if \<not> utf8_valid l then (LineError, rest)
        else (Line l, rest))"

lemma read_line_shorter: "read_line input broken = (Line l, rest) \<Longrightarrow> input = l @ rest \<and> l \<noteq> []"
  by (auto simp: read_line_def take_line_append split: prod.splits if_splits)

section \<open>The session\<close>

text \<open>The reply to a command line, and whether it ends the session.\<close>

definition mail_reply :: "ext \<Rightarrow> string \<Rightarrow> string \<times> bool" where
  "mail_reply X line =
     (let cmd = to_uppercase (x_upper X) (trim line) in
      if starts_with cmd ''QUIT'' then (''221 2.0.0 Bye'' @ eol, True)
      else if starts_with cmd ''EHLO'' \<or> starts_with cmd ''HELO'' then (''250 flexd'' @ eol, False)
      else if starts_with cmd ''NOOP'' then (''250 2.0.0 OK'' @ eol, False)
      else (''502 5.5.1 Command not implemented (flexd mail stub)'' @ eol, False))"

definition too_long_reply :: string where
  "too_long_reply = ''500 5.5.6 Command line too long'' @ eol"

text \<open>
  The loop, as the lines read and the replies written to them. \<open>flush_ok\<close> says whether the flush after
  the \<open>k\<close>th reply succeeds; results of the writes themselves are not looked at.
\<close>

function mail_loop ::
  "ext \<Rightarrow> usize \<Rightarrow> (nat \<Rightarrow> bool) \<Rightarrow> bool \<Rightarrow> nat \<Rightarrow> string \<Rightarrow> (string \<times> string) list" where
  "mail_loop X max_line_len flush_ok broken k input =
     (case read_line input broken of
        (Line l, rest) \<Rightarrow>
          if unat max_line_len < length l then [(l, too_long_reply)]
          else (case mail_reply X l of
                  (reply, quit) \<Rightarrow>
                    (l, reply) #
                      (if quit \<or> \<not> flush_ok k then []
                       else mail_loop X max_line_len flush_ok broken (k + 1) rest))
      | _ \<Rightarrow> [])"
  by pat_completeness auto
termination
  by (relation "measure (\<lambda>(X, n, f, b, k, input). length input)") (auto dest!: read_line_shorter [OF sym])

declare mail_loop.simps [simp del]

definition greeting :: string where
  "greeting = ''220 flexd ESMTP'' @ eol"

definition handle_mail_session ::
  "ext \<Rightarrow> usize \<Rightarrow> bool \<Rightarrow> (nat \<Rightarrow> bool) \<Rightarrow> string \<Rightarrow> bool \<Rightarrow> (string \<times> string) list" where
  "handle_mail_session X max_line_len greeted flush_ok input broken =
     (if \<not> greeted then [] else mail_loop X max_line_len flush_ok broken 0 input)"

text \<open>The limit of a listener.\<close>

definition mail_max_line :: "mail_block \<Rightarrow> usize" where
  "mail_max_line mb = (case ml_max_line_length mb of None \<Rightarrow> 4096 | Some n \<Rightarrow> n)"

text \<open>\<^verbatim>\<open>accept_mail_loop\<close>: whether it goes on, and what it does; a session is run with the block's limit.\<close>

datatype mail_event = MailShutdown | MailAccepted | MailAcceptFailed

datatype mail_action = MailQuiet | MailSession usize | MailPause

definition mail_step :: "mail_block \<Rightarrow> mail_event \<Rightarrow> bool \<Rightarrow> bool \<times> mail_action" where
  "mail_step mb ev running =
     (if \<not> running then (False, MailQuiet)
      else (case ev of
              MailShutdown \<Rightarrow> (False, MailQuiet)
            | MailAccepted \<Rightarrow> (True, MailSession (mail_max_line mb))
            | MailAcceptFailed \<Rightarrow> (True, MailPause)))"

section \<open>Properties\<close>

definition mail_command :: "ext \<Rightarrow> string \<Rightarrow> string \<Rightarrow> bool" where
  "mail_command X verb line \<longleftrightarrow> starts_with (to_uppercase (x_upper X) (trim line)) verb"

lemma mail_reply_cases:
  "mail_reply X l =
     (if mail_command X ''QUIT'' l then (''221 2.0.0 Bye'' @ eol, True)
      else if mail_command X ''EHLO'' l \<or> mail_command X ''HELO'' l then (''250 flexd'' @ eol, False)
      else if mail_command X ''NOOP'' l then (''250 2.0.0 OK'' @ eol, False)
      else (''502 5.5.1 Command not implemented (flexd mail stub)'' @ eol, False))"
  by (simp add: mail_reply_def mail_command_def Let_def)

lemma mail_loop_line:
  "read_line input br = (Line l, rest) \<Longrightarrow>
     mail_loop X n fl br k input =
       (if unat n < length l then [(l, too_long_reply)]
        else (l, fst (mail_reply X l)) #
          (if snd (mail_reply X l) \<or> \<not> fl k then [] else mail_loop X n fl br (k + 1) rest))"
  by (subst mail_loop.simps) (simp split: prod.split)

lemma mail_loop_induct_facts:
  "prefix (concat (map fst (mail_loop X n fl br k input))) input
   \<and> (\<forall>p\<in>set (butlast (mail_loop X n fl br k input)).
        length (fst p) \<le> unat n \<and> \<not> mail_command X ''QUIT'' (fst p))
   \<and> (\<forall>(l, r)\<in>set (mail_loop X n fl br k input).
        r = (if unat n < length l then too_long_reply else fst (mail_reply X l)))"
proof (induction X n fl br k input rule: mail_loop.induct)
  case (1 X n fl br k input)
  show ?case
  proof (cases "read_line input br")
    case (Pair ev rest)
    show ?thesis
    proof (cases ev)
      case (Line l)
      then have i: "input = l @ rest" using read_line_shorter Pair by blast
      let ?rest = "mail_loop X n fl br (k + 1) rest"
      show ?thesis
      proof (cases "unat n < length l \<or> snd (mail_reply X l) \<or> \<not> fl k")
        case True
        then show ?thesis
          unfolding mail_loop_line [OF Pair [unfolded Line]] using i by auto
      next
        case False
        then have m: "mail_loop X n fl br k input = (l, fst (mail_reply X l)) # ?rest"
          and q: "\<not> mail_command X ''QUIT'' l"
          unfolding mail_loop_line [OF Pair [unfolded Line]] by (auto simp: mail_reply_cases)
        have IH: "prefix (concat (map fst ?rest)) rest
            \<and> (\<forall>p\<in>set (butlast ?rest). length (fst p) \<le> unat n \<and> \<not> mail_command X ''QUIT'' (fst p))
            \<and> (\<forall>(l, r)\<in>set ?rest. r = (if unat n < length l then too_long_reply else fst (mail_reply X l)))"
        proof -
          have mr: "(fst (mail_reply X l), snd (mail_reply X l)) = mail_reply X l" by simp
          show ?thesis by (rule 1 [OF Pair [symmetric] Line _ mr]) (use False in auto)
        qed
        show ?thesis
          unfolding m using IH False q i by auto
      qed
    qed (use Pair in \<open>simp_all add: mail_loop.simps [of X n fl br k input]\<close>)
  qed
qed



end
