(* ===== verification/Server_Live.thy ===== *)
theory Server_Live
  imports Server_Conns Server_Control Stream_Proxy Mail_Session
begin

text \<open>
  The tasks of a running server together (\<^verbatim>\<open>server.rs\<close>): the signal handler, the shared configuration, the
  broadcast channels, and the accept, stream, mail and renewal loops that listen on them. Loading a
  configuration, swapping it, announcing it, receiving the announcement and reading the configuration are
  steps of their own, so that tasks interleave between any two of them.
\<close>

section \<open>State\<close>

text \<open>
  A receiver of the two channels: how many messages it has not taken, and whether its loop has taken a
  reload and not read the configuration yet.
\<close>

record mailbox =
  mb_reload :: nat
  mb_shutdown :: nat
  mb_woken :: bool

definition subscribed :: mailbox where
  "subscribed = \<lparr>mb_reload = 0, mb_shutdown = 0, mb_woken = False\<rparr>"

text \<open>
  Where the signal handler is: registering its signals, waiting, with a new configuration, between
  swapping it and announcing it, or returned after a shutdown; \<open>Deaf\<close> when there is none, not yet or because
  it could not register.
\<close>

datatype handler_phase = Registering | Listening | Loaded config | Swapped | Stopped | Deaf

text \<open>A renewal loop is asleep or busy with the check and the issuance.\<close>

record 'c renewal =
  rw_manager :: "'c acme_manager"
  rw_shutdown :: nat
  rw_busy :: bool
  rw_running :: bool

text \<open>\<^verbatim>\<open>Server\<close> and the tasks of its \<^verbatim>\<open>join_set\<close>; stream and mail loops with the shutdowns they have not taken.\<close>

record 'c live =
  lv_server :: "'c server_state"
  lv_config :: config
  lv_handler :: handler_phase
  lv_boxes :: "mailbox list"
  lv_quic_boxes :: "mailbox list"
  lv_streams :: "(stream_listener \<times> nat) list"
  lv_mails :: "(mail_block \<times> bool \<times> nat) list"
  lv_renewals :: "'c renewal list"
  lv_disk :: disk

text \<open>\<^verbatim>\<open>Server::new\<close>: the configuration is in force, the channels have no receivers, no task is there.\<close>

definition live_start :: "config \<Rightarrow> disk \<Rightarrow> 'c live" where
  "live_start cf d =
     \<lparr>lv_server = server_init [] [], lv_config = cf, lv_handler = Deaf, lv_boxes = [], lv_quic_boxes = [],
      lv_streams = [], lv_mails = [], lv_renewals = [], lv_disk = d\<rparr>"

text \<open>\<^verbatim>\<open>unwrap_or_default\<close> of the timeouts, at startup and in the loops.\<close>

definition timeouts_of :: "config \<Rightarrow> timeout_settings" where
  "timeouts_of cf = (case gl_timeouts (cf_global cf) of None \<Rightarrow> default_timeouts | Some t \<Rightarrow> t)"

section \<open>Messages\<close>

definition one_reload :: "mailbox \<Rightarrow> mailbox" where
  "one_reload b = b \<lparr>mb_reload := mb_reload b + 1\<rparr>"

definition one_shutdown :: "mailbox \<Rightarrow> mailbox" where
  "one_shutdown b = b \<lparr>mb_shutdown := mb_shutdown b + 1\<rparr>"

definition send_reload :: "'c live \<Rightarrow> 'c live" where
  "send_reload s =
     s \<lparr>lv_boxes := map one_reload (lv_boxes s), lv_quic_boxes := map one_reload (lv_quic_boxes s)\<rparr>"

definition send_shutdown :: "'c live \<Rightarrow> 'c live" where
  "send_shutdown s =
     s \<lparr>lv_boxes := map one_shutdown (lv_boxes s), lv_quic_boxes := map one_shutdown (lv_quic_boxes s),
        lv_streams := map (\<lambda>(sl, n). (sl, n + 1)) (lv_streams s),
        lv_mails := map (\<lambda>(mb, running, n). (mb, running, n + 1)) (lv_mails s),
        lv_renewals := map (\<lambda>r. r \<lparr>rw_shutdown := rw_shutdown r + 1\<rparr>) (lv_renewals s)\<rparr>"

text \<open>
  How an HTTP loop takes messages. \<open>rest\<close> is how many are left when one of so many is taken; the channels
  keep one message, and a receiver that missed some is told so, which the loops do not tell apart from a
  message. The \<^verbatim>\<open>select!\<close> looks at shutdowns first, but a shutdown may come after it has looked.
\<close>

inductive take_message ::
  "(nat \<Rightarrow> nat) \<Rightarrow> ('l \<Rightarrow> bool) \<Rightarrow> (surroundings \<Rightarrow> 'l \<Rightarrow> 'l) \<Rightarrow> ('l \<Rightarrow> 'l)
   \<Rightarrow> 'l \<times> mailbox \<Rightarrow> 'l \<times> mailbox \<Rightarrow> bool"
  for rest running reload stop where
  shutdown_received:
    "running l \<Longrightarrow> \<not> mb_woken b \<Longrightarrow> 0 < mb_shutdown b \<Longrightarrow>
     take_message rest running reload stop (l, b) (stop l, b \<lparr>mb_shutdown := rest (mb_shutdown b)\<rparr>)"
| reload_received:
    "running l \<Longrightarrow> \<not> mb_woken b \<Longrightarrow> 0 < mb_reload b \<Longrightarrow>
     take_message rest running reload stop (l, b) (l, b \<lparr>mb_reload := rest (mb_reload b), mb_woken := True\<rparr>)"
| reload_applied:
    "running l \<Longrightarrow> mb_woken b \<Longrightarrow>
     take_message rest running reload stop (l, b) (reload W l, b \<lparr>mb_woken := False\<rparr>)"

definition tcp_reload :: "ext \<Rightarrow> config \<Rightarrow> surroundings \<Rightarrow> 'c listener \<Rightarrow> 'c listener" where
  "tcp_reload X cf W ln = fst (accept_step X (Reload cf W) ln 0)"

definition tcp_stop :: "ext \<Rightarrow> 'c listener \<Rightarrow> 'c listener" where
  "tcp_stop X ln = fst (accept_step X Shutdown ln 0)"

definition udp_reload :: "ext \<Rightarrow> config \<Rightarrow> surroundings \<Rightarrow> 'c quic_listener \<Rightarrow> 'c quic_listener" where
  "udp_reload X cf W ql = fst (quic_step X (QuicReload cf W) ql 0)"

definition udp_stop :: "ext \<Rightarrow> 'c quic_listener \<Rightarrow> 'c quic_listener" where
  "udp_stop X ql = fst (quic_step X QuicShutdown ql 0)"

section \<open>Steps\<close>

text \<open>What is under way goes on: messages are taken, a renewal ends, a loaded configuration is put in force.\<close>

inductive deliver :: "ext \<Rightarrow> (nat \<Rightarrow> nat) \<Rightarrow> 'c live \<Rightarrow> 'c live \<Rightarrow> bool" for X rest where
  tcp_message:
    "i < length (sv_listeners (lv_server s)) \<Longrightarrow> i < length (lv_boxes s) \<Longrightarrow>
     take_message rest ln_running (tcp_reload X (lv_config s)) (tcp_stop X)
       (sv_listeners (lv_server s) ! i, lv_boxes s ! i) (ln, b) \<Longrightarrow>
     deliver X rest s
       (s \<lparr>lv_server := (lv_server s) \<lparr>sv_listeners := (sv_listeners (lv_server s))[i := ln]\<rparr>,
           lv_boxes := (lv_boxes s)[i := b]\<rparr>)"
| quic_message:
    "i < length (sv_quic (lv_server s)) \<Longrightarrow> i < length (lv_quic_boxes s) \<Longrightarrow>
     take_message rest ql_running (udp_reload X (lv_config s)) (udp_stop X)
       (sv_quic (lv_server s) ! i, lv_quic_boxes s ! i) (ql, b) \<Longrightarrow>
     deliver X rest s
       (s \<lparr>lv_server := (lv_server s) \<lparr>sv_quic := (sv_quic (lv_server s))[i := ql]\<rparr>,
           lv_quic_boxes := (lv_quic_boxes s)[i := b]\<rparr>)"
| stream_message:
    "i < length (lv_streams s) \<Longrightarrow> lv_streams s ! i = (sl, n) \<Longrightarrow> sl_running sl \<Longrightarrow> 0 < n \<Longrightarrow>
     deliver X rest s (s \<lparr>lv_streams := (lv_streams s)[i := (fst (stream_step X StreamShutdown sl), rest n)]\<rparr>)"
| mail_message:
    "i < length (lv_mails s) \<Longrightarrow> lv_mails s ! i = (mb, True, n) \<Longrightarrow> 0 < n \<Longrightarrow>
     deliver X rest s (s \<lparr>lv_mails := (lv_mails s)[i := (mb, fst (mail_step mb MailShutdown True), rest n)]\<rparr>)"
| renewal_message:
    "i < length (lv_renewals s) \<Longrightarrow> r = lv_renewals s ! i \<Longrightarrow> rw_running r \<Longrightarrow> \<not> rw_busy r \<Longrightarrow>
     0 < rw_shutdown r \<Longrightarrow>
     deliver X rest s
       (s \<lparr>lv_renewals := (lv_renewals s)[i := r \<lparr>rw_running := False, rw_shutdown := rest (rw_shutdown r)\<rparr>]\<rparr>)"
| renewal_done:
    "i < length (lv_renewals s) \<Longrightarrow> r = lv_renewals s ! i \<Longrightarrow> rw_running r \<Longrightarrow> rw_busy r \<Longrightarrow>
     renewal_tick X t (rw_manager r, lv_disk s) = ((m, d), sent) \<Longrightarrow>
     s' = s \<lparr>lv_renewals := (lv_renewals s)[i := r \<lparr>rw_manager := m, rw_busy := False\<rparr>], lv_disk := d\<rparr> \<Longrightarrow>
     deliver X rest s (if sent then send_reload s' else s')"
| swap: "lv_handler s = Loaded cf \<Longrightarrow> deliver X rest s (s \<lparr>lv_config := cf, lv_handler := Swapped\<rparr>)"
| announce: "lv_handler s = Swapped \<Longrightarrow> deliver X rest s (send_reload (s \<lparr>lv_handler := Listening\<rparr>))"

text \<open>
  And what comes from outside: connections and what happens on them, signals, the renewal timer, and the
  channels' senders that \<^verbatim>\<open>shutdown_tx\<close> and \<^verbatim>\<open>reload_tx\<close> hand out. A file that does not load changes nothing.
\<close>

inductive live_step :: "ext \<Rightarrow> (nat \<Rightarrow> nat) \<Rightarrow> 'c live \<Rightarrow> 'c live \<Rightarrow> bool" for X rest where
  delivery: "deliver X rest s s' \<Longrightarrow> live_step X rest s s'"
| connections: "conn_work X (lv_server s) sv \<Longrightarrow> live_step X rest s (s \<lparr>lv_server := sv\<rparr>)"
| accepting:
    "i < length (sv_listeners (lv_server s)) \<Longrightarrow> \<not> mb_woken (lv_boxes s ! i) \<Longrightarrow>
     ev = AcceptFailed \<or> ev = Accepted remote meminfo \<Longrightarrow>
     accept_step X ev (sv_listeners (lv_server s) ! i) (sv_active (lv_server s)) = (ln, active, act) \<Longrightarrow>
     live_step X rest s
       (s \<lparr>lv_server := (lv_server s)
            \<lparr>sv_active := active, sv_listeners := (sv_listeners (lv_server s))[i := ln],
             sv_conns := spawned i act @ sv_conns (lv_server s)\<rparr>\<rparr>)"
| quic_accepting:
    "i < length (sv_quic (lv_server s)) \<Longrightarrow> \<not> mb_woken (lv_quic_boxes s ! i) \<Longrightarrow>
     ev = QuicGone \<or> ev = QuicIncoming meminfo \<Longrightarrow>
     quic_step X ev (sv_quic (lv_server s) ! i) (sv_active (lv_server s)) = (ql, active, act) \<Longrightarrow>
     live_step X rest s
       (s \<lparr>lv_server := (lv_server s)
            \<lparr>sv_active := active, sv_quic := (sv_quic (lv_server s))[i := ql],
             sv_quic_conns := quic_spawned i act @ sv_quic_conns (lv_server s)\<rparr>\<rparr>)"
| streaming:
    "i < length (lv_streams s) \<Longrightarrow> lv_streams s ! i = (sl, n) \<Longrightarrow> ev \<noteq> StreamShutdown \<Longrightarrow>
     live_step X rest s (s \<lparr>lv_streams := (lv_streams s)[i := (fst (stream_step X ev sl), n)]\<rparr>)"
| renewal_due:
    "i < length (lv_renewals s) \<Longrightarrow> r = lv_renewals s ! i \<Longrightarrow> rw_running r \<Longrightarrow> \<not> rw_busy r \<Longrightarrow>
     live_step X rest s (s \<lparr>lv_renewals := (lv_renewals s)[i := r \<lparr>rw_busy := True\<rparr>]\<rparr>)"
| registered:
    "lv_handler s = Registering \<Longrightarrow> ph = Listening \<or> ph = Deaf \<Longrightarrow> live_step X rest s (s \<lparr>lv_handler := ph\<rparr>)"
| hangup:
    "lv_handler s = Listening \<Longrightarrow> reload_path (lv_config s) = Some path \<Longrightarrow> config_load X os L path = Inr cf \<Longrightarrow>
     live_step X rest s (s \<lparr>lv_handler := Loaded cf\<rparr>)"
| terminate: "lv_handler s = Listening \<Longrightarrow> live_step X rest s (send_shutdown (s \<lparr>lv_handler := Stopped\<rparr>))"
| outside_reload: "live_step X rest s (send_reload s)"
| outside_shutdown: "live_step X rest s (send_shutdown s)"

abbreviation live_reachable :: "ext \<Rightarrow> (nat \<Rightarrow> nat) \<Rightarrow> 'c live \<Rightarrow> 'c live \<Rightarrow> bool" where
  "live_reachable X rest \<equiv> (live_step X rest)\<^sup>*\<^sup>*"

text \<open>\<^verbatim>\<open>run\<close> returns once \<^verbatim>\<open>join_next\<close> has no task left; how a task ended is only logged.\<close>

definition run_returned :: "'c live \<Rightarrow> bool" where
  "run_returned s \<longleftrightarrow>
     (\<forall>ln\<in>set (sv_listeners (lv_server s)). \<not> ln_running ln)
     \<and> (\<forall>ql\<in>set (sv_quic (lv_server s)). \<not> ql_running ql)
     \<and> (\<forall>(sl, _)\<in>set (lv_streams s). \<not> sl_running sl)
     \<and> (\<forall>(_, running, _)\<in>set (lv_mails s). \<not> running)
     \<and> (\<forall>r\<in>set (lv_renewals s). \<not> rw_running r)"

end
