(* ===== verification/Server_Delivery.thy ===== *)
theory Server_Delivery
  imports Server_Live
begin

text \<open>
  How messages are taken: the contract of a loop that listens on the channels, its two instances, what
  the tasks keep under all steps, and that deliveries end.
\<close>

section \<open>Loops that take messages\<close>

text \<open>
  What a loop owes: while it runs it has what the configuration says, or a reload is still coming to it.
  What it has been told, and how much it has left to do.
\<close>

definition owes :: "('l \<Rightarrow> bool) \<Rightarrow> ('l \<Rightarrow> bool) \<Rightarrow> 'l \<Rightarrow> mailbox \<Rightarrow> bool" where
  "owes running fresh l b \<longleftrightarrow> (running l \<longrightarrow> mb_woken b \<or> 0 < mb_reload b \<or> fresh l)"

definition told :: "('l \<Rightarrow> bool) \<Rightarrow> 'l \<Rightarrow> mailbox \<Rightarrow> bool" where
  "told running l b \<longleftrightarrow> (running l \<longrightarrow> 0 < mb_shutdown b)"

definition to_do :: "('l \<Rightarrow> bool) \<Rightarrow> 'l \<Rightarrow> mailbox \<Rightarrow> nat" where
  "to_do running l b = 2 * mb_reload b + of_bool (mb_woken b) + of_bool (running l)"

lemma owes_one_reload [simp]: "owes running fresh l (one_reload b)"
  by (simp add: owes_def one_reload_def)

lemma owes_one_shutdown [simp]: "owes running fresh l (one_shutdown b) = owes running fresh l b"
  by (simp add: owes_def one_shutdown_def)

lemma told_one_shutdown [simp]: "told running l (one_shutdown b)"
  by (simp add: told_def one_shutdown_def)

lemma told_one_reload [simp]: "told running l (one_reload b) = told running l b"
  by (simp add: told_def one_reload_def)

locale message_loop =
  fixes running :: "'l \<Rightarrow> bool"
    and reload :: "config \<Rightarrow> surroundings \<Rightarrow> 'l \<Rightarrow> 'l"
    and stop :: "'l \<Rightarrow> 'l"
    and fresh :: "config \<Rightarrow> 'l \<Rightarrow> bool"
  assumes reload_fresh: "running (reload cf W l) \<Longrightarrow> fresh cf (reload cf W l)"
    and reload_running: "running (reload cf W l) \<Longrightarrow> running l"
    and stop_stops: "\<not> running (stop l)"
begin

lemma message_owes:
  assumes "take_message rest running (reload cf) stop (l, b) (l', b')" "owes running (fresh cf) l b"
  shows "owes running (fresh cf) l' b'"
  using assms by cases (auto simp: owes_def reload_fresh stop_stops)

lemma message_told:
  assumes "take_message rest running (reload cf) stop (l, b) (l', b')" "told running l b"
  shows "told running l' b'"
  using assms by cases (auto simp: told_def stop_stops dest: reload_running)

lemma message_to_do:
  assumes "take_message rest running (reload cf) stop (l, b) (l', b')" "\<forall>n>0. rest n < n"
  shows "to_do running l' b' < to_do running l b"
  using assms(1)
proof cases
  case reload_received
  moreover from this assms(2) have "rest (mb_reload b) < mb_reload b" by simp
  ultimately show ?thesis by (simp add: to_do_def)
qed (auto simp: to_do_def stop_stops dest: reload_running)

lemma message_taken:
  assumes "running l" "0 < mb_reload b \<or> 0 < mb_shutdown b \<or> mb_woken b"
  shows "\<exists>l' b'. take_message rest running (reload cf) stop (l, b) (l', b')"
  using assms by (cases "mb_woken b") (blast intro: take_message.intros)+

end

text \<open>What the configuration says of a listener, and the two kinds of HTTP loops.\<close>

definition ln_fresh :: "ext \<Rightarrow> config \<Rightarrow> 'c listener \<Rightarrow> bool" where
  "ln_fresh X cf ln \<longleftrightarrow>
     (\<forall>hb. nth_opt (cf_http cf) (ln_idx ln) = Some hb \<longrightarrow>
        ln_block ln = hb \<and> ln_timeouts ln = timeouts_of cf \<and> current X ln)"

definition ql_fresh :: "ext \<Rightarrow> config \<Rightarrow> 'c quic_listener \<Rightarrow> bool" where
  "ql_fresh X cf ql \<longleftrightarrow>
     (\<forall>hb. nth_opt (cf_http cf) (ql_idx ql) = Some hb \<longrightarrow>
        ql_block ql = hb \<and> ql_handlers ql \<noteq> []
        \<and> serves X True hb (timeouts_of cf) (ql_handlers ql ! (length (ql_handlers ql) - 1)))"

interpretation tcp: message_loop ln_running "tcp_reload X" "tcp_stop X" "ln_fresh X" for X
  by unfold_locales
    (auto simp: tcp_reload_def tcp_stop_def accept_step_def accept_reload_def ln_fresh_def current_def
      timeouts_of_def nth_append Let_def split: option.splits if_splits)

interpretation udp: message_loop ql_running "udp_reload X" "udp_stop X" "ql_fresh X" for X
  by unfold_locales
    (auto simp: udp_reload_def udp_stop_def quic_step_def quic_reload_def ql_fresh_def
      timeouts_of_def nth_append Let_def split: option.splits if_splits)

section \<open>Invariants\<close>

lemma nth_both_update:
  assumes "\<forall>k<length xs. P (xs ! k) (ys ! k)" "length ys = length xs" "P x y"
  shows "\<forall>k<length xs. P (xs[i := x] ! k) (ys[i := y] ! k)"
  using assms by (cases "i < length xs") (auto simp: nth_list_update)

text \<open>What connections and accepts leave of the listeners.\<close>

definition kept :: "ext \<Rightarrow> 'c server_state \<Rightarrow> 'c server_state \<Rightarrow> bool" where
  "kept X sv sv' \<longleftrightarrow>
     length (sv_listeners sv') = length (sv_listeners sv) \<and> length (sv_quic sv') = length (sv_quic sv)
     \<and> (\<forall>i<length (sv_listeners sv).
          ln_running (sv_listeners sv' ! i) = ln_running (sv_listeners sv ! i)
          \<and> (\<forall>cf. ln_fresh X cf (sv_listeners sv ! i) \<longrightarrow> ln_fresh X cf (sv_listeners sv' ! i)))
     \<and> (\<forall>i<length (sv_quic sv).
          ql_running (sv_quic sv' ! i) = ql_running (sv_quic sv ! i)
          \<and> (\<forall>cf. ql_fresh X cf (sv_quic sv ! i) \<longrightarrow> ql_fresh X cf (sv_quic sv' ! i)))"

lemma listener_moved_fresh:
  assumes "ln_fresh X cf ln" "g < length (ln_handlers ln)" "moved X (ln_handlers ln ! g) h"
  shows "ln_fresh X cf (ln \<lparr>ln_handlers := (ln_handlers ln)[g := h]\<rparr>)"
  using assms serves_moved [OF _ assms(3)] by (auto simp: ln_fresh_def current_def nth_list_update)

lemma quic_moved_fresh:
  assumes "ql_fresh X cf ql" "g < length (ql_handlers ql)" "moved X (ql_handlers ql ! g) h"
  shows "ql_fresh X cf (ql \<lparr>ql_handlers := (ql_handlers ql)[g := h]\<rparr>)"
  using assms serves_moved [OF _ assms(3)] by (auto simp: ql_fresh_def nth_list_update)

lemma conn_work_kept: "conn_work X sv sv' \<Longrightarrow> kept X sv sv'"
proof (induction rule: conn_work.induct)
  case (connection_request i t s ln E store req h resp)
  have "moved X (ln_handlers ln ! ct_handler t) h"
    using moved_trans [OF with_store_moved handle_moved] connection_request(5) by (metis fst_conv)
  then show ?case
    using connection_request(2-4) by (auto simp: kept_def nth_list_update intro!: listener_moved_fresh)
next
  case (quic_request i t s ql E req remote rs head_ok h sent)
  have "moved X (ql_handlers ql ! qt_handler t) h"
    using serve_h3_request_moved quic_request(5) by (metis fst_conv)
  then show ?case
    using quic_request(2-4) by (auto simp: kept_def nth_list_update intro!: quic_moved_fresh)
qed (simp_all add: kept_def)

lemma accept_unchanged:
  "accept_step X ev ln active = (ln', active', act) \<Longrightarrow> ev = AcceptFailed \<or> ev = Accepted remote meminfo \<Longrightarrow> ln' = ln"
  by (auto simp: accept_step_def acquire_connection_cases split: if_splits)

lemma quic_unchanged:
  "quic_step X ev ql active = (ql', active', act) \<Longrightarrow> ev = QuicGone \<or> ev = QuicIncoming meminfo \<Longrightarrow> ql' = ql"
  by (auto simp: quic_step_def acquire_connection_cases split: if_splits)

definition boxes_ok :: "'c live \<Rightarrow> bool" where
  "boxes_ok s \<longleftrightarrow>
     length (lv_boxes s) = length (sv_listeners (lv_server s))
     \<and> length (lv_quic_boxes s) = length (sv_quic (lv_server s))"

definition all_owe :: "ext \<Rightarrow> 'c live \<Rightarrow> bool" where
  "all_owe X s \<longleftrightarrow>
     (\<forall>i<length (sv_listeners (lv_server s)).
        owes ln_running (ln_fresh X (lv_config s)) (sv_listeners (lv_server s) ! i) (lv_boxes s ! i))
     \<and> (\<forall>i<length (sv_quic (lv_server s)).
        owes ql_running (ql_fresh X (lv_config s)) (sv_quic (lv_server s) ! i) (lv_quic_boxes s ! i))"

definition reload_inv :: "ext \<Rightarrow> 'c live \<Rightarrow> bool" where
  "reload_inv X s \<longleftrightarrow> boxes_ok s \<and> (lv_handler s = Swapped \<or> all_owe X s)"

lemma send_reload_inv: "boxes_ok s \<Longrightarrow> reload_inv X (send_reload s)"
  by (simp add: reload_inv_def boxes_ok_def all_owe_def send_reload_def)

lemma send_shutdown_inv: "reload_inv X s \<Longrightarrow> reload_inv X (send_shutdown s)"
  by (simp add: reload_inv_def boxes_ok_def all_owe_def send_shutdown_def)

lemma kept_inv: "kept X (lv_server s) sv \<Longrightarrow> reload_inv X s \<Longrightarrow> reload_inv X (s \<lparr>lv_server := sv\<rparr>)"
  by (auto simp: reload_inv_def boxes_ok_def all_owe_def kept_def owes_def)

lemma all_owe_tcp:
  assumes "all_owe X s" "boxes_ok s" "owes ln_running (ln_fresh X (lv_config s)) ln b"
  shows "all_owe X (s \<lparr>lv_server := (lv_server s) \<lparr>sv_listeners := (sv_listeners (lv_server s))[i := ln]\<rparr>,
    lv_boxes := (lv_boxes s)[i := b]\<rparr>)"
  using assms nth_both_update [where P = "owes ln_running (ln_fresh X (lv_config s))"
      and xs = "sv_listeners (lv_server s)" and ys = "lv_boxes s" and x = ln and y = b and i = i]
  by (simp add: all_owe_def boxes_ok_def)

lemma all_owe_quic:
  assumes "all_owe X s" "boxes_ok s" "owes ql_running (ql_fresh X (lv_config s)) ql b"
  shows "all_owe X (s \<lparr>lv_server := (lv_server s) \<lparr>sv_quic := (sv_quic (lv_server s))[i := ql]\<rparr>,
    lv_quic_boxes := (lv_quic_boxes s)[i := b]\<rparr>)"
  using assms nth_both_update [where P = "owes ql_running (ql_fresh X (lv_config s))"
      and xs = "sv_quic (lv_server s)" and ys = "lv_quic_boxes s" and x = ql and y = b and i = i]
  by (simp add: all_owe_def boxes_ok_def)

lemma deliver_reload_inv:
  assumes "deliver X rest s s'" "reload_inv X s"
  shows "reload_inv X s'"
  using assms(1)
proof cases
  case (tcp_message i ln b)
  have "owes ln_running (ln_fresh X (lv_config s)) ln b" if "all_owe X s"
    using tcp.message_owes [OF tcp_message(4)] that tcp_message(2) by (simp add: all_owe_def)
  with assms(2) show ?thesis
    unfolding tcp_message(1) using all_owe_tcp [of X s ln b i] by (auto simp: reload_inv_def boxes_ok_def)
next
  case (quic_message i ql b)
  have "owes ql_running (ql_fresh X (lv_config s)) ql b" if "all_owe X s"
    using udp.message_owes [OF quic_message(4)] that quic_message(2) by (simp add: all_owe_def)
  with assms(2) show ?thesis
    unfolding quic_message(1) using all_owe_quic [of X s ql b i] by (auto simp: reload_inv_def boxes_ok_def)
next
  case (renewal_done i r t m d sent s1)
  then have "boxes_ok s1" "reload_inv X s1" using assms(2) by (auto simp: reload_inv_def boxes_ok_def all_owe_def)
  then show ?thesis by (simp add: renewal_done(1) send_reload_inv)
qed (use assms(2) in \<open>auto simp: reload_inv_def boxes_ok_def all_owe_def send_reload_def\<close>)

lemma live_step_reload_inv:
  assumes "live_step X rest s s'" "reload_inv X s"
  shows "reload_inv X s'"
  using assms(1)
proof cases
  case delivery
  then show ?thesis using deliver_reload_inv assms(2) by blast
next
  case (connections sv)
  then show ?thesis using kept_inv conn_work_kept assms(2) by blast
next
  case (accepting i ev remote meminfo ln active act)
  from accept_unchanged [OF accepting(5,4)] assms(2) show ?thesis
    unfolding accepting(1) by (simp add: reload_inv_def boxes_ok_def all_owe_def)
next
  case (quic_accepting i ev meminfo ql active act)
  from quic_unchanged [OF quic_accepting(5,4)] assms(2) show ?thesis
    unfolding quic_accepting(1) by (simp add: reload_inv_def boxes_ok_def all_owe_def)
next
  case outside_reload
  then show ?thesis using assms(2) by (auto simp: reload_inv_def [of X s] intro: send_reload_inv)
next
  case outside_shutdown
  then show ?thesis using assms(2) by (simp add: send_shutdown_inv)
next
  case terminate
  then have "reload_inv X (s \<lparr>lv_handler := Stopped\<rparr>)"
    using assms(2) by (simp add: reload_inv_def boxes_ok_def all_owe_def)
  then show ?thesis unfolding terminate(1) by (rule send_shutdown_inv)
qed (use assms(2) in \<open>auto simp: reload_inv_def boxes_ok_def all_owe_def\<close>)

text \<open>Once a shutdown was sent, every task that still runs has it before it.\<close>

definition told_inv :: "'c live \<Rightarrow> bool" where
  "told_inv s \<longleftrightarrow>
     boxes_ok s
     \<and> (\<forall>i<length (sv_listeners (lv_server s)).
          told ln_running (sv_listeners (lv_server s) ! i) (lv_boxes s ! i))
     \<and> (\<forall>i<length (sv_quic (lv_server s)). told ql_running (sv_quic (lv_server s) ! i) (lv_quic_boxes s ! i))
     \<and> (\<forall>(sl, n)\<in>set (lv_streams s). sl_running sl \<longrightarrow> 0 < n)
     \<and> (\<forall>(mb, running, n)\<in>set (lv_mails s). running \<longrightarrow> 0 < n)
     \<and> (\<forall>r\<in>set (lv_renewals s). rw_running r \<longrightarrow> 0 < rw_shutdown r)"

lemma told_send_shutdown: "boxes_ok s \<Longrightarrow> told_inv (send_shutdown s)"
  by (auto simp: told_inv_def boxes_ok_def send_shutdown_def)

lemma told_send_reload: "told_inv s \<Longrightarrow> told_inv (send_reload s)"
  by (auto simp: told_inv_def boxes_ok_def send_reload_def)

lemma told_kept: "kept X (lv_server s) sv \<Longrightarrow> told_inv s \<Longrightarrow> told_inv (s \<lparr>lv_server := sv\<rparr>)"
  by (auto simp: told_inv_def boxes_ok_def kept_def told_def)

lemma told_tcp:
  assumes "told_inv s" "told ln_running ln b"
  shows "told_inv (s \<lparr>lv_server := (lv_server s) \<lparr>sv_listeners := (sv_listeners (lv_server s))[i := ln]\<rparr>,
    lv_boxes := (lv_boxes s)[i := b]\<rparr>)"
  using assms nth_both_update [where P = "told ln_running" and xs = "sv_listeners (lv_server s)"
      and ys = "lv_boxes s" and x = ln and y = b and i = i]
  by (simp add: told_inv_def boxes_ok_def)

lemma told_quic:
  assumes "told_inv s" "told ql_running ql b"
  shows "told_inv (s \<lparr>lv_server := (lv_server s) \<lparr>sv_quic := (sv_quic (lv_server s))[i := ql]\<rparr>,
    lv_quic_boxes := (lv_quic_boxes s)[i := b]\<rparr>)"
  using assms nth_both_update [where P = "told ql_running" and xs = "sv_quic (lv_server s)"
      and ys = "lv_quic_boxes s" and x = ql and y = b and i = i]
  by (simp add: told_inv_def boxes_ok_def)

lemma told_rest:
  assumes "told_inv s" "lv_server s' = lv_server s" "lv_boxes s' = lv_boxes s" "lv_quic_boxes s' = lv_quic_boxes s"
    and "\<forall>(sl, n)\<in>set (lv_streams s'). sl_running sl \<longrightarrow> 0 < n"
    and "\<forall>(mb, running, n)\<in>set (lv_mails s'). running \<longrightarrow> 0 < n"
    and "\<forall>r\<in>set (lv_renewals s'). rw_running r \<longrightarrow> 0 < rw_shutdown r"
  shows "told_inv s'"
  using assms by (simp add: told_inv_def boxes_ok_def)

lemma told_parts:
  assumes "told_inv s"
  shows "\<forall>(sl, n)\<in>set (lv_streams s). sl_running sl \<longrightarrow> 0 < n"
    and "\<forall>(mb, running, n)\<in>set (lv_mails s). running \<longrightarrow> 0 < n"
    and "\<forall>r\<in>set (lv_renewals s). rw_running r \<longrightarrow> 0 < rw_shutdown r"
  using assms by (simp_all add: told_inv_def)

lemma deliver_told:
  assumes "deliver X rest s s'" "told_inv s"
  shows "told_inv s'"
  using assms(1)
proof cases
  case (tcp_message i ln b)
  have "told ln_running ln b"
    using tcp.message_told [OF tcp_message(4)] assms(2) tcp_message(2) by (simp add: told_inv_def)
  then show ?thesis unfolding tcp_message(1) by (rule told_tcp [OF assms(2)])
next
  case (quic_message i ql b)
  have "told ql_running ql b"
    using udp.message_told [OF quic_message(4)] assms(2) quic_message(2) by (simp add: told_inv_def)
  then show ?thesis unfolding quic_message(1) by (rule told_quic [OF assms(2)])
next
  case (stream_message i sl n)
  show ?thesis
    unfolding stream_message(1)
    by (rule told_rest [OF assms(2)])
      (use told_parts [OF assms(2)] in \<open>auto simp: stream_step_def dest!: subsetD [OF set_update_subset_insert]\<close>)
next
  case (mail_message i mb n)
  show ?thesis
    unfolding mail_message(1)
    by (rule told_rest [OF assms(2)])
      (use told_parts [OF assms(2)] in \<open>auto simp: mail_step_def dest!: subsetD [OF set_update_subset_insert]\<close>)
next
  case (renewal_message i r)
  show ?thesis
    unfolding renewal_message(1)
    by (rule told_rest [OF assms(2)])
      (use told_parts [OF assms(2)] in \<open>auto dest!: subsetD [OF set_update_subset_insert]\<close>)
next
  case (renewal_done i r t m d sent s1)
  have "rw_running r \<longrightarrow> 0 < rw_shutdown r"
    using told_parts(3) [OF assms(2)] renewal_done(2,3) by simp
  then have "told_inv s1"
    unfolding renewal_done(7)
    by (intro told_rest [OF assms(2)])
      (use told_parts [OF assms(2)] in \<open>auto dest!: subsetD [OF set_update_subset_insert]\<close>)
  then show ?thesis by (simp add: renewal_done(1) told_send_reload)
next
  case announce
  have "told_inv (s \<lparr>lv_handler := Listening\<rparr>)"
    by (rule told_rest [OF assms(2)]) (use told_parts [OF assms(2)] in simp_all)
  then show ?thesis unfolding announce(1) by (rule told_send_reload)
next
  case (swap cf)
  show ?thesis
    unfolding swap(1) by (rule told_rest [OF assms(2)]) (use told_parts [OF assms(2)] in simp_all)
qed

lemma live_step_told:
  assumes "live_step X rest s s'" "told_inv s"
  shows "told_inv s'"
  using assms(1)
proof cases
  case delivery
  then show ?thesis using deliver_told assms(2) by blast
next
  case (connections sv)
  then show ?thesis using told_kept conn_work_kept assms(2) by blast
next
  case (accepting i ev remote meminfo ln active act)
  from accept_unchanged [OF accepting(5,4)] assms(2) show ?thesis
    unfolding accepting(1) by (simp add: told_inv_def boxes_ok_def)
next
  case (quic_accepting i ev meminfo ql active act)
  from quic_unchanged [OF quic_accepting(5,4)] assms(2) show ?thesis
    unfolding quic_accepting(1) by (simp add: told_inv_def boxes_ok_def)
next
  case (streaming i sl n ev)
  have "sl_running sl \<longrightarrow> 0 < n" using told_parts(1) [OF assms(2)] streaming(2,3) nth_mem by fastforce
  moreover have "sl_running (fst (stream_step X ev sl)) = sl_running sl"
    using streaming(4) by (auto simp: stream_step_def split: stream_event.split prod.split)
  ultimately show ?thesis
    unfolding streaming(1)
    by (intro told_rest [OF assms(2)])
      (use told_parts [OF assms(2)] in \<open>auto dest!: subsetD [OF set_update_subset_insert]\<close>)
next
  case (renewal_due i r)
  have "rw_running r \<longrightarrow> 0 < rw_shutdown r" using told_parts(3) [OF assms(2)] renewal_due(2,3) by simp
  then show ?thesis
    unfolding renewal_due(1)
    by (intro told_rest [OF assms(2)])
      (use told_parts [OF assms(2)] in \<open>auto dest!: subsetD [OF set_update_subset_insert]\<close>)
next
  case terminate
  have "boxes_ok (s \<lparr>lv_handler := Stopped\<rparr>)" using assms(2) by (simp add: told_inv_def boxes_ok_def)
  then show ?thesis unfolding terminate(1) by (rule told_send_shutdown)
next
  case outside_reload
  then show ?thesis using assms(2) by (simp add: told_send_reload)
next
  case outside_shutdown
  moreover have "boxes_ok s" using assms(2) by (simp add: told_inv_def)
  ultimately show ?thesis by (simp add: told_send_shutdown)
qed (rule told_rest [OF assms(2)]; use told_parts [OF assms(2)] in simp)+

section \<open>Deliveries end\<close>

text \<open>What may still send messages, and the messages and tasks there are.\<close>

definition in_hand :: "'c live \<Rightarrow> nat" where
  "in_hand s =
     (case lv_handler s of Loaded _ \<Rightarrow> 2 | Swapped \<Rightarrow> 1 | _ \<Rightarrow> 0)
     + (\<Sum>r\<leftarrow>lv_renewals s. of_bool (rw_running r \<and> rw_busy r))"

definition left_over :: "'c live \<Rightarrow> nat" where
  "left_over s =
     (\<Sum>(ln, b)\<leftarrow>zip (sv_listeners (lv_server s)) (lv_boxes s). to_do ln_running ln b)
     + (\<Sum>(ql, b)\<leftarrow>zip (sv_quic (lv_server s)) (lv_quic_boxes s). to_do ql_running ql b)
     + (\<Sum>(sl, _)\<leftarrow>lv_streams s. of_bool (sl_running sl))
     + (\<Sum>(_, running, _)\<leftarrow>lv_mails s. of_bool running)
     + (\<Sum>r\<leftarrow>lv_renewals s. of_bool (rw_running r))"

lemma sum_list_update_nat:
  "i < length xs \<Longrightarrow> sum_list (map f (xs[i := x])) + f (xs ! i) = sum_list (map f xs) + (f x :: nat)"
  by (induction xs arbitrary: i) (auto split: nat.split)

lemma zip_sum_update:
  assumes "i < length xs" "i < length ys" "f (x, y) < (f (xs ! i, ys ! i) :: nat)"
  shows "sum_list (map f (zip (xs[i := x]) (ys[i := y]))) < sum_list (map f (zip xs ys))"
  using assms sum_list_update_nat [of i "zip xs ys" f "(x, y)"] by (simp add: update_zip)

lemma deliver_less:
  assumes "deliver X rest s s'" "\<forall>n>0. rest n < n"
  shows "(s', s) \<in> measures [in_hand, left_over]"
  using assms(1)
proof cases
  case (tcp_message i ln b)
  have "to_do ln_running ln b < to_do ln_running (sv_listeners (lv_server s) ! i) (lv_boxes s ! i)"
    by (rule tcp.message_to_do [OF tcp_message(4) assms(2)])
  with tcp_message show ?thesis
    using zip_sum_update [of i "sv_listeners (lv_server s)" "lv_boxes s" "\<lambda>(ln, b). to_do ln_running ln b" ln b]
    by (simp add: in_hand_def left_over_def)
next
  case (quic_message i ql b)
  have "to_do ql_running ql b < to_do ql_running (sv_quic (lv_server s) ! i) (lv_quic_boxes s ! i)"
    by (rule udp.message_to_do [OF quic_message(4) assms(2)])
  with quic_message show ?thesis
    using zip_sum_update [of i "sv_quic (lv_server s)" "lv_quic_boxes s" "\<lambda>(ql, b). to_do ql_running ql b" ql b]
    by (simp add: in_hand_def left_over_def)
next
  case (stream_message i sl n)
  then show ?thesis
    using sum_list_update_nat [of i "lv_streams s" "\<lambda>(sl, _). of_bool (sl_running sl)"
        "(fst (stream_step X StreamShutdown sl), rest n)"]
    by (simp add: in_hand_def left_over_def stream_step_def)
next
  case (mail_message i mb n)
  then show ?thesis
    using sum_list_update_nat [of i "lv_mails s" "\<lambda>(_, running, _). of_bool running"
        "(mb, fst (mail_step mb MailShutdown True), rest n)"]
    by (simp add: in_hand_def left_over_def mail_step_def)
next
  case (renewal_message i r)
  let ?r = "r \<lparr>rw_running := False, rw_shutdown := rest (rw_shutdown r)\<rparr>"
  from renewal_message show ?thesis
    using sum_list_update_nat [of i "lv_renewals s" "\<lambda>r. of_bool (rw_running r)" ?r]
      sum_list_update_nat [of i "lv_renewals s" "\<lambda>r. of_bool (rw_running r \<and> rw_busy r)" ?r]
    by (simp add: in_hand_def left_over_def)
next
  case (renewal_done i r t m d sent s1)
  then show ?thesis
    using sum_list_update_nat [of i "lv_renewals s" "\<lambda>r. of_bool (rw_running r \<and> rw_busy r)"
        "r \<lparr>rw_manager := m, rw_busy := False\<rparr>"]
    by (simp add: in_hand_def send_reload_def)
qed (simp_all add: in_hand_def send_reload_def)

lemma deliveries_end:
  assumes "\<forall>n>0. rest n < n"
  shows "wf {(s', s). deliver X rest s s'}"
proof (rule wf_subset [OF wf_measures [of "[in_hand, left_over]"]])
  show "{(s', s). deliver X rest s s'} \<subseteq> measures [in_hand, left_over]"
    using deliver_less [OF _ assms] by blast
qed

definition settled :: "ext \<Rightarrow> (nat \<Rightarrow> nat) \<Rightarrow> 'c live \<Rightarrow> bool" where
  "settled X rest s \<longleftrightarrow> (\<nexists>s'. deliver X rest s s')"

lemma settles:
  assumes "\<forall>n>0. rest n < n"
  shows "\<exists>s'. (deliver X rest)\<^sup>*\<^sup>* s s' \<and> settled X rest s'"
  using deliveries_end [OF assms, of X]
proof (induction s rule: wf_induct_rule)
  case (less s)
  show ?case
  proof (cases "settled X rest s")
    case False
    then obtain t where t: "deliver X rest s t" by (auto simp: settled_def)
    with less [of t] show ?thesis by (blast intro: converse_rtranclp_into_rtranclp)
  qed blast
qed

lemma deliver_reachable: "(deliver X rest)\<^sup>*\<^sup>* s s' \<Longrightarrow> live_reachable X rest s s'"
  by (induction rule: rtranclp_induct) (auto intro: rtranclp.rtrancl_into_rtrancl delivery)

lemma settled_tcp:
  assumes "settled X rest s" "boxes_ok s" "i < length (sv_listeners (lv_server s))"
    and "ln_running (sv_listeners (lv_server s) ! i)"
  shows "mb_reload (lv_boxes s ! i) = 0 \<and> mb_shutdown (lv_boxes s ! i) = 0 \<and> \<not> mb_woken (lv_boxes s ! i)"
proof (rule ccontr)
  assume "\<not> ?thesis"
  then obtain ln b where "take_message rest ln_running (tcp_reload X (lv_config s)) (tcp_stop X)
      (sv_listeners (lv_server s) ! i, lv_boxes s ! i) (ln, b)"
    using tcp.message_taken [OF assms(4), of "lv_boxes s ! i" rest X "lv_config s"] by auto
  with deliver.tcp_message [OF assms(3) _ this] assms(1,2,3) show False
    by (auto simp: settled_def boxes_ok_def)
qed

lemma settled_quic:
  assumes "settled X rest s" "boxes_ok s" "i < length (sv_quic (lv_server s))"
    and "ql_running (sv_quic (lv_server s) ! i)"
  shows "mb_reload (lv_quic_boxes s ! i) = 0 \<and> mb_shutdown (lv_quic_boxes s ! i) = 0 \<and> \<not> mb_woken (lv_quic_boxes s ! i)"
proof (rule ccontr)
  assume "\<not> ?thesis"
  then obtain ql b where "take_message rest ql_running (udp_reload X (lv_config s)) (udp_stop X)
      (sv_quic (lv_server s) ! i, lv_quic_boxes s ! i) (ql, b)"
    using udp.message_taken [OF assms(4), of "lv_quic_boxes s ! i" rest X "lv_config s"] by auto
  with deliver.quic_message [OF assms(3) _ this] assms(1,2,3) show False
    by (auto simp: settled_def boxes_ok_def)
qed

end
