(* ===== verification/Flexd_Privilege.thy ===== *)
theory Flexd_Privilege
  imports Flexd_Prelude
begin

text \<open>
  \<^verbatim>\<open>security/privilege.rs\<close>: dropping root after the listeners are bound. The system calls are
  parameters; what POSIX says of them for a process with root privileges is \<open>posix_laws\<close>, and an
  instance shows that the laws can hold.
\<close>

section \<open>Operations\<close>

record creds =
  cr_ruid :: u32
  cr_euid :: u32
  cr_suid :: u32
  cr_gid :: u32
  cr_groups :: "u32 list"

text \<open>
  The calls: \<open>None\<close> is a failure. \<open>px_user\<close> is the lookup of an account, which may fail, find
  nothing, or give a user and a group.
\<close>

record posix =
  px_setgroups :: "creds \<Rightarrow> u32 list \<Rightarrow> creds option"
  px_setgid :: "creds \<Rightarrow> u32 \<Rightarrow> creds option"
  px_setuid :: "creds \<Rightarrow> u32 \<Rightarrow> creds option"
  px_user :: "string \<Rightarrow> (u32 \<times> u32) option option"

datatype priv_error = LookupError | UserNotFound string | SetGroups | SetGid | SetUid | CanRegainRoot

definition drop_privileges :: "posix \<Rightarrow> creds \<Rightarrow> string \<Rightarrow> creds \<times> (priv_error + unit)" where
  "drop_privileges P c user =
     (if cr_euid c \<noteq> 0 then (c, Inr ())
      else (case px_user P user of
              None \<Rightarrow> (c, Inl LookupError)
            | Some None \<Rightarrow> (c, Inl (UserNotFound user))
            | Some (Some (uid, gid)) \<Rightarrow>
                (case px_setgroups P c [gid] of
                   None \<Rightarrow> (c, Inl SetGroups)
                 | Some c \<Rightarrow>
                     (case px_setgid P c gid of
                        None \<Rightarrow> (c, Inl SetGid)
                      | Some c \<Rightarrow>
                          (case px_setuid P c uid of
                             None \<Rightarrow> (c, Inl SetUid)
                           | Some c \<Rightarrow>
                               if uid \<noteq> 0
                               then (case px_setuid P c 0 of
                                       Some c \<Rightarrow> (c, Inl CanRegainRoot)
                                     | None \<Rightarrow> (c, Inr ()))
                               else (c, Inr ()))))))"

section \<open>The laws\<close>

text \<open>
  With an effective user id of root the three calls succeed and set what they say, \<^verbatim>\<open>setuid\<close> all
  three user ids; without it \<^verbatim>\<open>setuid\<close> can only go back to the real or the saved id.
\<close>

definition posix_laws :: "posix \<Rightarrow> bool" where
  "posix_laws P \<longleftrightarrow>
     (\<forall>c gs. cr_euid c = 0 \<longrightarrow> px_setgroups P c gs = Some (c \<lparr>cr_groups := gs\<rparr>))
   \<and> (\<forall>c g. cr_euid c = 0 \<longrightarrow> px_setgid P c g = Some (c \<lparr>cr_gid := g\<rparr>))
   \<and> (\<forall>c u. cr_euid c = 0 \<longrightarrow>
        px_setuid P c u = Some (c \<lparr>cr_ruid := u, cr_euid := u, cr_suid := u\<rparr>))
   \<and> (\<forall>c u. cr_euid c \<noteq> 0 \<longrightarrow>
        px_setuid P c u = (if u = cr_ruid c \<or> u = cr_suid c then Some (c \<lparr>cr_euid := u\<rparr>) else None))"

definition sample_posix :: posix where
  "sample_posix =
     \<lparr>px_setgroups = (\<lambda>c gs. if cr_euid c = 0 then Some (c \<lparr>cr_groups := gs\<rparr>) else None),
      px_setgid = (\<lambda>c g. if cr_euid c = 0 then Some (c \<lparr>cr_gid := g\<rparr>) else None),
      px_setuid = (\<lambda>c u. if cr_euid c = 0 then Some (c \<lparr>cr_ruid := u, cr_euid := u, cr_suid := u\<rparr>)
         else if u = cr_ruid c \<or> u = cr_suid c then Some (c \<lparr>cr_euid := u\<rparr>) else None),
      px_user = (\<lambda>n. Some (if n = ''www'' then Some (33, 33) else None))\<rparr>"

lemma sample_posix_laws: "posix_laws sample_posix"
  by (simp add: posix_laws_def sample_posix_def)

text \<open>
  A drop that reports success is complete and final: started as root for an account other than
  root, the process ends with that account's user id in all three places, its group, and no other
  supplementary group, and it cannot become root again; started without root nothing changes.
\<close>

lemma privileges_dropped:
  assumes "posix_laws P" "px_user P user = Some (Some (uid, gid))" "uid \<noteq> 0"
  shows "drop_privileges P c user =
      (if cr_euid c = 0
       then (\<lparr>cr_ruid = uid, cr_euid = uid, cr_suid = uid, cr_gid = gid, cr_groups = [gid]\<rparr>, Inr ())
       else (c, Inr ()))
    \<and> (cr_euid c = 0 \<longrightarrow> px_setuid P (fst (drop_privileges P c user)) 0 = None)"
proof (cases "cr_euid c = 0")
  case True
  with assms show ?thesis by (simp add: drop_privileges_def posix_laws_def)
qed (simp add: drop_privileges_def)

end
