(* ===== verification/Server_Run.thy ===== *)
theory Server_Run
  imports Server_Accept Acme_Issue Flexd_Privilege "HOL-Library.AList"
begin

text \<open>
  \<^verbatim>\<open>server.rs\<close>: \<^verbatim>\<open>Server::run\<close>, from the configuration to the running tasks. What it does is a trace of
  actions; what the operating system and the CA answer is a parameter. The lemmas are about the order:
  what is done before privileges are dropped, what is served before a certificate is there, and what a
  failure leaves undone.
\<close>

section \<open>State\<close>

datatype action =
    WritePid string
  | BindTcp socket_addr
  | BindUdp socket_addr
  | DropPrivileges string
  | SpawnStream socket_addr stream_block
  | SpawnMail socket_addr mail_block
  | SpawnHttp socket_addr nat bool bool
  | SpawnQuic socket_addr nat bool
  | Issued nat
  | SpawnRenewal nat
  | SpawnSignals

datatype run_error = BindFailed socket_addr | DropFailed priv_error | IssuanceFailed nat acme_error

text \<open>
  The local variables of \<^verbatim>\<open>run\<close>, with the sockets as the addresses they were bound to; \<open>SpawnHttp\<close> says of
  which block, whether as a TLS listener, and whether with an ACME manager.
\<close>

record 'c startup =
  su_trace :: "action list"
  su_managers :: "(nat \<times> 'c acme_manager) list"
  su_now :: "(socket_addr \<times> string \<times> nat) list"
  su_deferred :: "(socket_addr \<times> string \<times> nat) list"
  su_quic :: "(socket_addr \<times> nat) list"
  su_stream :: "(socket_addr \<times> stream_block) list"
  su_mail :: "(socket_addr \<times> mail_block) list"
  su_deferred_quic :: "(socket_addr \<times> nat) list"
  su_creds :: creds
  su_disk :: disk

text \<open>
  The answers: whether the bind after so many earlier actions succeeds, the identity calls, the order in
  which the hash map of managers is walked, the TLS library and the CA, by block and attempt.
\<close>

record 'c run_calls =
  rn_bind :: "nat \<Rightarrow> socket_addr \<Rightarrow> bool"
  rn_posix :: posix
  rn_order :: "(nat \<times> 'c acme_manager) list \<Rightarrow> (nat \<times> 'c acme_manager) list"
  rn_rustls :: rustls_calls
  rn_ca :: "nat \<Rightarrow> nat \<Rightarrow> 'c ca"

definition emit :: "action \<Rightarrow> 'c startup \<Rightarrow> 'c startup" where
  "emit a su = su \<lparr>su_trace := su_trace su @ [a]\<rparr>"

text \<open>A loop that is left at the first error, as by \<^verbatim>\<open>?\<close>, and the same for one thing after the other.\<close>

fun until_error :: "('a \<Rightarrow> 's \<Rightarrow> 's \<times> 'e option) \<Rightarrow> 'a list \<Rightarrow> 's \<Rightarrow> 's \<times> 'e option" where
  "until_error f [] s = (s, None)"
| "until_error f (x # xs) s =
     (case f x s of (s, Some e) \<Rightarrow> (s, Some e) | (s, None) \<Rightarrow> until_error f xs s)"

definition after :: "'s \<times> 'e option \<Rightarrow> ('s \<Rightarrow> 's \<times> 'e option) \<Rightarrow> 's \<times> 'e option" where
  "after r f = (case r of (s, Some e) \<Rightarrow> (s, Some e) | (s, None) \<Rightarrow> f s)"

section \<open>Binding\<close>

definition managers_of :: "config \<Rightarrow> (nat \<times> 'c acme_manager) list" where
  "managers_of cf =
     List.map_filter (\<lambda>(idx, hb).
       case Option.bind (hb_ssl hb) ssl_acme of
         None \<Rightarrow> None
       | Some ac \<Rightarrow> if ac_enabled ac then Some (idx, acme_manager_new ac (hb_server_name hb)) else None)
       (List.enumerate 0 (cf_http cf))"

definition is_tls_protocol :: "string \<Rightarrow> bool" where
  "is_tls_protocol p \<longleftrightarrow> p = ''tls'' \<or> p = ''https''"

text \<open>\<^verbatim>\<open>acme_managers.contains_key(&idx)\<close>.\<close>

definition has_manager :: "'c startup \<Rightarrow> nat \<Rightarrow> bool" where
  "has_manager su idx \<longleftrightarrow> idx \<in> fst ` set (su_managers su)"

definition bind_http ::
  "'c run_calls \<Rightarrow> nat \<Rightarrow> listen_directive \<Rightarrow> 'c startup \<Rightarrow> 'c startup \<times> run_error option" where
  "bind_http C idx l su =
     (let addr = listen_addr l; p = ld_protocol l; ok = rn_bind C (length (su_trace su)) addr in
      if p = ''tcp'' \<or> p = ''http''
      then (if ok then (emit (BindTcp addr) (su \<lparr>su_now := su_now su @ [(addr, p, idx)]\<rparr>), None)
            else (su, Some (BindFailed addr)))
      else if p = ''tls'' \<or> p = ''https''
      then (if \<not> ok then (su, Some (BindFailed addr))
            else if has_manager su idx
            then (emit (BindTcp addr) (su \<lparr>su_deferred := su_deferred su @ [(addr, p, idx)]\<rparr>), None)
            else (emit (BindTcp addr) (su \<lparr>su_now := su_now su @ [(addr, p, idx)]\<rparr>), None))
      else if p = ''quic'' \<or> p = ''h3'' \<or> p = ''http3''
      then (if ok then (emit (BindUdp addr) (su \<lparr>su_quic := su_quic su @ [(addr, idx)]\<rparr>), None)
            else (su, Some (BindFailed addr)))
      else (su, None))"

definition bind_stream ::
  "'c run_calls \<Rightarrow> stream_block \<Rightarrow> 'c startup \<Rightarrow> 'c startup \<times> run_error option" where
  "bind_stream C sb su =
     (let addr = listen_addr (st_listen sb) in
      if rn_bind C (length (su_trace su)) addr
      then (emit (BindTcp addr) (su \<lparr>su_stream := su_stream su @ [(addr, sb)]\<rparr>), None)
      else (su, Some (BindFailed addr)))"

definition bind_mail ::
  "'c run_calls \<Rightarrow> mail_block \<Rightarrow> listen_directive \<Rightarrow> 'c startup \<Rightarrow> 'c startup \<times> run_error option" where
  "bind_mail C mb l su =
     (let addr = listen_addr l in
      if rn_bind C (length (su_trace su)) addr
      then (emit (BindTcp addr) (su \<lparr>su_mail := su_mail su @ [(addr, mb)]\<rparr>), None)
      else (su, Some (BindFailed addr)))"

definition bind_all :: "'c run_calls \<Rightarrow> config \<Rightarrow> 'c startup \<Rightarrow> 'c startup \<times> run_error option" where
  "bind_all C cf su =
     after (after (until_error (\<lambda>(idx, hb). until_error (bind_http C idx) (hb_listen hb))
                     (List.enumerate 0 (cf_http cf)) su)
              (until_error (bind_stream C) (cf_stream cf)))
       (\<lambda>su. case cf_mail cf of
               None \<Rightarrow> (su, None)
             | Some mb \<Rightarrow> until_error (bind_mail C mb) (ml_listen mb) su)"

section \<open>Dropping privileges and serving\<close>

definition drop_step :: "'c run_calls \<Rightarrow> config \<Rightarrow> 'c startup \<Rightarrow> 'c startup \<times> run_error option" where
  "drop_step C cf su =
     (case gl_user (cf_global cf) of
        None \<Rightarrow> (su, None)
      | Some user \<Rightarrow>
          (case drop_privileges (rn_posix C) (su_creds su) user of
             (c, Inl e) \<Rightarrow> (su \<lparr>su_creds := c\<rparr>, Some (DropFailed e))
           | (c, Inr _) \<Rightarrow> (emit (DropPrivileges user) (su \<lparr>su_creds := c\<rparr>), None)))"

definition spawn_stream :: "socket_addr \<times> stream_block \<Rightarrow> 'c startup \<Rightarrow> 'c startup" where
  "spawn_stream p su = emit (SpawnStream (fst p) (snd p)) su"

definition spawn_mail :: "socket_addr \<times> mail_block \<Rightarrow> 'c startup \<Rightarrow> 'c startup" where
  "spawn_mail p su = emit (SpawnMail (fst p) (snd p)) su"

definition spawn_now :: "config \<Rightarrow> socket_addr \<times> string \<times> nat \<Rightarrow> 'c startup \<Rightarrow> 'c startup" where
  "spawn_now cf p su =
     (case p of (addr, protocol, idx) \<Rightarrow>
        case nth_opt (cf_http cf) idx of
          None \<Rightarrow> su
        | Some _ \<Rightarrow>
            emit (SpawnHttp addr idx (is_tls_protocol protocol) (has_manager su idx)) su)"

definition spawn_quic :: "config \<Rightarrow> socket_addr \<times> nat \<Rightarrow> 'c startup \<Rightarrow> 'c startup" where
  "spawn_quic cf p su =
     (case p of (addr, idx) \<Rightarrow>
        case nth_opt (cf_http cf) idx of
          None \<Rightarrow> su
        | Some hb \<Rightarrow>
            if \<not> hb_http3 hb then su
            else if has_manager su idx
            then su \<lparr>su_deferred_quic := su_deferred_quic su @ [(addr, idx)]\<rparr>
            else if hb_ssl hb = None then su
            else emit (SpawnQuic addr idx False) su)"

definition spawn_first :: "config \<Rightarrow> 'c startup \<Rightarrow> 'c startup" where
  "spawn_first cf su =
     (let su = fold spawn_stream (su_stream su) su;
          su = fold spawn_mail (su_mail su) su;
          su = fold (spawn_now cf) (su_now su) su
      in fold (spawn_quic cf) (su_quic su) su)"

section \<open>Issuance\<close>

text \<open>The \<^verbatim>\<open>while\<close> loops that take the sockets of one block out of the deferred ones and serve them.\<close>

definition serve_deferred :: "config \<Rightarrow> nat \<Rightarrow> 'c startup \<Rightarrow> 'c startup" where
  "serve_deferred cf idx su =
     (let mine = filter (\<lambda>(_, _, b). b = idx) (su_deferred su);
          su = su \<lparr>su_deferred := filter (\<lambda>(_, _, b). b \<noteq> idx) (su_deferred su)\<rparr>
      in if nth_opt (cf_http cf) idx = None then su
         else fold (\<lambda>(addr, _, b). emit (SpawnHttp addr b True True)) mine su)"

definition serve_deferred_quic :: "config \<Rightarrow> nat \<Rightarrow> 'c startup \<Rightarrow> 'c startup" where
  "serve_deferred_quic cf idx su =
     (let mine = filter (\<lambda>(_, b). b = idx) (su_deferred_quic su);
          su = su \<lparr>su_deferred_quic := filter (\<lambda>(_, b). b \<noteq> idx) (su_deferred_quic su)\<rparr>
      in if nth_opt (cf_http cf) idx = None then su
         else fold (\<lambda>(addr, b). emit (SpawnQuic addr b True)) mine su)"

definition issue_block ::
  "ext \<Rightarrow> 'c run_calls \<Rightarrow> config \<Rightarrow> nat \<times> 'c acme_manager \<Rightarrow> 'c startup \<Rightarrow> 'c startup \<times> run_error option" where
  "issue_block X C cf p su =
     (case p of (idx, m) \<Rightarrow>
        case ensure_cert X (rn_rustls C) (rn_ca C idx) (m, su_disk su) of
          ((m, d), _, Inl e) \<Rightarrow>
            (su \<lparr>su_disk := d\<rparr>, Some (IssuanceFailed idx e))
        | ((m, d), _, Inr _) \<Rightarrow>
            (let su = emit (Issued idx)
                   (su \<lparr>su_disk := d, su_managers := AList.update idx m (su_managers su)\<rparr>);
                 su = serve_deferred_quic cf idx (serve_deferred cf idx su)
             in (emit (SpawnRenewal idx) su, None)))"

section \<open>The whole of it\<close>

definition run_start :: "config \<Rightarrow> creds \<Rightarrow> disk \<Rightarrow> 'c startup" where
  "run_start cf creds d =
     \<lparr>su_trace = (case gl_pid_file (cf_global cf) of None \<Rightarrow> [] | Some f \<Rightarrow> [WritePid f]),
      su_managers = managers_of cf, su_now = [], su_deferred = [], su_quic = [], su_stream = [],
      su_mail = [], su_deferred_quic = [], su_creds = creds, su_disk = d\<rparr>"

definition run :: "ext \<Rightarrow> 'c run_calls \<Rightarrow> config \<Rightarrow> creds \<Rightarrow> disk \<Rightarrow> 'c startup \<times> run_error option" where
  "run X C cf creds d =
     after (after (after (bind_all C cf (run_start cf creds d)) (drop_step C cf))
              (\<lambda>su. until_error (issue_block X C cf) (rn_order C (su_managers su)) (spawn_first cf su)))
       (\<lambda>su. (emit SpawnSignals su, None))"

section \<open>Loops\<close>

lemma emit_fields [simp]:
  "su_trace (emit a su) = su_trace su @ [a]" "su_managers (emit a su) = su_managers su"
  "su_now (emit a su) = su_now su" "su_deferred (emit a su) = su_deferred su"
  "su_quic (emit a su) = su_quic su" "su_stream (emit a su) = su_stream su" "su_mail (emit a su) = su_mail su"
  "su_deferred_quic (emit a su) = su_deferred_quic su" "su_creds (emit a su) = su_creds su"
  "su_disk (emit a su) = su_disk su"
  by (simp_all add: emit_def)

lemma until_error_inv:
  assumes "until_error f xs s = (s', r)" "P s"
    and "\<And>x s s' r. x \<in> set xs \<Longrightarrow> P s \<Longrightarrow> f x s = (s', r) \<Longrightarrow> P s'"
  shows "P s'"
  using assms
proof (induction xs arbitrary: s)
  case (Cons x xs)
  obtain s1 r1 where f: "f x s = (s1, r1)" by (cases "f x s")
  have s1: "P s1" using Cons.prems(2,3) f by (meson list.set_intros(1))
  show ?case
  proof (cases r1)
    case None
    with Cons.prems(1) f have "until_error f xs s1 = (s', r)" by simp
    then show ?thesis by (rule Cons.IH [OF _ s1]) (rule Cons.prems(3), simp_all)
  next
    case (Some e)
    with Cons.prems(1) f s1 show ?thesis by simp
  qed
qed simp

lemma until_error_all:
  assumes "until_error f xs s = (s', None)" "x \<in> set xs" "P s"
    and "\<And>y s s' r. y \<in> set xs \<Longrightarrow> P s \<Longrightarrow> f y s = (s', r) \<Longrightarrow> P s'"
    and "\<And>s s'. P s \<Longrightarrow> f x s = (s', None) \<Longrightarrow> Q s'"
    and "\<And>y s s' r. y \<in> set xs \<Longrightarrow> Q s \<Longrightarrow> f y s = (s', r) \<Longrightarrow> Q s'"
  shows "Q s'"
  using assms
proof (induction xs arbitrary: s)
  case (Cons y xs)
  obtain s1 where f: "f y s = (s1, None)" "until_error f xs s1 = (s', None)"
    using Cons.prems(1) by (auto split: prod.splits option.splits)
  have s1: "P s1" using Cons.prems(3,4) f(1) by (meson list.set_intros(1))
  show ?case
  proof (cases "x = y")
    case True
    then have "Q s1" using Cons.prems(3,5) f(1) by blast
    with f(2) show ?thesis by (rule until_error_inv) (rule Cons.prems(6), simp_all)
  next
    case False
    with Cons.prems(2) have "x \<in> set xs" by simp
    then show ?thesis
      by (rule Cons.IH [OF f(2) _ s1]) (use Cons.prems(4-6) in \<open>meson list.set_intros(2)\<close>)+
  qed
qed simp

lemma after_cases:
  assumes "after r f = (s', e)"
  obtains (failed) e' where "r = (s', Some e')" "e = Some e'" | (went_on) s where "r = (s, None)" "f s = (s', e)"
  using assms by (auto simp: after_def split: prod.splits option.splits)

lemma after_inv:
  assumes "after r f = (s', e)" "\<And>s' e. r = (s', e) \<Longrightarrow> P s'" "\<And>s s' e. P s \<Longrightarrow> f s = (s', e) \<Longrightarrow> P s'"
  shows "P s'"
  using assms(1) by (rule after_cases) (use assms(2,3) in blast)+

section \<open>Before and after the drop\<close>

fun is_setup :: "action \<Rightarrow> bool" where
  "is_setup (WritePid _) = True"
| "is_setup (BindTcp _) = True"
| "is_setup (BindUdp _) = True"
| "is_setup _ = False"

fun is_service :: "action \<Rightarrow> bool" where
  "is_service (DropPrivileges _) = False"
| "is_service SpawnSignals = False"
| "is_service a = (\<not> is_setup a)"

text \<open>The listeners of blocks in \<open>M\<close> that speak TLS are served after the block's certificate was issued.\<close>

fun needs_cert :: "nat set \<Rightarrow> action \<Rightarrow> nat option" where
  "needs_cert M (SpawnHttp _ i tls _) = (if tls \<and> i \<in> M then Some i else None)"
| "needs_cert M (SpawnQuic _ i _) = (if i \<in> M then Some i else None)"
| "needs_cert M _ = None"

definition issued_first :: "nat set \<Rightarrow> action list \<Rightarrow> bool" where
  "issued_first M tr \<longleftrightarrow>
     (\<forall>k<length tr. \<forall>i. needs_cert M (tr ! k) = Some i \<longrightarrow> Issued i \<in> set (take k tr))"

lemma issued_first_snoc:
  "issued_first M (tr @ [a]) \<longleftrightarrow>
     issued_first M tr \<and> (\<forall>i. needs_cert M a = Some i \<longrightarrow> Issued i \<in> set tr)"
  by (auto simp: issued_first_def nth_append less_Suc_eq)

lemma setup_needs_none: "is_setup a \<Longrightarrow> needs_cert M a = None"
  by (cases a) simp_all

text \<open>What holds of the sockets while they are bound.\<close>

definition binding :: "'c startup \<Rightarrow> 'c startup \<Rightarrow> bool" where
  "binding su0 su \<longleftrightarrow>
     list_all is_setup (su_trace su) \<and> su_creds su = su_creds su0 \<and> su_managers su = su_managers su0
     \<and> su_deferred_quic su = []
     \<and> list_all (\<lambda>(_, p, i). is_tls_protocol p \<longrightarrow> \<not> has_manager su0 i) (su_now su)
     \<and> list_all (\<lambda>(_, _, i). has_manager su0 i) (su_deferred su)"

lemma has_manager_cong: "su_managers su = su_managers su0 \<Longrightarrow> has_manager su = has_manager su0"
  by (simp add: has_manager_def fun_eq_iff)

lemma bind_http_binding: "binding su0 su \<Longrightarrow> bind_http C idx l su = (su', r) \<Longrightarrow> binding su0 su'"
  by (simp add: binding_def bind_http_def Let_def is_tls_protocol_def split: if_splits; safe;
      simp add: has_manager_cong [of su su0])

lemma bind_stream_binding: "binding su0 su \<Longrightarrow> bind_stream C sb su = (su', r) \<Longrightarrow> binding su0 su'"
  by (simp add: binding_def bind_stream_def Let_def split: if_splits; safe; simp)

lemma bind_mail_binding: "binding su0 su \<Longrightarrow> bind_mail C mb l su = (su', r) \<Longrightarrow> binding su0 su'"
  by (simp add: binding_def bind_mail_def Let_def split: if_splits; safe; simp)

lemma bind_block_binding:
  "binding su0 su \<Longrightarrow> until_error (bind_http C idx) ls su = (su', r) \<Longrightarrow> binding su0 su'"
  by (rule until_error_inv [where P = "binding su0"]) (auto intro: bind_http_binding)

lemma bind_all_binding:
  assumes "binding su0 su" "bind_all C cf su = (su', r)"
  shows "binding su0 su'"
  using assms(2) unfolding bind_all_def
proof (rule after_inv [where P = "binding su0"])
  show "binding su0 s'" if "after (until_error (\<lambda>(idx, hb). until_error (bind_http C idx) (hb_listen hb))
      (List.enumerate 0 (cf_http cf)) su) (until_error (bind_stream C) (cf_stream cf)) = (s', e)" for s' e
    using that
  proof (rule after_inv [where P = "binding su0"])
    show "binding su0 s'" if "until_error (\<lambda>(idx, hb). until_error (bind_http C idx) (hb_listen hb))
        (List.enumerate 0 (cf_http cf)) su = (s', e)" for s' e
      by (rule until_error_inv [OF that, where P = "binding su0"]) (auto intro: bind_block_binding assms(1))
    show "binding su0 s'" if "binding su0 s" "until_error (bind_stream C) (cf_stream cf) s = (s', e)" for s s' e
      by (rule until_error_inv [OF that(2), where P = "binding su0"]) (auto intro: bind_stream_binding that(1))
  qed
  show "binding su0 s'" if "binding su0 s"
    "(case cf_mail cf of None \<Rightarrow> (s, None) | Some mb \<Rightarrow> until_error (bind_mail C mb) (ml_listen mb) s) = (s', e)"
    for s s' e
  proof (cases "cf_mail cf")
    case (Some mb)
    with that(2) have "until_error (bind_mail C mb) (ml_listen mb) s = (s', e)" by simp
    then show ?thesis
      by (rule until_error_inv [where P = "binding su0"]) (auto intro: bind_mail_binding that(1))
  qed (use that in simp)
qed

text \<open>What holds while things are served.\<close>

definition serving_inv :: "nat set \<Rightarrow> action list \<Rightarrow> creds \<Rightarrow> 'c startup \<Rightarrow> bool" where
  "serving_inv M before c su \<longleftrightarrow>
     (\<exists>rest. su_trace su = before @ rest \<and> list_all is_service rest)
     \<and> issued_first M (su_trace su) \<and> su_creds su = c"

lemma serving_emit:
  assumes "serving_inv M before c su" "is_service a" "\<forall>i. needs_cert M a = Some i \<longrightarrow> Issued i \<in> set (su_trace su)"
  shows "serving_inv M before c (emit a su)"
  using assms by (auto simp: serving_inv_def issued_first_snoc)

lemma serving_fold:
  assumes "serving_inv M before c su" "Q su"
    and "\<And>x su. x \<in> set xs \<Longrightarrow> serving_inv M before c su \<Longrightarrow> Q su \<Longrightarrow> serving_inv M before c (f x su) \<and> Q (f x su)"
  shows "serving_inv M before c (fold f xs su) \<and> Q (fold f xs su)"
  using assms by (induction xs arbitrary: su) auto

lemma spawn_first_serving:
  assumes "binding su0 su1" "M = {i. has_manager su0 i}"
    and "serving_inv M before c su" "su_managers su = su_managers su0"
    and "su_now su = su_now su1" "su_deferred su = su_deferred su1" "su_deferred_quic su = []"
  shows "serving_inv M before c (spawn_first cf su) \<and> su_deferred (spawn_first cf su) = su_deferred su1
    \<and> su_managers (spawn_first cf su) = su_managers su0"
proof -
  let ?Q = "\<lambda>s :: 'a startup. su_managers s = su_managers su0 \<and> su_now s = su_now su1
    \<and> su_deferred s = su_deferred su1 \<and> su_stream s = su_stream su \<and> su_mail s = su_mail su \<and> su_quic s = su_quic su"
  let ?s1 = "fold spawn_stream (su_stream su) su"
  let ?s2 = "fold spawn_mail (su_mail su) ?s1"
  let ?s3 = "fold (spawn_now cf) (su_now su1) ?s2"
  have 1: "serving_inv M before c ?s1 \<and> ?Q ?s1"
    by (rule serving_fold) (use assms in \<open>auto simp: spawn_stream_def intro: serving_emit\<close>)
  have 2: "serving_inv M before c ?s2 \<and> ?Q ?s2"
    by (rule serving_fold) (use 1 in \<open>auto simp: spawn_mail_def intro: serving_emit\<close>)
  have 3: "serving_inv M before c ?s3 \<and> ?Q ?s3"
  proof (rule serving_fold)
    fix p s assume p: "p \<in> set (su_now su1)" and s: "serving_inv M before c s" "?Q s"
    obtain a q i where q: "p = (a, q, i)" by (cases p)
    then have "is_tls_protocol q \<longrightarrow> \<not> has_manager su0 i"
      using p assms(1) by (auto simp: binding_def list_all_iff)
    with s q assms(2) show "serving_inv M before c (spawn_now cf p s) \<and> ?Q (spawn_now cf p s)"
      by (auto simp: spawn_now_def split: option.split intro: serving_emit)
  qed (use 2 in simp_all)
  have "serving_inv M before c (fold (spawn_quic cf) (su_quic su) ?s3) \<and> ?Q (fold (spawn_quic cf) (su_quic su) ?s3)"
  proof (rule serving_fold)
    fix p s assume s: "serving_inv M before c s" "?Q s"
    then have "has_manager s = has_manager su0" by (intro has_manager_cong) simp
    with s assms(2) show "serving_inv M before c (spawn_quic cf p s) \<and> ?Q (spawn_quic cf p s)"
      by (cases p) (auto simp: spawn_quic_def serving_inv_def issued_first_snoc split: option.split)
  qed (use 3 in simp_all)
  with 1 2 3 assms(5) show ?thesis by (simp add: spawn_first_def Let_def)
qed

lemma serve_deferred_serving:
  fixes su :: "'c startup"
  assumes "serving_inv M before c su" "Issued idx \<in> set (su_trace su)"
  shows "serving_inv M before c (serve_deferred cf idx su) \<and> Issued idx \<in> set (su_trace (serve_deferred cf idx su))"
proof -
  have "serving_inv M before c (su \<lparr>su_deferred := x\<rparr>)" for x using assms(1) by (simp add: serving_inv_def)
  moreover have "serving_inv M before c (fold (\<lambda>(addr, _, b). emit (SpawnHttp addr b True True)) ps s)
      \<and> Issued idx \<in> set (su_trace (fold (\<lambda>(addr, _, b). emit (SpawnHttp addr b True True)) ps s))"
    if "\<forall>p\<in>set ps. snd (snd p) = idx" "serving_inv M before c s" "Issued idx \<in> set (su_trace s)" for ps :: "(socket_addr \<times> string \<times> nat) list" and s :: "'c startup"
    by (rule serving_fold) (use that in \<open>auto simp: case_prod_beta intro!: serving_emit split: if_splits\<close>)
  moreover have "\<forall>p\<in>set (filter (\<lambda>(_, _, b). b = idx) (su_deferred su)). snd (snd p) = idx" by auto
  ultimately show ?thesis using assms(2) unfolding serve_deferred_def Let_def by simp
qed

lemma serve_deferred_quic_serving:
  fixes su :: "'c startup"
  assumes "serving_inv M before c su" "Issued idx \<in> set (su_trace su)"
  shows "serving_inv M before c (serve_deferred_quic cf idx su)"
proof -
  have "serving_inv M before c (su \<lparr>su_deferred_quic := x\<rparr>)" for x using assms(1) by (simp add: serving_inv_def)
  moreover have "serving_inv M before c (fold (\<lambda>(addr, b). emit (SpawnQuic addr b True)) ps s)
      \<and> Issued idx \<in> set (su_trace (fold (\<lambda>(addr, b). emit (SpawnQuic addr b True)) ps s))"
    if "\<forall>p\<in>set ps. snd p = idx" "serving_inv M before c s" "Issued idx \<in> set (su_trace s)" for ps and s :: "'c startup"
    by (rule serving_fold) (use that in \<open>auto simp: case_prod_beta intro!: serving_emit split: if_splits\<close>)
  moreover have "\<forall>p\<in>set (filter (\<lambda>(_, b). b = idx) (su_deferred_quic su)). snd p = idx" by auto
  ultimately show ?thesis using assms(2) unfolding serve_deferred_quic_def Let_def by simp
qed

lemma issue_block_serving:
  assumes "serving_inv M before c su" "issue_block X C cf p su = (su', r)"
  shows "serving_inv M before c su'"
proof -
  obtain idx m where p: "p = (idx, m)" by (cases p)
  obtain m' d' waits res where e: "ensure_cert X (rn_rustls C) (rn_ca C idx) (m, su_disk su) = ((m', d'), waits, res)"
    by (metis prod.exhaust)
  show ?thesis
  proof (cases res)
    case (Inl err)
    with assms p e show ?thesis by (auto simp: issue_block_def serving_inv_def)
  next
    case (Inr u)
    let ?su = "emit (Issued idx) (su \<lparr>su_disk := d', su_managers := AList.update idx m' (su_managers su)\<rparr>)"
    have "serving_inv M before c ?su" using assms(1) by (intro serving_emit) (simp_all add: serving_inv_def)
    then have "serving_inv M before c (serve_deferred_quic cf idx (serve_deferred cf idx ?su))"
      using serve_deferred_serving serve_deferred_quic_serving by (metis emit_fields(1) in_set_conv_decomp)
    moreover have "su' = emit (SpawnRenewal idx) (serve_deferred_quic cf idx (serve_deferred cf idx ?su))"
      using assms(2) p e Inr by (simp add: issue_block_def Let_def)
    ultimately show ?thesis by (simp add: serving_emit)
  qed
qed

section \<open>Everything is bound\<close>

text \<open>The sockets a configuration asks for.\<close>

definition known_protocol :: "string \<Rightarrow> bool" where
  "known_protocol p \<longleftrightarrow> p \<in> {''tcp'', ''http'', ''tls'', ''https'', ''quic'', ''h3'', ''http3''}"

definition all_bound :: "config \<Rightarrow> action list \<Rightarrow> bool" where
  "all_bound cf tr \<longleftrightarrow>
     (\<forall>hb\<in>set (cf_http cf). \<forall>l\<in>set (hb_listen hb). known_protocol (ld_protocol l) \<longrightarrow>
        BindTcp (listen_addr l) \<in> set tr \<or> BindUdp (listen_addr l) \<in> set tr)
     \<and> (\<forall>sb\<in>set (cf_stream cf). BindTcp (listen_addr (st_listen sb)) \<in> set tr)
     \<and> (\<forall>mb. cf_mail cf = Some mb \<longrightarrow> (\<forall>l\<in>set (ml_listen mb). BindTcp (listen_addr l) \<in> set tr))"

abbreviation did :: "action \<Rightarrow> 'c startup \<Rightarrow> bool" where
  "did a su \<equiv> a \<in> set (su_trace su)"

lemma bind_keeps:
  "bind_http C idx l su = (su', r) \<Longrightarrow> did a su \<Longrightarrow> did a su'"
  "bind_stream C sb su = (su', r) \<Longrightarrow> did a su \<Longrightarrow> did a su'"
  "bind_mail C mb l su = (su', r) \<Longrightarrow> did a su \<Longrightarrow> did a su'"
  by (auto simp: bind_http_def bind_stream_def bind_mail_def Let_def split: if_splits)

lemma bind_block_keeps:
  "until_error (bind_http C idx) ls su = (su', r) \<Longrightarrow> did a su \<Longrightarrow> did a su'"
  by (rule until_error_inv [where P = "did a"]) (auto intro: bind_keeps)

lemma bind_all_bound:
  assumes "bind_all C cf su = (su', None)"
  shows "all_bound cf (su_trace su')"
proof -
  let ?http = "\<lambda>(idx, hb). until_error (bind_http C idx) (hb_listen hb)"
  let ?mail = "\<lambda>su. case cf_mail cf of None \<Rightarrow> (su, None) | Some mb \<Rightarrow> until_error (bind_mail C mb) (ml_listen mb) su"
  obtain s1 s2 where s1: "until_error ?http (List.enumerate 0 (cf_http cf)) su = (s1, None)"
    and s2: "until_error (bind_stream C) (cf_stream cf) s1 = (s2, None)" and s3: "?mail s2 = (su', None)"
    using assms unfolding bind_all_def by (auto elim!: after_cases)
  have keep2: "did a s2" if "did a s1" for a
    by (rule until_error_inv [OF s2, where P = "did a"]) (auto intro: bind_keeps that)
  have keep3: "did a su'" if "did a s2" for a
  proof (cases "cf_mail cf")
    case (Some mb)
    with s3 have "until_error (bind_mail C mb) (ml_listen mb) s2 = (su', None)" by simp
    then show ?thesis by (rule until_error_inv [where P = "did a"]) (auto intro: bind_keeps that)
  qed (use s3 that in simp)
  have http: "did (BindTcp (listen_addr l)) s1 \<or> did (BindUdp (listen_addr l)) s1"
    if "hb \<in> set (cf_http cf)" "l \<in> set (hb_listen hb)" "known_protocol (ld_protocol l)" for hb l
  proof -
    let ?Q = "\<lambda>s. did (BindTcp (listen_addr l)) s \<or> did (BindUdp (listen_addr l)) s"
    from that(1) obtain i where "i < length (cf_http cf)" "cf_http cf ! i = hb" by (auto simp: in_set_conv_nth)
    then have "(i, hb) \<in> set (List.enumerate 0 (cf_http cf))" by (simp add: in_set_enumerate_eq)
    then show ?thesis
    proof (rule until_error_all [OF s1, where P = "\<lambda>_. True" and Q = ?Q])
      fix s s' assume "?http (i, hb) s = (s', None)"
      then have "until_error (bind_http C i) (hb_listen hb) s = (s', None)" by simp
      then show "?Q s'"
        by (rule until_error_all [OF _ that(2), where P = "\<lambda>_. True"])
          (use that(3) in \<open>auto simp: bind_http_def known_protocol_def Let_def split: if_splits\<close>)
    qed (auto intro: bind_block_keeps)
  qed
  have stream: "did (BindTcp (listen_addr (st_listen sb))) s2" if "sb \<in> set (cf_stream cf)" for sb
    by (rule until_error_all [OF s2 that, where P = "\<lambda>_. True"])
      (auto simp: bind_stream_def Let_def split: if_splits)
  have mail: "did (BindTcp (listen_addr l)) su'" if "cf_mail cf = Some mb" "l \<in> set (ml_listen mb)" for mb l
  proof -
    from s3 that(1) have "until_error (bind_mail C mb) (ml_listen mb) s2 = (su', None)" by simp
    then show ?thesis
      by (rule until_error_all [OF _ that(2), where P = "\<lambda>_. True"])
        (auto simp: bind_mail_def Let_def split: if_splits)
  qed
  show ?thesis unfolding all_bound_def using http stream mail keep2 keep3 by blast
qed

text \<open>
  \<^verbatim>\<open>bound_addrs\<close>: what \<^verbatim>\<open>record_bound\<close> noted after each TCP bind, the address the system gave to the socket,
  when it tells. Datagram sockets are not noted.
\<close>

definition record_bound :: "(socket_addr \<Rightarrow> socket_addr option) \<Rightarrow> action \<Rightarrow> socket_addr list \<Rightarrow> socket_addr list" where
  "record_bound local a bound =
     (case a of
        BindTcp addr \<Rightarrow> (case local addr of Some addr' \<Rightarrow> bound @ [addr'] | None \<Rightarrow> bound)
      | _ \<Rightarrow> bound)"

definition bound_addrs :: "(socket_addr \<Rightarrow> socket_addr option) \<Rightarrow> action list \<Rightarrow> socket_addr list" where
  "bound_addrs local tr = fold (record_bound local) tr []"

lemma bound_addrs_exact: "set (bound_addrs local tr) = {addr'. \<exists>addr. BindTcp addr \<in> set tr \<and> local addr = Some addr'}"
proof (induction tr rule: rev_induct)
  case (snoc a tr)
  then show ?case by (cases a) (auto simp: bound_addrs_def record_bound_def split: option.split)
qed (simp add: bound_addrs_def)

section \<open>Properties\<close>

lemma run_start_binding: "binding (run_start cf creds d) (run_start cf creds d)"
  by (simp add: binding_def run_start_def split: option.split)

lemma issued_first_setup: "list_all is_setup tr \<Longrightarrow> issued_first M tr"
  by (auto simp: issued_first_def list_all_length setup_needs_none)

definition drop_mark :: "config \<Rightarrow> action list" where
  "drop_mark cf = (case gl_user (cf_global cf) of None \<Rightarrow> [] | Some u \<Rightarrow> [DropPrivileges u])"

lemma drop_step_ok:
  assumes "drop_step C cf su = (su', None)"
  shows "su_trace su' = su_trace su @ drop_mark cf \<and> su_managers su' = su_managers su
    \<and> su_now su' = su_now su \<and> su_deferred su' = su_deferred su \<and> su_deferred_quic su' = su_deferred_quic su
    \<and> (\<forall>u. gl_user (cf_global cf) = Some u \<longrightarrow>
         drop_privileges (rn_posix C) (su_creds su) u = (su_creds su', Inr ()))"
  using assms by (auto simp: drop_step_def drop_mark_def split: option.splits prod.splits sum.splits)

lemma drop_step_failed:
  "drop_step C cf su = (su', Some e) \<Longrightarrow> su_trace su' = su_trace su"
  by (auto simp: drop_step_def split: option.splits prod.splits sum.splits)

lemma run_order:
  assumes "run X C cf creds d = (su, err)"
    and "M = {i. has_manager (run_start cf creds d :: 'c startup) i}"
  shows "issued_first M (su_trace (su :: 'c startup))
    \<and> (err \<noteq> None \<and> list_all is_setup (su_trace su)
       \<or> (\<exists>setup rest. su_trace su = setup @ drop_mark cf @ rest @ (if err = None then [SpawnSignals] else [])
            \<and> list_all is_setup setup \<and> all_bound cf setup \<and> list_all is_service rest
            \<and> (\<forall>u. gl_user (cf_global cf) = Some u \<longrightarrow>
                 drop_privileges (rn_posix C) creds u = (su_creds su, Inr ()))))"
proof -
  let ?su0 = "run_start cf creds d :: 'c startup"
  obtain s1 r1 where s1: "bind_all C cf ?su0 = (s1, r1)" by (cases "bind_all C cf ?su0")
  have b1: "binding ?su0 s1" by (rule bind_all_binding [OF run_start_binding s1])
  then have t1: "list_all is_setup (su_trace s1)" "su_creds s1 = creds"
    by (simp_all add: binding_def run_start_def)
  obtain s2 r2 where s2: "after (s1, r1) (drop_step C cf) = (s2, r2)" by (cases "after (s1, r1) (drop_step C cf)")
  show ?thesis
  proof (cases r2)
    case (Some e)
    with assms(1) s1 s2 have "su = s2" "err \<noteq> None" by (auto simp: run_def after_def)
    moreover have "su_trace s2 = su_trace s1"
      using s2 Some by (auto simp: drop_step_failed elim!: after_cases)
    ultimately show ?thesis using t1(1) by (simp add: issued_first_setup)
  next
    case None
    with s2 have r1: "r1 = None" and dr: "drop_step C cf s1 = (s2, None)" by (auto elim!: after_cases)
    note drop = drop_step_ok [OF dr]
    let ?before = "su_trace s1 @ drop_mark cf"
    have "issued_first M ?before"
      using issued_first_setup [OF t1(1)]
      by (auto simp: drop_mark_def issued_first_snoc split: option.split)
    with drop have "serving_inv M ?before (su_creds s2) s2" by (simp add: serving_inv_def)
    then have sf: "serving_inv M ?before (su_creds s2) (spawn_first cf s2)"
      using spawn_first_serving [OF b1 assms(2), of ?before "su_creds s2" s2 cf] drop b1
      by (simp add: binding_def)
    obtain s3 r3 where s3: "until_error (issue_block X C cf) (rn_order C (su_managers s2)) (spawn_first cf s2) = (s3, r3)"
      by (cases "until_error (issue_block X C cf) (rn_order C (su_managers s2)) (spawn_first cf s2)")
    have "serving_inv M ?before (su_creds s2) s3"
      by (rule until_error_inv [OF s3, where P = "serving_inv M ?before (su_creds s2)", OF sf])
        (rule issue_block_serving)
    then obtain rest where rest: "su_trace s3 = su_trace s1 @ drop_mark cf @ rest" "list_all is_service rest"
      "issued_first M (su_trace s3)" "su_creds s3 = su_creds s2" by (auto simp: serving_inv_def)
    have "su = (if err = None then emit SpawnSignals s3 else s3)"
      using assms(1) s1 s2 s3 None by (auto simp: run_def after_def split: option.splits)
    moreover have "issued_first M (su_trace s3 @ [SpawnSignals])"
      using rest(3) unfolding issued_first_snoc by simp
    ultimately have "issued_first M (su_trace su)" "su_creds su = su_creds s2"
      "su_trace su = su_trace s1 @ drop_mark cf @ rest @ (if err = None then [SpawnSignals] else [])"
      using rest by auto
    moreover have "all_bound cf (su_trace s1)" using bind_all_bound s1 r1 by simp
    ultimately show ?thesis using drop t1 rest(2) by auto
  qed
qed

text \<open>
  C4. The server starts in the safe order, whatever fails. A run that fails before serving has only
  written its pid file and bound sockets. Otherwise it has bound every socket the configuration asks
  for, then dropped its privileges if a user is configured, and only then started to serve, and after
  that it binds nothing more. TLS and QUIC listeners of a block with ACME are served only after the
  block's certificate was issued: there is no fallback certificate. Signals are handled last, once
  everything is served.
\<close>

theorem startup_order:
  assumes "run X C cf creds d = (su, err)"
    and "M = {i. has_manager (run_start cf creds d :: 'c startup) i}"
  shows "issued_first M (su_trace (su :: 'c startup))
    \<and> (err \<noteq> None \<and> list_all is_setup (su_trace su)
       \<or> (\<exists>setup rest. su_trace su = setup @ drop_mark cf @ rest @ (if err = None then [SpawnSignals] else [])
            \<and> list_all is_setup setup \<and> all_bound cf setup \<and> list_all is_service rest
            \<and> (\<forall>u. gl_user (cf_global cf) = Some u \<longrightarrow>
                 drop_privileges (rn_posix C) creds u = (su_creds su, Inr ()))))"
  by (rule run_order [OF assms])

section \<open>Everything is served\<close>

lemma serving_now: "serving_inv {} (su_trace su) (su_creds su) su"
proof -
  have "needs_cert {} a = None" for a by (cases a) simp_all
  then show ?thesis by (simp add: serving_inv_def issued_first_def)
qed

lemma serving_did: "serving_inv {} (su_trace su) (su_creds su) su' \<Longrightarrow> did a su \<Longrightarrow> did a su'"
  by (auto simp: serving_inv_def)

lemma issue_block_keeps: "issue_block X C cf p su = (su', r) \<Longrightarrow> did a su \<Longrightarrow> did a su'"
  by (rule serving_did [OF issue_block_serving [OF serving_now]])

lemma fold_did:
  assumes "x \<in> set xs" "\<And>s. did a (f x s)" "\<And>y s. did a s \<Longrightarrow> did a (f y s)"
  shows "did a (fold f xs su)"
proof -
  have keep: "did a (fold f ys s)" if "did a s" for ys s
    using that assms(3) by (induction ys arbitrary: s) auto
  obtain ys zs where "xs = ys @ x # zs" using assms(1) by (auto dest: split_list)
  with keep assms(2) show ?thesis by simp
qed

lemma fold_keeps: "did a su \<Longrightarrow> (\<And>y s. did a s \<Longrightarrow> did a (f y s)) \<Longrightarrow> did a (fold f xs su)"
  by (induction xs arbitrary: su) auto

lemma spawn_keeps:
  "did a s \<Longrightarrow> did a (spawn_stream p s)" "did a s \<Longrightarrow> did a (spawn_mail q s)"
  "did a s \<Longrightarrow> did a (spawn_now cf x s)" "did a s \<Longrightarrow> did a (spawn_quic cf y s)"
  by (auto simp: spawn_stream_def spawn_mail_def spawn_now_def spawn_quic_def split: option.split prod.split)

lemma fold_same: "(\<And>x s. g (f x s) = g s) \<Longrightarrow> g (fold f xs s) = g s"
  by (induction xs arbitrary: s) simp_all

lemma fold_spawn_fields:
  "su_mail (fold spawn_stream ps su) = su_mail su" "su_now (fold spawn_stream ps su) = su_now su"
  "su_managers (fold spawn_stream ps su) = su_managers su"
  "su_now (fold spawn_mail qs su) = su_now su" "su_managers (fold spawn_mail qs su) = su_managers su"
  by (rule fold_same, simp add: spawn_stream_def spawn_mail_def)+

lemma spawn_first_deferred: "su_deferred (spawn_first cf su) = su_deferred su"
proof -
  have 1: "su_deferred (fold spawn_stream ps s) = su_deferred s" for ps and s :: "'a startup"
    by (rule fold_same) (simp add: spawn_stream_def)
  have 2: "su_deferred (fold spawn_mail ps s) = su_deferred s" for ps and s :: "'a startup"
    by (rule fold_same) (simp add: spawn_mail_def)
  have 3: "su_deferred (fold (spawn_now cf) ps s) = su_deferred s" for ps and s :: "'a startup"
    by (rule fold_same) (simp add: spawn_now_def split: option.split prod.split)
  have 4: "su_deferred (fold (spawn_quic cf) ps s) = su_deferred s" for ps and s :: "'a startup"
    by (rule fold_same) (simp add: spawn_quic_def split: option.split prod.split)
  show ?thesis by (simp add: spawn_first_def Let_def 1 2 3 4)
qed

text \<open>The listener as it is spawned, when it is served at once.\<close>

lemma spawn_now_does:
  assumes "(addr, p, idx) \<in> set xs" "idx < length (cf_http cf)"
  shows "did (SpawnHttp addr idx (is_tls_protocol p) (has_manager su idx)) (fold (spawn_now cf) xs su)"
proof -
  have keep: "su_managers (fold (spawn_now cf) ys s) = su_managers s" for ys and s :: "'a startup"
    by (induction ys arbitrary: s) (auto simp: spawn_now_def split: option.split prod.split)
  obtain ys zs where xs: "xs = ys @ (addr, p, idx) # zs" using assms(1) by (auto dest: split_list)
  let ?s = "fold (spawn_now cf) ys su"
  have "has_manager ?s = has_manager su" by (rule has_manager_cong) (rule keep)
  then have "did (SpawnHttp addr idx (is_tls_protocol p) (has_manager su idx)) (spawn_now cf (addr, p, idx) ?s)"
    using assms(2) by (simp add: spawn_now_def nth_opt_def)
  then show ?thesis unfolding xs by (simp add: fold_keeps spawn_keeps)
qed

lemma spawn_first_does:
  "(addr, sb) \<in> set (su_stream su) \<Longrightarrow> did (SpawnStream addr sb) (spawn_first cf su)"
  "(addr, mb) \<in> set (su_mail su) \<Longrightarrow> did (SpawnMail addr mb) (spawn_first cf su)"
  "(addr, p, idx) \<in> set (su_now su) \<Longrightarrow> idx < length (cf_http cf) \<Longrightarrow>
     did (SpawnHttp addr idx (is_tls_protocol p) (has_manager su idx)) (spawn_first cf su)"
proof -
  show "did (SpawnStream addr sb) (spawn_first cf su)" if "(addr, sb) \<in> set (su_stream su)"
    unfolding spawn_first_def Let_def
    by (rule fold_keeps, rule fold_keeps, rule fold_keeps, rule fold_did [OF that])
      (simp_all add: spawn_stream_def spawn_keeps)
  show "did (SpawnMail addr mb) (spawn_first cf su)" if "(addr, mb) \<in> set (su_mail su)"
    unfolding spawn_first_def Let_def
    by (rule fold_keeps, rule fold_keeps, rule fold_did [where x = "(addr, mb)"])
      (simp_all add: that spawn_mail_def spawn_keeps fold_spawn_fields)
  show "did (SpawnHttp addr idx (is_tls_protocol p) (has_manager su idx)) (spawn_first cf su)"
    if "(addr, p, idx) \<in> set (su_now su)" "idx < length (cf_http cf)"
  proof -
    let ?s = "fold spawn_mail (su_mail su) (fold spawn_stream (su_stream su) su)"
    have "has_manager ?s = has_manager su" by (rule has_manager_cong) (simp add: fold_spawn_fields)
    with spawn_now_does [OF that, of ?s] show ?thesis
      unfolding spawn_first_def Let_def by - (rule fold_keeps, simp_all add: fold_spawn_fields spawn_keeps)
  qed
qed

text \<open>What binding sorts the sockets into.\<close>

definition sorted_in :: "nat \<Rightarrow> listen_directive \<Rightarrow> 'c startup \<Rightarrow> bool" where
  "sorted_in idx l su \<longleftrightarrow>
     (if is_tls_protocol (ld_protocol l) \<and> has_manager su idx
      then (listen_addr l, ld_protocol l, idx) \<in> set (su_deferred su)
      else (listen_addr l, ld_protocol l, idx) \<in> set (su_now su))"

lemma bind_sorted:
  "bind_http C j l' su = (su', r) \<Longrightarrow> sorted_in idx l su \<Longrightarrow> sorted_in idx l su'"
  "bind_stream C sb su = (su', r) \<Longrightarrow> sorted_in idx l su \<Longrightarrow> sorted_in idx l su'"
  "bind_mail C mb l' su = (su', r) \<Longrightarrow> sorted_in idx l su \<Longrightarrow> sorted_in idx l su'"
  by (auto simp: bind_http_def bind_stream_def bind_mail_def sorted_in_def has_manager_def Let_def split: if_splits)

lemma bind_http_sorts:
  "bind_http C idx l su = (su', None) \<Longrightarrow> ld_protocol l \<in> {''tcp'', ''http'', ''tls'', ''https''}
     \<Longrightarrow> sorted_in idx l su'"
  by (auto simp: bind_http_def sorted_in_def has_manager_def is_tls_protocol_def Let_def split: if_splits)

lemma bind_all_sorts:
  assumes "bind_all C cf su = (su', None)" "idx < length (cf_http cf)" "l \<in> set (hb_listen (cf_http cf ! idx))"
    and "ld_protocol l \<in> {''tcp'', ''http'', ''tls'', ''https''}"
  shows "sorted_in idx l su'"
proof -
  let ?http = "\<lambda>(idx, hb). until_error (bind_http C idx) (hb_listen hb)"
  let ?mail = "\<lambda>su. case cf_mail cf of None \<Rightarrow> (su, None) | Some mb \<Rightarrow> until_error (bind_mail C mb) (ml_listen mb) su"
  obtain s1 s2 where s1: "until_error ?http (List.enumerate 0 (cf_http cf)) su = (s1, None)"
    and s2: "until_error (bind_stream C) (cf_stream cf) s1 = (s2, None)" and s3: "?mail s2 = (su', None)"
    using assms(1) unfolding bind_all_def by (auto elim!: after_cases)
  have block: "sorted_in idx l s'" if "until_error (bind_http C j) ls s = (s', r)" "sorted_in idx l s" for j ls s s' r
    by (rule until_error_inv [OF that(1), where P = "sorted_in idx l"]) (auto intro: bind_sorted that(2))
  have "(idx, cf_http cf ! idx) \<in> set (List.enumerate 0 (cf_http cf))"
    using assms(2) by (simp add: in_set_enumerate_eq)
  then have "sorted_in idx l s1"
  proof (rule until_error_all [OF s1, where P = "\<lambda>_. True"])
    fix s s' assume "?http (idx, cf_http cf ! idx) s = (s', None)"
    then have "until_error (bind_http C idx) (hb_listen (cf_http cf ! idx)) s = (s', None)" by simp
    then show "sorted_in idx l s'"
      by (rule until_error_all [OF _ assms(3), where P = "\<lambda>_. True"])
        (blast intro: bind_sorted bind_http_sorts [OF _ assms(4)])+
  qed (auto intro: block)
  then have "sorted_in idx l s2"
    by (rule until_error_inv [OF s2, where P = "sorted_in idx l"]) (rule bind_sorted)
  show ?thesis
  proof (cases "cf_mail cf")
    case (Some mb)
    with s3 have "until_error (bind_mail C mb) (ml_listen mb) s2 = (su', None)" by simp
    from until_error_inv [OF this, where P = "sorted_in idx l", OF \<open>sorted_in idx l s2\<close>] bind_sorted(3)
    show ?thesis by blast
  qed (use s3 \<open>sorted_in idx l s2\<close> in simp)
qed

text \<open>A deferred listener, until it is served.\<close>

definition pending_or_served :: "socket_addr \<Rightarrow> string \<Rightarrow> nat \<Rightarrow> 'c startup \<Rightarrow> bool" where
  "pending_or_served addr p idx su \<longleftrightarrow>
     (addr, p, idx) \<in> set (su_deferred su) \<or> did (SpawnHttp addr idx True True) su"

lemma serve_deferred_keeps: "did a su \<Longrightarrow> did a (serve_deferred cf j su)"
  by (auto simp: serve_deferred_def Let_def case_prod_beta intro!: fold_keeps)

lemma serve_deferred_quic_keeps:
  "did a su \<Longrightarrow> did a (serve_deferred_quic cf j su)"
  by (auto simp: serve_deferred_quic_def Let_def case_prod_beta intro!: fold_keeps)

lemma fold_emit_deferred:
  "su_deferred (fold (\<lambda>(addr, _, b). emit (SpawnHttp addr b True True)) ps su) = su_deferred su"
  "su_deferred (fold (\<lambda>(addr, b). emit (SpawnQuic addr b True)) qs su) = su_deferred su"
proof -
  show "su_deferred (fold (\<lambda>(addr, _, b). emit (SpawnHttp addr b True True)) ps su) = su_deferred su"
    by (induction ps arbitrary: su) (simp_all add: case_prod_beta)
  show "su_deferred (fold (\<lambda>(addr, b). emit (SpawnQuic addr b True)) qs su) = su_deferred su"
    by (induction qs arbitrary: su) (simp_all add: case_prod_beta)
qed

lemma serve_deferred_pending:
  assumes "pending_or_served addr p idx su" "idx < length (cf_http cf)"
  shows "pending_or_served addr p idx (serve_deferred cf j su)
    \<and> (j = idx \<longrightarrow> did (SpawnHttp addr idx True True) (serve_deferred cf j su))"
proof (cases "did (SpawnHttp addr idx True True) su")
  case True
  then show ?thesis using serve_deferred_keeps by (auto simp: pending_or_served_def)
next
  case False
  then have d: "(addr, p, idx) \<in> set (su_deferred su)" using assms(1) by (simp add: pending_or_served_def)
  show ?thesis
  proof (cases "j = idx")
    case True
    let ?su = "su \<lparr>su_deferred := filter (\<lambda>(_, _, b). b \<noteq> idx) (su_deferred su)\<rparr>"
    have "(addr, p, idx) \<in> set (filter (\<lambda>(_, _, b). b = idx) (su_deferred su))" using d by simp
    then have "did (SpawnHttp addr idx True True)
        (fold (\<lambda>(addr, _, b). emit (SpawnHttp addr b True True)) (filter (\<lambda>(_, _, b). b = idx) (su_deferred su)) ?su)"
      by (rule fold_did) (auto simp: case_prod_beta)
    then show ?thesis using True assms(2)
      by (simp add: serve_deferred_def nth_opt_def Let_def pending_or_served_def)
  next
    case False
    with d show ?thesis by (simp add: serve_deferred_def Let_def pending_or_served_def fold_emit_deferred)
  qed
qed

lemma issue_block_pending:
  assumes "issue_block X C cf q su = (su', r)" "pending_or_served addr p idx su" "idx < length (cf_http cf)"
  shows "pending_or_served addr p idx su' \<and> (r = None \<and> fst q = idx \<longrightarrow> did (SpawnHttp addr idx True True) su')"
proof -
  obtain j m where q: "q = (j, m)" by (cases q)
  obtain m' d' waits res where e: "ensure_cert X (rn_rustls C) (rn_ca C j) (m, su_disk su) = ((m', d'), waits, res)"
    by (metis prod.exhaust)
  show ?thesis
  proof (cases res)
    case (Inl err)
    with assms q e show ?thesis by (auto simp: issue_block_def pending_or_served_def)
  next
    case (Inr u)
    let ?su = "emit (Issued j) (su \<lparr>su_disk := d', su_managers := AList.update j m' (su_managers su)\<rparr>)"
    let ?s1 = "serve_deferred cf j ?su"
    have "pending_or_served addr p idx ?su" using assms(2) by (auto simp: pending_or_served_def)
    note s1 = serve_deferred_pending [OF this assms(3), of j]
    have "su_deferred (serve_deferred_quic cf j ?s1) = su_deferred ?s1"
      by (simp add: serve_deferred_quic_def Let_def fold_emit_deferred)
    then have "pending_or_served addr p idx (serve_deferred_quic cf j ?s1)"
      using s1 serve_deferred_quic_keeps by (auto simp: pending_or_served_def)
    moreover have "su' = emit (SpawnRenewal j) (serve_deferred_quic cf j ?s1)"
      using assms(1) q e Inr by (simp add: issue_block_def Let_def)
    ultimately show ?thesis using s1 serve_deferred_quic_keeps q by (auto simp: pending_or_served_def)
  qed
qed

lemma bind_all_others:
  assumes "bind_all C cf su = (su', None)"
  shows "sb \<in> set (cf_stream cf) \<longrightarrow> (listen_addr (st_listen sb), sb) \<in> set (su_stream su')"
    and "cf_mail cf = Some mb \<and> l \<in> set (ml_listen mb) \<longrightarrow> (listen_addr l, mb) \<in> set (su_mail su')"
proof -
  let ?http = "\<lambda>(idx, hb). until_error (bind_http C idx) (hb_listen hb)"
  let ?mail = "\<lambda>su. case cf_mail cf of None \<Rightarrow> (su, None) | Some mb \<Rightarrow> until_error (bind_mail C mb) (ml_listen mb) su"
  obtain s1 s2 where s2: "until_error (bind_stream C) (cf_stream cf) s1 = (s2, None)" and s3: "?mail s2 = (su', None)"
    using assms unfolding bind_all_def by (auto elim!: after_cases)
  have "x \<in> set (su_stream su')" if "x \<in> set (su_stream s2)" for x
  proof (cases "cf_mail cf")
    case (Some mb)
    with s3 have "until_error (bind_mail C mb) (ml_listen mb) s2 = (su', None)" by simp
    then show ?thesis
      by (rule until_error_inv [where P = "\<lambda>s. x \<in> set (su_stream s)"])
        (use that in \<open>auto simp: bind_mail_def Let_def split: if_splits\<close>)
  qed (use s3 that in simp)
  moreover have "(listen_addr (st_listen sb), sb) \<in> set (su_stream s2)" if "sb \<in> set (cf_stream cf)"
    by (rule until_error_all [OF s2 that, where P = "\<lambda>_. True"])
      (auto simp: bind_stream_def Let_def split: if_splits)
  ultimately show "sb \<in> set (cf_stream cf) \<longrightarrow> (listen_addr (st_listen sb), sb) \<in> set (su_stream su')" by simp
  have "(listen_addr l, mb) \<in> set (su_mail su')" if "cf_mail cf = Some mb" "l \<in> set (ml_listen mb)"
  proof -
    from s3 that(1) have "until_error (bind_mail C mb) (ml_listen mb) s2 = (su', None)" by simp
    then show ?thesis
      by (rule until_error_all [OF _ that(2), where P = "\<lambda>_. True"])
        (auto simp: bind_mail_def Let_def split: if_splits)
  qed
  then show "cf_mail cf = Some mb \<and> l \<in> set (ml_listen mb) \<longrightarrow> (listen_addr l, mb) \<in> set (su_mail su')" by simp
qed

text \<open>
  C23. A server that comes up serves everything it was asked to: every HTTP and HTTPS listener of every
  block, the latter as TLS and with the block's ACME manager where there is one, every stream and every
  mail listener; the signal handler is started last. The hash map of the managers is walked in some
  order, each entry once.
\<close>

theorem startup_serves_all:
  assumes "run X C cf creds d = (su, None)" "\<forall>ms. set (rn_order C ms) = set ms"
  shows "(\<forall>idx<length (cf_http cf). \<forall>l\<in>set (hb_listen (cf_http cf ! idx)).
        ld_protocol l \<in> {''tcp'', ''http'', ''tls'', ''https''} \<longrightarrow>
        SpawnHttp (listen_addr l) idx (is_tls_protocol (ld_protocol l))
          (has_manager (run_start cf creds d :: 'c startup) idx) \<in> set (su_trace (su :: 'c startup)))
    \<and> (\<forall>sb\<in>set (cf_stream cf). SpawnStream (listen_addr (st_listen sb)) sb \<in> set (su_trace su))
    \<and> (\<forall>mb. cf_mail cf = Some mb \<longrightarrow>
         (\<forall>l\<in>set (ml_listen mb). SpawnMail (listen_addr l) mb \<in> set (su_trace su)))
    \<and> last (su_trace su) = SpawnSignals"
proof -
  let ?su0 = "run_start cf creds d :: 'c startup"
  obtain s1 s2 s3 where s1: "bind_all C cf ?su0 = (s1, None)" and s2: "drop_step C cf s1 = (s2, None)"
    and s3: "until_error (issue_block X C cf) (rn_order C (su_managers s2)) (spawn_first cf s2) = (s3, None)"
    and su: "su = emit SpawnSignals s3"
    using assms(1) by (auto simp: run_def elim!: after_cases)
  have b1: "binding ?su0 s1" by (rule bind_all_binding [OF run_start_binding s1])
  note drop = drop_step_ok [OF s2]
  have man: "has_manager s1 = has_manager ?su0" "has_manager s2 = has_manager ?su0"
    using b1 drop by (auto intro!: has_manager_cong simp: binding_def)
  have keep: "did a su" if "did a (spawn_first cf s2)" for a
    using until_error_inv [OF s3, where P = "did a", OF that] issue_block_keeps su by (metis UnI1 emit_fields(1) set_append)
  have others: "su_stream s2 = su_stream s1" "su_mail s2 = su_mail s1"
    using s2 by (auto simp: drop_step_def split: option.splits prod.splits sum.splits)
  have "SpawnHttp (listen_addr l) idx (is_tls_protocol (ld_protocol l)) (has_manager ?su0 idx) \<in> set (su_trace su)"
    if l: "idx < length (cf_http cf)" "l \<in> set (hb_listen (cf_http cf ! idx))"
      "ld_protocol l \<in> {''tcp'', ''http'', ''tls'', ''https''}" for idx l
  proof (cases "is_tls_protocol (ld_protocol l) \<and> has_manager s1 idx")
    case False
    with bind_all_sorts [OF s1 l] drop have "(listen_addr l, ld_protocol l, idx) \<in> set (su_now s2)"
      by (simp add: sorted_in_def)
    from keep [OF spawn_first_does(3) [OF this l(1)]] man show ?thesis by simp
  next
    case True
    let ?pending = "pending_or_served (listen_addr l) (ld_protocol l) idx"
    have "(listen_addr l, ld_protocol l, idx) \<in> set (su_deferred s1)"
      using bind_all_sorts [OF s1 l] True by (simp add: sorted_in_def)
    moreover have "su_deferred (spawn_first cf s2) = su_deferred s1"
      using drop by (simp add: spawn_first_deferred)
    ultimately have pend: "?pending (spawn_first cf s2)" by (simp add: pending_or_served_def)
    from True man have "has_manager s2 idx" by simp
    then obtain m where m: "(idx, m) \<in> set (rn_order C (su_managers s2))"
      using assms(2) by (auto simp: has_manager_def)
    have "did (SpawnHttp (listen_addr l) idx True True) s3"
    proof (rule until_error_all [OF s3 m, where P = ?pending, OF pend])
      show "?pending s'" if "?pending s" "issue_block X C cf q s = (s', r)" for q s s' r
        using issue_block_pending [OF that(2,1) l(1)] by simp
      show "did (SpawnHttp (listen_addr l) idx True True) s'"
        if "?pending s" "issue_block X C cf (idx, m) s = (s', None)" for s s'
        using issue_block_pending [OF that(2,1) l(1)] by simp
    qed (rule issue_block_keeps)
    with su True man show ?thesis by simp
  qed
  moreover have "SpawnStream (listen_addr (st_listen sb)) sb \<in> set (su_trace su)" if "sb \<in> set (cf_stream cf)" for sb
    using keep [OF spawn_first_does(1)] bind_all_others(1) [OF s1] others that by metis
  moreover have "SpawnMail (listen_addr l) mb \<in> set (su_trace su)"
    if "cf_mail cf = Some mb" "l \<in> set (ml_listen mb)" for mb l
    using keep [OF spawn_first_does(2)] bind_all_others(2) [OF s1] others that by metis
  ultimately show ?thesis using su by simp
qed

section \<open>An example\<close>

text \<open>A block with a plain and a TLS listener, ACME with a certificate on disk, and a user to drop to.\<close>

definition acme_block :: http_block where
  "acme_block = default_http_block [\<lparr>ld_port = 80, ld_protocol = ''http'', ld_address = None\<rparr>,
       \<lparr>ld_port = 443, ld_protocol = ''https'', ld_address = None\<rparr>]
     \<lparr>hb_ssl := Some \<lparr>ssl_certificate = None, ssl_certificate_key = None,
        ssl_acme = Some (default_acme \<lparr>ac_enabled := True\<rparr>), ssl_protocols = default_tls_protocols\<rparr>\<rparr>"

definition acme_site :: config where
  "acme_site = (plain_config acme_block)
     \<lparr>cf_global := (cf_global (plain_config acme_block)) \<lparr>gl_user := Some ''www''\<rparr>\<rparr>"

definition full_disk :: disk where
  "full_disk = sample_disk \<lparr>dk_files := (\<lambda>_. Some (''pem'', 384)), dk_read_ok := (\<lambda>_. True)\<rparr>"

definition sample_run_calls :: "nat run_calls" where
  "sample_run_calls =
     \<lparr>rn_bind = (\<lambda>_ _. True), rn_posix = sample_posix, rn_order = (\<lambda>ms. ms), rn_rustls = sample_rustls,
      rn_ca = (\<lambda>_. sample_ca)\<rparr>"

definition root_creds :: creds where
  "root_creds = \<lparr>cr_ruid = 0, cr_euid = 0, cr_suid = 0, cr_gid = 0, cr_groups = [0]\<rparr>"

lemma full_disk_usable: "has_usable_cert sample_rustls m full_disk"
  by (simp add: has_usable_cert_def load_certified_key_def load_certificate_def load_private_key_def
      sample_rustls_def full_disk_def fs_read_def list_first_def)

lemma acme_block_fields:
  "hb_listen acme_block = [\<lparr>ld_port = 80, ld_protocol = ''http'', ld_address = None\<rparr>,
     \<lparr>ld_port = 443, ld_protocol = ''https'', ld_address = None\<rparr>]"
  "hb_ssl acme_block = Some \<lparr>ssl_certificate = None, ssl_certificate_key = None,
     ssl_acme = Some (default_acme \<lparr>ac_enabled := True\<rparr>), ssl_protocols = default_tls_protocols\<rparr>"
  "hb_http3 acme_block = False"
  by (simp_all add: acme_block_def default_http_block_def)

lemma acme_site_fields:
  "cf_http acme_site = [acme_block]" "cf_stream acme_site = []" "cf_mail acme_site = None"
  "gl_user (cf_global acme_site) = Some ''www''" "gl_pid_file (cf_global acme_site) = None"
  by (simp_all add: acme_site_def plain_config_def)

lemma sample_drop:
  "\<exists>c. drop_privileges sample_posix root_creds ''www'' = (c, Inr ())"
  by (simp add: drop_privileges_def sample_posix_def root_creds_def)

abbreviation any_addr :: "u16 \<Rightarrow> socket_addr" where
  "any_addr port \<equiv> (V4 (Ipv4 0 0 0 0), port)"

lemma sample_managers:
  "managers_of acme_site = [(0, acme_manager_new (default_acme \<lparr>ac_enabled := True\<rparr>) (hb_server_name acme_block))]"
  by (simp add: managers_of_def acme_site_fields acme_block_fields map_filter_simps)

lemma sample_run:
  "\<exists>su. run sample_ext sample_run_calls acme_site root_creds full_disk = (su, None)
     \<and> su_trace su = [BindTcp (any_addr 80), BindTcp (any_addr 443), DropPrivileges ''www'',
          SpawnHttp (any_addr 80) 0 False True, Issued 0, SpawnHttp (any_addr 443) 0 True True,
          SpawnRenewal 0, SpawnSignals]"
proof -
  obtain c where c: "drop_privileges sample_posix root_creds ''www'' = (c, Inr ())" using sample_drop by blast
  show ?thesis
    by (simp add: run_def after_def bind_all_def run_start_def acme_site_fields acme_block_fields sample_managers
        bind_http_def has_manager_def Let_def listen_addr_def emit_def drop_step_def c sample_run_calls_def
        spawn_first_def spawn_now_def nth_opt_def is_tls_protocol_def issue_block_def ensure_cert_def
        full_disk_usable serve_deferred_def serve_deferred_quic_def)
qed

theorem startup_order_witness:
  "\<exists>su :: nat startup. run sample_ext sample_run_calls acme_site root_creds full_disk = (su, None)
     \<and> issued_first {0} (su_trace su) \<and> cr_euid (su_creds su) = 33"
proof -
  obtain su where su: "run sample_ext sample_run_calls acme_site root_creds full_disk = (su, None)"
    using sample_run by blast
  have M: "{0} = {i. has_manager (run_start acme_site root_creds full_disk :: nat startup) i}"
    by (auto simp: has_manager_def run_start_def sample_managers)
  have "cr_euid c = 33" if "drop_privileges sample_posix root_creds ''www'' = (c, Inr ())" for c
    using that by (auto simp: drop_privileges_def sample_posix_def root_creds_def)
  moreover have "rn_posix sample_run_calls = sample_posix" by (simp add: sample_run_calls_def)
  ultimately show ?thesis using startup_order [OF su M] su by (auto simp: acme_site_fields)
qed

theorem startup_serves_all_witness:
  "\<exists>su :: nat startup. run sample_ext sample_run_calls acme_site root_creds full_disk = (su, None)
     \<and> SpawnHttp (any_addr 443) 0 True True \<in> set (su_trace su)"
proof -
  obtain su where su: "run sample_ext sample_run_calls acme_site root_creds full_disk = (su, None)"
    using sample_run by blast
  have "\<forall>ms. set (rn_order sample_run_calls ms) = set ms" by (simp add: sample_run_calls_def)
  from startup_serves_all [OF su this] su show ?thesis
    by (auto simp: acme_site_fields acme_block_fields is_tls_protocol_def listen_addr_def has_manager_def
        run_start_def sample_managers)
qed

end
