(* ===== verification/Server_Boot.thy ===== *)
theory Server_Boot
  imports Server_Delivery Server_Run
begin

text \<open>
  A run of the whole server: \<^verbatim>\<open>Server::run\<close> does its actions one after the other, and the tasks it has
  spawned so far do their work in between. The lemmas carry the invariants of the running server over the
  startup, so that they hold from the first task on.
\<close>

section \<open>Startup and work interleaved\<close>

text \<open>
  What an action of \<^verbatim>\<open>run\<close> does to the tasks. A loop subscribes to the channels and starts with the block and
  the timeouts of the snapshot that \<^verbatim>\<open>run\<close> took, in the surroundings it finds; one whose start fails is gone.
  An issuance leaves some disk behind; the other actions start no task.
\<close>

definition spawn_http ::
  "ext \<Rightarrow> surroundings \<Rightarrow> config \<Rightarrow> nat \<Rightarrow> bool \<Rightarrow> 'c acme_manager option \<Rightarrow> 'c live \<Rightarrow> 'c live" where
  "spawn_http X W cf idx is_tls acme s =
     (case Option.bind (nth_opt (cf_http cf) idx)
             (\<lambda>hb. accept_start X W hb idx is_tls acme (timeouts_of cf)) of
        None \<Rightarrow> s
      | Some ln \<Rightarrow>
          s \<lparr>lv_server := (lv_server s) \<lparr>sv_listeners := sv_listeners (lv_server s) @ [ln]\<rparr>,
             lv_boxes := lv_boxes s @ [subscribed]\<rparr>)"

definition spawn_udp ::
  "ext \<Rightarrow> surroundings \<Rightarrow> quic_calls \<Rightarrow> config \<Rightarrow> nat \<Rightarrow> 'c acme_manager option \<Rightarrow> 'c live \<Rightarrow> 'c live" where
  "spawn_udp X W Q cf idx acme s =
     (case nth_opt (cf_http cf) idx of
        None \<Rightarrow> s
      | Some hb \<Rightarrow>
          (case quic_start X W Q hb idx acme (timeouts_of cf) of
             Ok ql \<Rightarrow>
               s \<lparr>lv_server := (lv_server s) \<lparr>sv_quic := sv_quic (lv_server s) @ [ql]\<rparr>,
                  lv_quic_boxes := lv_quic_boxes s @ [subscribed]\<rparr>
           | _ \<Rightarrow> s))"

definition spawn_task ::
  "ext \<Rightarrow> surroundings \<Rightarrow> quic_calls \<Rightarrow> disk \<Rightarrow> config \<Rightarrow> (nat \<rightharpoonup> 'c acme_manager) \<Rightarrow> action
   \<Rightarrow> 'c live \<Rightarrow> 'c live" where
  "spawn_task X W Q d cf managers a s =
     (case a of
        SpawnStream _ sb \<Rightarrow> s \<lparr>lv_streams := lv_streams s @ [(stream_start sb, 0)]\<rparr>
      | SpawnMail _ mb \<Rightarrow> s \<lparr>lv_mails := lv_mails s @ [(mb, True, 0)]\<rparr>
      | SpawnHttp _ idx is_tls acme \<Rightarrow>
          spawn_http X W cf idx is_tls (if acme then managers idx else None) s
      | SpawnQuic _ idx acme \<Rightarrow> spawn_udp X W Q cf idx (if acme then managers idx else None) s
      | Issued _ \<Rightarrow> s \<lparr>lv_disk := d\<rparr>
      | SpawnRenewal idx \<Rightarrow>
          (case managers idx of
             None \<Rightarrow> s
           | Some m \<Rightarrow>
               s \<lparr>lv_renewals := lv_renewals s @
                    [\<lparr>rw_manager = m, rw_shutdown = 0, rw_busy = False, rw_running = True\<rparr>]\<rparr>)
      | SpawnSignals \<Rightarrow> s \<lparr>lv_handler := Registering\<rparr>
      | _ \<Rightarrow> s)"

text \<open>The states of a run that has done its first so many actions.\<close>

inductive execution ::
  "ext \<Rightarrow> (nat \<Rightarrow> nat) \<Rightarrow> config \<Rightarrow> 'c startup \<Rightarrow> nat \<Rightarrow> 'c live \<Rightarrow> bool" for X rest cf su where
  created: "execution X rest cf su 0 (live_start cf d)"
| acted:
    "execution X rest cf su k s \<Longrightarrow> k < length (su_trace su) \<Longrightarrow>
     execution X rest cf su (Suc k) (spawn_task X W Q d cf (map_of (su_managers su)) (su_trace su ! k) s)"
| worked: "execution X rest cf su k s \<Longrightarrow> live_step X rest s s' \<Longrightarrow> execution X rest cf su k s'"

lemma execution_works:
  "live_reachable X rest s s' \<Longrightarrow> execution X rest cf su k s \<Longrightarrow> execution X rest cf su k s'"
  by (induction rule: rtranclp_induct) (blast intro: worked)+

text \<open>A startup that nothing interrupts.\<close>

lemma execution_undisturbed:
  assumes "tr = su_trace su"
  shows "execution X rest cf su (length tr) (fold (spawn_task X W Q d cf (map_of (su_managers su))) tr (live_start cf d))"
proof -
  have "k \<le> length tr \<Longrightarrow>
      execution X rest cf su k (fold (spawn_task X W Q d cf (map_of (su_managers su))) (take k tr) (live_start cf d))" for k
  proof (induction k)
    case (Suc k)
    then show ?case using acted [of X rest cf su k _ W Q d] assms by (simp add: take_Suc_conv_app_nth)
  qed (simp add: created)
  from this [of "length tr"] show ?thesis by simp
qed

text \<open>Case analysis of a spawn: a listener is added, or the listeners stay as they are.\<close>

lemma spawn_task_cases [consumes 1, case_names http quic other]:
  assumes "s' = spawn_task X W Q d cf M a s"
  obtains W hb idx tls acme ln where
    "nth_opt (cf_http cf) idx = Some hb" "accept_start X W hb idx tls acme (timeouts_of cf) = Some ln"
    "s' = s \<lparr>lv_server := (lv_server s) \<lparr>sv_listeners := sv_listeners (lv_server s) @ [ln]\<rparr>,
             lv_boxes := lv_boxes s @ [subscribed]\<rparr>" "\<exists>addr b. a = SpawnHttp addr idx tls b"
  | W Q hb idx acme ql where
    "nth_opt (cf_http cf) idx = Some hb" "quic_start X W Q hb idx acme (timeouts_of cf) = Ok ql"
    "s' = s \<lparr>lv_server := (lv_server s) \<lparr>sv_quic := sv_quic (lv_server s) @ [ql]\<rparr>,
             lv_quic_boxes := lv_quic_boxes s @ [subscribed]\<rparr>" "\<exists>addr b. a = SpawnQuic addr idx b"
  | "lv_server s' = lv_server s" "lv_boxes s' = lv_boxes s" "lv_quic_boxes s' = lv_quic_boxes s"
    "lv_config s' = lv_config s" "lv_handler s' = (if a = SpawnSignals then Registering else lv_handler s)"
proof (cases a)
  case (SpawnHttp addr idx tls b)
  show ?thesis
  proof (cases "Option.bind (nth_opt (cf_http cf) idx)
      (\<lambda>hb. accept_start X W hb idx tls (if b then M idx else None) (timeouts_of cf))")
    case None
    with SpawnHttp assms that(3) show ?thesis by (simp add: spawn_task_def spawn_http_def)
  next
    case (Some ln)
    then obtain hb where "nth_opt (cf_http cf) idx = Some hb"
      "accept_start X W hb idx tls (if b then M idx else None) (timeouts_of cf) = Some ln"
      by (auto simp: bind_eq_Some_conv)
    from that(1) [OF this] SpawnHttp Some assms show ?thesis by (simp add: spawn_task_def spawn_http_def)
  qed
next
  case (SpawnQuic addr idx b)
  show ?thesis
  proof (cases "nth_opt (cf_http cf) idx")
    case None
    with SpawnQuic assms that(3) show ?thesis by (simp add: spawn_task_def spawn_udp_def)
  next
    case (Some hb)
    with SpawnQuic assms that(2) [OF Some] that(3) show ?thesis
      by (cases "quic_start X W Q hb idx (if b then M idx else None) (timeouts_of cf)")
        (auto simp: spawn_task_def spawn_udp_def)
  qed
qed (use assms that(3) in \<open>auto simp: spawn_task_def split: option.splits\<close>)

section \<open>The order of a run\<close>

lemma run_signals_last:
  assumes "run X C cf creds d = (su, err)" "k < length (su_trace su)"
  shows "SpawnSignals \<notin> set (take k (su_trace su))"
proof -
  have no: "SpawnSignals \<notin> set tr" if "list_all is_setup tr \<or> list_all is_service tr" for tr
    using that by (auto simp: list_all_iff)
  have "\<exists>tr. SpawnSignals \<notin> set tr \<and> (su_trace su = tr \<or> su_trace su = tr @ [SpawnSignals])"
  proof (cases "list_all is_setup (su_trace su)")
    case False
    with run_order [OF assms(1) refl] obtain pre rest where
      "su_trace su = pre @ drop_mark cf @ rest @ (if err = None then [SpawnSignals] else [])"
      "list_all is_setup pre" "list_all is_service rest" by blast
    moreover have "SpawnSignals \<notin> set (drop_mark cf)" by (simp add: drop_mark_def split: option.split)
    ultimately show ?thesis using no by (intro exI [of _ "pre @ drop_mark cf @ rest"]) auto
  qed (use no in blast)
  with assms(2) show ?thesis by (auto dest: in_set_takeD)
qed

lemma run_serves_dropped:
  assumes "run X C cf creds d = (su, err)" "j < length (su_trace su)" "is_service (su_trace su ! j)"
    and "gl_user (cf_global cf) = Some user"
  shows "drop_privileges (rn_posix C) creds user = (su_creds su, Inr ())
    \<and> DropPrivileges user \<in> set (take j (su_trace su))"
proof -
  have "\<not> list_all is_setup (su_trace su)"
  proof
    assume "list_all is_setup (su_trace su)"
    then have "is_setup (su_trace su ! j)" using assms(2) by (simp add: list_all_length)
    with assms(3) show False by (cases "su_trace su ! j") simp_all
  qed
  with run_order [OF assms(1) refl] assms(4) obtain pre rest where
    tr: "su_trace su = (pre @ drop_mark cf) @ rest @ (if err = None then [SpawnSignals] else [])"
      "list_all is_setup pre" "drop_privileges (rn_posix C) creds user = (su_creds su, Inr ())"
    by auto
  have "length (pre @ drop_mark cf) \<le> j"
  proof (rule ccontr)
    assume "\<not> ?thesis"
    then have "j < length (pre @ drop_mark cf)" by simp
    then have "su_trace su ! j \<in> set (pre @ drop_mark cf)"
      using nth_mem [of j "pre @ drop_mark cf"] unfolding tr(1) by (metis nth_append)
    with assms(3) tr(2) show False
      by (cases "su_trace su ! j") (auto simp: list_all_iff drop_mark_def split: option.splits)
  qed
  then have "take j (su_trace su) = (pre @ drop_mark cf)
      @ take (j - length (pre @ drop_mark cf)) (rest @ (if err = None then [SpawnSignals] else []))"
    by (simp add: tr(1))
  then show ?thesis using tr(3) assms(4) by (simp add: drop_mark_def)
qed

section \<open>Invariants from the start\<close>

lemma execution_before_signals:
  assumes "execution X rest cf su k s" "SpawnSignals \<notin> set (take k (su_trace su))"
  shows "lv_config s = cf \<and> lv_handler s = Deaf"
  using assms
proof (induction rule: execution.induct)
  case (created d)
  show ?case by (simp add: live_start_def)
next
  case (acted k s W Q d)
  then have "lv_config s = cf" "lv_handler s = Deaf" "su_trace su ! k \<noteq> SpawnSignals"
    by (auto simp: take_Suc_conv_app_nth)
  moreover have "spawn_task X W Q d cf (map_of (su_managers su)) (su_trace su ! k) s
      = spawn_task X W Q d cf (map_of (su_managers su)) (su_trace su ! k) s" ..
  then show ?case by (cases rule: spawn_task_cases) (use calculation in auto)
next
  case (worked k s s')
  then have s: "lv_config s = cf" "lv_handler s = Deaf" by simp_all
  from worked(2) show ?case
  proof cases
    case delivery
    then show ?thesis by cases (use s in \<open>auto simp: send_reload_def\<close>)
  qed (use s in \<open>auto simp: send_reload_def send_shutdown_def\<close>)
qed

text \<open>Listeners as \<^verbatim>\<open>run\<close> starts them from its snapshot of the configuration.\<close>

lemma accept_start_fresh:
  assumes "nth_opt (cf_http cf) idx = Some hb" "accept_start X W hb idx tls acme (timeouts_of cf) = Some ln"
  shows "ln_fresh X cf ln"
  using assms by (auto simp: ln_fresh_def accept_start_def current_def split: option.splits)

lemma quic_start_fresh:
  assumes "nth_opt (cf_http cf) idx = Some hb" "quic_start X W Q hb idx acme (timeouts_of cf) = Ok ql"
  shows "ql_fresh X cf ql"
proof -
  from assms(2) have "ql_idx ql = idx" "ql_block ql = hb"
    by (auto simp: quic_start_def split: option.splits sum.splits if_splits)
  with quic_start_handlers [OF assms(2)] assms(1) show ?thesis by (auto simp: ql_fresh_def)
qed

lemma live_start_inv: "reload_inv X (live_start cf d)"
  by (simp add: reload_inv_def boxes_ok_def all_owe_def live_start_def server_init_def)

lemma nth_both_append:
  assumes "\<forall>k<length xs. P (xs ! k) (ys ! k)" "length ys = length xs" "P x y"
  shows "\<forall>k<Suc (length xs). P ((xs @ [x]) ! k) ((ys @ [y]) ! k)"
  using assms by (auto simp: nth_append less_Suc_eq)

lemma spawn_task_inv:
  assumes "reload_inv X s" "lv_config s = cf" "lv_handler s = Deaf"
  shows "reload_inv X (spawn_task X W Q d cf M a s)"
proof -
  have s: "boxes_ok s" "all_owe X s" using assms(1,3) by (auto simp: reload_inv_def)
  have "spawn_task X W Q d cf M a s = spawn_task X W Q d cf M a s" ..
  then show ?thesis
  proof (cases rule: spawn_task_cases)
    case (http W hb idx tls acme ln)
    then have "owes ln_running (ln_fresh X (lv_config s)) ln subscribed"
      using accept_start_fresh [OF http(1,2)] assms(2) by (simp add: owes_def)
    with s nth_both_append [of "sv_listeners (lv_server s)" "owes ln_running (ln_fresh X (lv_config s))" "lv_boxes s"]
    show ?thesis unfolding http(3) by (simp add: reload_inv_def boxes_ok_def all_owe_def)
  next
    case (quic W Q hb idx acme ql)
    then have "owes ql_running (ql_fresh X (lv_config s)) ql subscribed"
      using quic_start_fresh [OF quic(1,2)] assms(2) by (simp add: owes_def)
    with s nth_both_append [of "sv_quic (lv_server s)" "owes ql_running (ql_fresh X (lv_config s))" "lv_quic_boxes s"]
    show ?thesis unfolding quic(3) by (simp add: reload_inv_def boxes_ok_def all_owe_def)
  next
    case other
    with s show ?thesis by (simp add: reload_inv_def boxes_ok_def all_owe_def)
  qed
qed

lemma execution_reload_inv:
  assumes "execution X rest cf su k s" "run X' C cf creds d0 = (su, err)"
  shows "reload_inv X s"
  using assms(1)
proof (induction rule: execution.induct)
  case (acted k s W Q d)
  from execution_before_signals [OF acted(1) run_signals_last [OF assms(2) acted(2)]] acted(3)
  show ?case by (simp add: spawn_task_inv)
qed (blast intro: live_start_inv live_step_reload_inv)+

end
