(* ===== verification/Server_Reload.thy ===== *)
theory Server_Reload
  imports Server_Boot
begin

text \<open>
  What comes of reloads, shutdowns and renewals in the running server, and that its tasks together are an
  instance of the server of listeners and connections.
\<close>

section \<open>Reloads\<close>

lemma settled_handler: "settled X rest s \<Longrightarrow> lv_handler s \<noteq> Swapped \<and> lv_handler s \<noteq> Loaded cf"
  unfolding settled_def using deliver.announce [of s X rest] deliver.swap [of s cf X rest] by blast

lemma loaded_takes_over:
  assumes "(deliver X rest)\<^sup>*\<^sup>* s s'" "lv_handler s = Loaded cf" "settled X rest s'"
  shows "lv_config s' = cf"
proof -
  from assms(1) have "lv_handler s' = Loaded cf \<or> lv_config s' = cf \<and> (\<forall>c. lv_handler s' \<noteq> Loaded c)"
  proof (induction rule: rtranclp_induct)
    case (step y z)
    from step(2) show ?case
      by cases (use step(3) in \<open>auto simp: send_reload_def\<close>)
  qed (simp add: assms(2))
  with settled_handler [OF assms(3), of cf] show ?thesis by blast
qed

lemma settled_fresh:
  assumes "reload_inv X s" "settled X rest s"
  shows "\<forall>ln\<in>set (sv_listeners (lv_server s)). ln_running ln \<longrightarrow> ln_fresh X (lv_config s) ln"
    and "\<forall>ql\<in>set (sv_quic (lv_server s)). ql_running ql \<longrightarrow> ql_fresh X (lv_config s) ql"
proof -
  have inv: "boxes_ok s" "all_owe X s"
    using assms(1) settled_handler [OF assms(2)] by (auto simp: reload_inv_def)
  show "\<forall>ln\<in>set (sv_listeners (lv_server s)). ln_running ln \<longrightarrow> ln_fresh X (lv_config s) ln"
    using inv(2) settled_tcp [OF assms(2) inv(1)] by (auto simp: all_owe_def owes_def in_set_conv_nth)
  show "\<forall>ql\<in>set (sv_quic (lv_server s)). ql_running ql \<longrightarrow> ql_fresh X (lv_config s) ql"
    using inv(2) settled_quic [OF assms(2) inv(1)] by (auto simp: all_owe_def owes_def in_set_conv_nth)
qed

text \<open>
  C8. A reload reaches every listener of a run, at any time during and after startup, however the signal
  handler, the loops, connections and renewals interleave. Taking the messages comes to an end; a configuration that was loaded is then the one in
  force; and then each HTTP and QUIC listener that still runs has the block and the timeouts that the
  configuration in force has at its index, and serves new connections with a service built from them.
\<close>

theorem reload_reaches_all:
  assumes "\<forall>n>0. rest n < n"
    and "run X' C cf creds d = (su, err)" "execution X rest cf su k s"
  shows "wf {(s', s). deliver X rest s s'}
    \<and> (\<forall>s' cf'. lv_handler s = Loaded cf' \<and> (deliver X rest)\<^sup>*\<^sup>* s s' \<and> settled X rest s' \<longrightarrow> lv_config s' = cf')
    \<and> (settled X rest s \<longrightarrow>
        (\<forall>ln\<in>set (sv_listeners (lv_server s)). \<forall>hb. ln_running ln \<and> nth_opt (cf_http (lv_config s)) (ln_idx ln) = Some hb \<longrightarrow>
           ln_block ln = hb \<and> ln_timeouts ln = timeouts_of (lv_config s)
           \<and> serves X (ln_tls ln) hb (timeouts_of (lv_config s)) (ln_handlers ln ! (length (ln_handlers ln) - 1)))
        \<and> (\<forall>ql\<in>set (sv_quic (lv_server s)). \<forall>hb. ql_running ql \<and> nth_opt (cf_http (lv_config s)) (ql_idx ql) = Some hb \<longrightarrow>
           ql_block ql = hb
           \<and> serves X True hb (timeouts_of (lv_config s)) (ql_handlers ql ! (length (ql_handlers ql) - 1))))"
    (is "_ \<and> _ \<and> (_ \<longrightarrow> ?tcp \<and> ?udp)")
proof (intro conjI)
  show "wf {(s', s). deliver X rest s s'}" by (rule deliveries_end [OF assms(1)])
  show "\<forall>s' cf'. lv_handler s = Loaded cf' \<and> (deliver X rest)\<^sup>*\<^sup>* s s' \<and> settled X rest s' \<longrightarrow> lv_config s' = cf'"
    using loaded_takes_over by blast
next
  have fresh: "\<forall>ln\<in>set (sv_listeners (lv_server s)). ln_running ln \<longrightarrow> ln_fresh X (lv_config s) ln"
    "\<forall>ql\<in>set (sv_quic (lv_server s)). ql_running ql \<longrightarrow> ql_fresh X (lv_config s) ql"
    if "settled X rest s"
    using settled_fresh [OF execution_reload_inv [OF assms(3,2)] that] by blast+
  show "settled X rest s \<longrightarrow> ?tcp \<and> ?udp"
  proof (intro impI conjI)
    assume st: "settled X rest s"
    from fresh(1) [OF st] show ?tcp by (fastforce simp: ln_fresh_def current_def)
    from fresh(2) [OF st] show ?udp by (simp add: ql_fresh_def)
  qed
qed

section \<open>Shutdown\<close>

lemma settled_returned:
  assumes "settled X rest s" "told_inv s"
  shows "run_returned s"
proof -
  have no: "\<not> deliver X rest s t" for t using assms(1) by (simp add: settled_def)
  have ok: "boxes_ok s" using assms(2) by (simp add: told_inv_def)
  have "\<not> ln_running ln" if "ln \<in> set (sv_listeners (lv_server s))" for ln
    using that assms(2) settled_tcp [OF assms(1) ok] by (auto simp: told_inv_def told_def in_set_conv_nth)
  moreover have "\<not> ql_running ql" if "ql \<in> set (sv_quic (lv_server s))" for ql
    using that assms(2) settled_quic [OF assms(1) ok] by (auto simp: told_inv_def told_def in_set_conv_nth)
  moreover have "\<not> sl_running sl" if "(sl, n) \<in> set (lv_streams s)" for sl n
    using that told_parts(1) [OF assms(2)] no deliver.stream_message [of _ s sl n X rest]
    by (fastforce simp: in_set_conv_nth)
  moreover have "\<not> running" if "(mb, running, n) \<in> set (lv_mails s)" for mb running n
    using that told_parts(2) [OF assms(2)] no deliver.mail_message [of _ s mb n X rest]
    by (fastforce simp: in_set_conv_nth)
  moreover have "\<not> rw_running r" if r: "r \<in> set (lv_renewals s)" for r
  proof
    assume run: "rw_running r"
    obtain i where i: "i < length (lv_renewals s)" "r = lv_renewals s ! i" using r by (auto simp: in_set_conv_nth)
    show False
    proof (cases "rw_busy r")
      case True
      obtain m d sent where "renewal_tick X (undefined :: 'a tick) (rw_manager r, lv_disk s) = ((m, d), sent)"
        by (metis prod.exhaust)
      from deliver.renewal_done [OF i run True this refl] no show False by blast
    next
      case False
      from deliver.renewal_message [OF i run False] told_parts(3) [OF assms(2)] r run no show False by blast
    qed
  qed
  ultimately show ?thesis by (fastforce simp: run_returned_def)
qed

lemma live_step_boxes: "live_step X rest s s' \<Longrightarrow> boxes_ok s \<Longrightarrow> boxes_ok s'"
proof -
  assume step: "live_step X rest s s'" and ok: "boxes_ok s"
  have "boxes_ok t'" if "deliver X rest t t'" "boxes_ok t" for t t'
    using that by cases (auto simp: boxes_ok_def send_reload_def)
  with step ok show ?thesis
    by cases (auto simp: boxes_ok_def kept_def send_reload_def send_shutdown_def dest!: conn_work_kept)
qed

lemma spawn_task_boxes: "boxes_ok s \<Longrightarrow> boxes_ok (spawn_task X W Q d cf M a s)"
  by (auto simp: boxes_ok_def spawn_task_def spawn_http_def spawn_udp_def
      split: action.split option.split outcome.split)

lemma execution_boxes: "execution X rest cf su k s \<Longrightarrow> boxes_ok s"
proof (induction rule: execution.induct)
  case (created d)
  show ?case by (simp add: boxes_ok_def live_start_def server_init_def)
qed (simp_all add: spawn_task_boxes live_step_boxes)

lemma deliver_connections:
  "(deliver X rest)\<^sup>*\<^sup>* s s' \<Longrightarrow>
   sv_conns (lv_server s') = sv_conns (lv_server s) \<and> sv_quic_conns (lv_server s') = sv_quic_conns (lv_server s)"
proof (induction rule: rtranclp_induct)
  case (step y z)
  from step(2) show ?case by cases (use step(3) in \<open>auto simp: send_reload_def\<close>)
qed simp

lemma told_reachable:
  assumes "execution X rest cf su k s1" "live_reachable X rest (send_shutdown s1) s"
  shows "told_inv s"
  using assms(2)
proof (induction rule: rtranclp_induct)
  case base
  show ?case by (rule told_send_shutdown [OF execution_boxes [OF assms(1)]])
qed (rule live_step_told)


section \<open>Renewals\<close>

lemma acme_acceptor_loads:
  assumes "rc_open R cert_file = Some chain" "rc_open R key_file = Some key"
    and "rc_certs R chain = Some certs" "certs \<noteq> []" "rc_pkcs8 R key = Some (k # ks)" "rc_signing R k"
  shows "build_tls_acceptor_acme X R cert_file key_file protocols =
    Inr \<lparr>ta_versions = tls_versions X protocols, ta_certs = Resolver \<lparr>ck_certs = certs, ck_key = k\<rparr>,
         ta_alpn = [''h2'', ''http/1.1'', ''acme-tls/1'']\<rparr>"
  using assms
  by (simp add: build_tls_acceptor_acme_def load_certified_key_def load_certificate_def load_private_key_def
      list_first_def)

text \<open>
  C30. A renewal that is announced reaches the TLS listeners of its block. When the renewal loop broadcasts
  a reload, the certificate was missing or within its renewal window, and both files hold what the CA issued
  in one attempt, readable by the owner only; and a TLS listener with that manager which then takes the
  message, with the files as they are, serves the issued chain and key, if the PEM readers take them.
\<close>

theorem renewed_certificate_served:
  assumes "renewal_tick X t (m, d) = ((m', d'), True)"
    and "ln_running ln" "ln_tls ln" "ln_acme ln = Some ma" "cert_path ma = cert_path m" "key_path ma = key_path m"
    and "nth_opt (cf_http cf) (ln_idx ln) = Some hb" "hb_ssl hb = Some ssl"
    and "build_logger (sr_log W) (hb_access_log hb) = Some lg"
    and "rc_open (sr_rustls W) = fs_read d'" "dk_read_ok d' (cert_path m)" "dk_read_ok d' (key_path m)"
  shows "(fs_read d (cert_path m) = None
       \<or> (\<exists>pem not_after. fs_read d (cert_path m) = Some pem \<and> tk_not_after t pem = Some not_after
            \<and> not_after - tk_now t < int (unat (ac_renewal_window (am_cfg m))) * 86400))
    \<and> (\<exists>n\<in>{1..5}. \<exists>chain key. finish_order (tk_ca t n) (acme_domains m) = Inr (chain, key)
         \<and> dk_files d' (cert_path m) = Some (chain, 384) \<and> dk_files d' (key_path m) = Some (key, 384)
         \<and> (\<forall>certs k ks. rc_certs (sr_rustls W) chain = Some certs \<and> certs \<noteq> []
              \<and> rc_pkcs8 (sr_rustls W) key = Some (k # ks) \<and> rc_signing (sr_rustls W) k \<longrightarrow>
              (\<exists>a. ln_acceptor (tcp_reload X cf W ln) = Some a
                 \<and> ta_certs a = Resolver \<lparr>ck_certs = certs, ck_key = k\<rparr>)))"
proof -
  from renewal_announced [OF assms(1)] obtain n chain key where i: "n \<in> {1..5}"
      "finish_order (tk_ca t n) (acme_domains m) = Inr (chain, key)"
      "dk_files d' (cert_path m) = Some (chain, 384)" "dk_files d' (key_path m) = Some (key, 384)"
    by blast
  have open_files: "rc_open (sr_rustls W) (cert_path ma) = Some chain" "rc_open (sr_rustls W) (key_path ma) = Some key"
    using i(3,4) assms(5,6,10-12) by (simp_all add: fs_read_def)
  have "\<exists>a. ln_acceptor (tcp_reload X cf W ln) = Some a \<and> ta_certs a = Resolver \<lparr>ck_certs = certs, ck_key = k\<rparr>"
    if "rc_certs (sr_rustls W) chain = Some certs" "certs \<noteq> []"
      "rc_pkcs8 (sr_rustls W) key = Some (k # ks)" "rc_signing (sr_rustls W) k" for certs k ks
    using acme_acceptor_loads [OF open_files that, of X "ssl_protocols ssl"] assms(2-4,7-9)
    by (simp add: tcp_reload_def accept_step_def accept_reload_def acceptor_of_def Let_def)
  with i renewal_announced [OF assms(1)] show ?thesis by blast
qed

section \<open>Refinement\<close>

lemma accept_messages:
  "accept_step X Shutdown ln active = (tcp_stop X ln, active, Quiet)"
  "accept_step X (Reload cf W) ln active = (tcp_reload X cf W ln, active, Quiet)"
  by (simp_all add: tcp_stop_def tcp_reload_def accept_step_def split: option.split)

lemma quic_messages:
  "\<exists>act. quic_step X QuicShutdown ql active = (udp_stop X ql, active, act) \<and> quic_spawned i act = []"
  "\<exists>act. quic_step X (QuicReload cf W) ql active = (udp_reload X cf W ql, active, act) \<and> quic_spawned i act = []"
  by (auto simp: udp_stop_def udp_reload_def quic_step_def quic_spawned_def split: option.split)

lemma server_same [simp]:
  "sv \<lparr>sv_active := sv_active sv, sv_listeners := lns, sv_conns := sv_conns sv\<rparr> = sv \<lparr>sv_listeners := lns\<rparr>"
  "sv \<lparr>sv_active := sv_active sv, sv_quic := qls, sv_quic_conns := sv_quic_conns sv\<rparr> = sv \<lparr>sv_quic := qls\<rparr>"
  by (cases sv; simp)+

lemma tcp_message_server:
  assumes "take_message rest ln_running (tcp_reload X cf) (tcp_stop X) (sv_listeners sv ! i, b) (ln, b')"
    and "i < length (sv_listeners sv)"
  shows "server_reachable X sv (sv \<lparr>sv_listeners := (sv_listeners sv)[i := ln]\<rparr>)"
  using assms(1)
proof cases
  case shutdown_received
  with server_step.listener_event [OF assms(2) accept_messages(1)] show ?thesis
    by (auto simp: spawned_def)
next
  case reload_received
  then show ?thesis by simp
next
  case (reload_applied W)
  with server_step.listener_event [OF assms(2) accept_messages(2)] show ?thesis
    by (auto simp: spawned_def)
qed

lemma quic_message_server:
  assumes "take_message rest ql_running (udp_reload X cf) (udp_stop X) (sv_quic sv ! i, b) (ql, b')"
    and "i < length (sv_quic sv)"
  shows "server_reachable X sv (sv \<lparr>sv_quic := (sv_quic sv)[i := ql]\<rparr>)"
  using assms(1)
proof cases
  case shutdown_received
  with quic_messages(1) [of X "sv_quic sv ! i" "sv_active sv" i] server_step.quic_event [OF assms(2)]
  show ?thesis by (metis append_Nil r_into_rtranclp server_same(2))
next
  case reload_received
  then show ?thesis by simp
next
  case (reload_applied W)
  with quic_messages(2) [of X cf W "sv_quic sv ! i" "sv_active sv" i] server_step.quic_event [OF assms(2)]
  show ?thesis by (metis append_Nil r_into_rtranclp server_same(2))
qed

lemma deliver_server: "deliver X rest s s' \<Longrightarrow> server_reachable X (lv_server s) (lv_server s')"
proof (induction rule: deliver.induct)
  case (tcp_message i s ln b)
  then show ?case using tcp_message_server [OF tcp_message(3,1)] by simp
next
  case (quic_message i s ql b)
  then show ?case using quic_message_server [OF quic_message(3,1)] by simp
qed (simp_all add: send_reload_def)

lemma live_step_server: "live_step X rest s s' \<Longrightarrow> server_reachable X (lv_server s) (lv_server s')"
proof (induction rule: live_step.induct)
  case (accepting i s ev remote meminfo ln active act)
  then show ?case using server_step.listener_event [OF accepting(1,4)] by auto
next
  case (quic_accepting i s ev meminfo ql active act)
  then show ?case using server_step.quic_event [OF quic_accepting(1,4)] by auto
qed (auto simp: deliver_server send_reload_def send_shutdown_def intro: server_step.connection)

definition loaded_ok :: "ext \<Rightarrow> config \<Rightarrow> config \<Rightarrow> bool" where
  "loaded_ok X cf cf' \<longleftrightarrow> cf' = cf \<or> (\<exists>os L path. config_load X os L path = Inr cf')"

definition loads_ok :: "ext \<Rightarrow> config \<Rightarrow> 'c live \<Rightarrow> bool" where
  "loads_ok X cf s \<longleftrightarrow>
     loaded_ok X cf (lv_config s) \<and> (\<forall>cf'. lv_handler s = Loaded cf' \<longrightarrow> loaded_ok X cf cf')"

lemma loads_ok_same: "loads_ok X cf s \<Longrightarrow> lv_config s' = lv_config s \<Longrightarrow> lv_handler s' = lv_handler s \<Longrightarrow> loads_ok X cf s'"
  by (simp add: loads_ok_def)

lemma deliver_loaded: "deliver X rest s s' \<Longrightarrow> loads_ok X cf s \<Longrightarrow> loads_ok X cf s'"
proof (induction rule: deliver.induct)
  case (renewal_done i s r t m d sent s')
  then show ?case by (auto simp: send_reload_def elim: loads_ok_same)
qed (simp_all add: loads_ok_def send_reload_def)

lemma live_step_loaded: "live_step X rest s s' \<Longrightarrow> loads_ok X cf s \<Longrightarrow> loads_ok X cf s'"
proof (induction rule: live_step.induct)
  case (hangup s path os L cf')
  then have "loaded_ok X cf cf'" unfolding loaded_ok_def by blast
  with hangup(4) show ?case by (simp add: loads_ok_def)
next
  case (delivery s s')
  then show ?case by (blast intro: deliver_loaded)
qed (auto simp: loads_ok_def send_reload_def send_shutdown_def)

lemma spawn_task_loaded: "loads_ok X cf s \<Longrightarrow> loads_ok X cf (spawn_task X W Q d cf' M a s)"
  by (auto simp: loads_ok_def spawn_task_def spawn_http_def spawn_udp_def
      split: action.split option.split outcome.split)

text \<open>Listeners that are there from the start and do nothing yet do not disturb the others.\<close>

definition widen :: "'c listener list \<Rightarrow> 'c quic_listener list \<Rightarrow> 'c server_state \<Rightarrow> 'c server_state" where
  "widen lns qls sv = sv \<lparr>sv_listeners := sv_listeners sv @ lns, sv_quic := sv_quic sv @ qls\<rparr>"

lemma server_step_widen: "server_step X sv sv' \<Longrightarrow> server_step X (widen lns qls sv) (widen lns qls sv')"
proof (induction rule: server_step.induct)
  case (listener_event i s ev ln active act)
  then show ?case
    using server_step.listener_event [of i "widen lns qls s" X ev ln active act]
    by (cases s) (simp add: widen_def nth_append list_update_append1)
next
  case (quic_event i s ev ql active act)
  then show ?case
    using server_step.quic_event [of i "widen lns qls s" X ev ql active act]
    by (cases s) (simp add: widen_def nth_append list_update_append1)
next
  case (connection s s')
  then have "conn_work X (widen lns qls s) (widen lns qls s')"
  proof (induction rule: conn_work.induct)
    case (connection_request i t s ln E store req h resp)
    then show ?case
      using conn_work.connection_request [of i t "widen lns qls s" ln X E store req h resp]
      by (cases s) (simp add: widen_def nth_append list_update_append1)
  next
    case (connection_end s cs c cs')
    then show ?case using conn_work.connection_end [of "widen lns qls s" cs c cs'] by (cases s) (simp add: widen_def)
  next
    case (quic_request i t s ql E req remote rs head_ok h sent)
    then show ?case
      using conn_work.quic_request [of i t "widen lns qls s" ql X E req remote rs head_ok h sent]
      by (cases s) (simp add: widen_def nth_append list_update_append1)
  next
    case (quic_end s cs c cs')
    then show ?case using conn_work.quic_end [of "widen lns qls s" cs c cs'] by (cases s) (simp add: widen_def)
  qed
  then show ?case by (rule server_step.connection)
qed

lemma server_reachable_widen:
  "server_reachable X sv sv' \<Longrightarrow> server_reachable X (widen lns qls sv) (widen lns qls sv')"
  by (induction rule: rtranclp_induct) (auto intro: rtranclp.rtrancl_into_rtrancl server_step_widen)

lemma widen_init: "widen lns' qls' (server_init lns qls) = server_init (lns @ lns') (qls @ qls')"
  by (simp add: widen_def server_init_def)

definition started_from :: "ext \<Rightarrow> config \<Rightarrow> 'c listener \<Rightarrow> bool" where
  "started_from X cf ln \<longleftrightarrow>
     (\<exists>W hb idx tls acme. nth_opt (cf_http cf) idx = Some hb
        \<and> accept_start X W hb idx tls acme (timeouts_of cf) = Some ln)"

definition quic_started_from :: "ext \<Rightarrow> config \<Rightarrow> 'c quic_listener \<Rightarrow> bool" where
  "quic_started_from X cf ql \<longleftrightarrow>
     (\<exists>W Q hb idx acme. nth_opt (cf_http cf) idx = Some hb
        \<and> quic_start X W Q hb idx acme (timeouts_of cf) = Ok ql)"

definition refines_server :: "ext \<Rightarrow> config \<Rightarrow> 'c server_state \<Rightarrow> bool" where
  "refines_server X cf sv \<longleftrightarrow>
     (\<exists>lns qls. (\<forall>ln\<in>set lns. started_from X cf ln) \<and> (\<forall>ql\<in>set qls. quic_started_from X cf ql)
        \<and> server_reachable X (server_init lns qls) sv)"

lemma refines_widen:
  assumes "refines_server X cf sv" "\<forall>ln\<in>set lns. started_from X cf ln" "\<forall>ql\<in>set qls. quic_started_from X cf ql"
  shows "refines_server X cf (widen lns qls sv)"
proof -
  from assms(1) obtain lns' qls' where "server_reachable X (server_init lns' qls') sv"
    "\<forall>ln\<in>set lns'. started_from X cf ln" "\<forall>ql\<in>set qls'. quic_started_from X cf ql"
    by (auto simp: refines_server_def)
  moreover from server_reachable_widen [OF this(1), of lns qls]
  have "server_reachable X (server_init (lns' @ lns) (qls' @ qls)) (widen lns qls sv)" by (simp add: widen_init)
  ultimately show ?thesis
    using assms(2,3) unfolding refines_server_def
    by (intro exI [of _ "lns' @ lns"] exI [of _ "qls' @ qls"]) auto
qed

lemma spawn_task_refines:
  assumes "refines_server X cf (lv_server s)"
  shows "refines_server X cf (lv_server (spawn_task X W Q d cf M a s))"
proof -
  have "spawn_task X W Q d cf M a s = spawn_task X W Q d cf M a s" ..
  then show ?thesis
  proof (cases rule: spawn_task_cases)
    case (http W hb idx tls acme ln)
    then have "started_from X cf ln" unfolding started_from_def by blast
    with refines_widen [OF assms, of "[ln]" "[]"] show ?thesis unfolding http(3) by (simp add: widen_def)
  next
    case (quic W Q hb idx acme ql)
    then have "quic_started_from X cf ql" unfolding quic_started_from_def by blast
    with refines_widen [OF assms, of "[]" "[ql]"] show ?thesis unfolding quic(3) by (simp add: widen_def)
  qed (simp add: assms)
qed

lemma execution_refines:
  assumes "execution X rest cf su k s"
  shows "refines_server X cf (lv_server s) \<and> loads_ok X cf s"
  using assms
proof (induction rule: execution.induct)
  case (created d)
  have "refines_server X cf (server_init [] [])" 
    unfolding refines_server_def by (intro exI [of _ "[]"]) simp
  then show ?case by (simp add: live_start_def loads_ok_def loaded_ok_def)
next
  case (acted k s W Q d)
  then show ?case by (simp add: spawn_task_refines spawn_task_loaded)
next
  case (worked k s s')
  then show ?case
    using live_step_server [OF worked(2)] live_step_loaded [OF worked(2), of cf]
    unfolding refines_server_def by (meson rtranclp_trans)
qed

text \<open>
  C18. A run, with its startup, its channels and all its tasks, refines the server of listeners and
  connections: the state of its listeners and connections is one that the server reaches from listeners
  started from the configuration of the program, so what holds in all reachable states of the server
  holds here; and the configuration in force is the one the program was started with or one that was
  loaded from a file and passed validation.
\<close>

theorem live_refines_server:
  assumes "execution X rest cf su k s"
  shows "(\<exists>lns qls. (\<forall>ln\<in>set lns. started_from X cf ln) \<and> (\<forall>ql\<in>set qls. quic_started_from X cf ql)
      \<and> server_reachable X (server_init lns qls) (lv_server s))
    \<and> (lv_config s = cf \<or> (\<exists>os L path. config_load X os L path = Inr (lv_config s) \<and> validate X os (lv_config s) = Inr ()))"
  using execution_refines [OF assms] config_load_valid
  unfolding refines_server_def loads_ok_def loaded_ok_def by blast

text \<open>A signal taken as one step is a run of the phases of the handler.\<close>

lemma on_signal_phases:
  assumes "lv_handler s = Listening" "co = \<lparr>co_config = lv_config s, co_sent = [], co_done = False\<rparr>"
    and "co' = on_signal X os L sig co"
  shows "\<exists>s'. live_reachable X rest s s' \<and> lv_config s' = co_config co'
    \<and> lv_handler s' = (if co_done co' then Stopped else Listening)"
proof (cases "co' = co")
  case True
  with assms show ?thesis by (intro exI [of _ s]) simp
next
  case False
  show ?thesis
  proof (cases "sig = SIGHUP")
    case True
    with assms False obtain path cf where path: "reload_path (lv_config s) = Some path"
      and cf: "config_load X os L path = Inr cf" "co' = co \<lparr>co_config := cf, co_sent := [ReloadMsg]\<rparr>"
      by (auto simp: on_signal_def split: option.splits sum.splits)
    let ?s1 = "s \<lparr>lv_handler := Loaded cf\<rparr>"
    let ?s2 = "?s1 \<lparr>lv_config := cf, lv_handler := Swapped\<rparr>"
    let ?s3 = "send_reload (?s2 \<lparr>lv_handler := Listening\<rparr>)"
    have 1: "live_step X rest s ?s1" by (rule hangup [OF assms(1) path cf(1)])
    have 2: "live_step X rest ?s1 ?s2" by (rule delivery, rule swap) simp
    have 3: "live_step X rest ?s2 ?s3" by (rule delivery, rule announce) simp
    have "live_reachable X rest s ?s3"
      by (rule rtranclp.rtrancl_into_rtrancl [OF rtranclp.rtrancl_into_rtrancl [OF r_into_rtranclp [of "live_step X rest", OF 1] 2] 3])
    then show ?thesis using cf(2) assms(2) by (intro exI [of _ ?s3]) (simp add: send_reload_def)
  next
    case False
    then have "co' = co \<lparr>co_sent := [ShutdownMsg], co_done := True\<rparr>"
      using assms(2,3) by (cases sig) (simp_all add: on_signal_def)
    with terminate [OF assms(1), of X rest] assms(2) show ?thesis
      by (intro exI [of _ "send_shutdown (s \<lparr>lv_handler := Stopped\<rparr>)"]) (simp add: send_shutdown_def r_into_rtranclp)
  qed
qed

section \<open>Examples\<close>

definition keep_one :: "nat \<Rightarrow> nat" where
  "keep_one n = (if 1 < n then 1 else 0)"

lemma keep_one_less: "\<forall>n>0. keep_one n < n"
  by (simp add: keep_one_def)

definition slow :: timeout_settings where
  "slow = default_timeouts \<lparr>to_request := 600\<rparr>"

text \<open>A site with one HTTPS listener that proxies through an A/B split, and a user to drop to.\<close>

definition site_block :: http_block where
  "site_block = split_block \<lparr>hb_listen := [\<lparr>ld_port = 443, ld_protocol = ''https'', ld_address = None\<rparr>]\<rparr>"

definition site :: "timeout_settings option \<Rightarrow> config" where
  "site t = (plain_config site_block)
     \<lparr>cf_global := (cf_global (plain_config site_block))
        \<lparr>gl_user := Some ''www'', gl_pid_file := Some ''/run/flexd.pid'', gl_timeouts := t\<rparr>\<rparr>"

lemma site_fields [simp]:
  "cf_http (site t) = [site_block]" "timeouts_of (site None) = default_timeouts" "timeouts_of (site (Some u)) = u"
  "\<exists>path. reload_path (site t) = Some path" "cf_stream (site t) = []" "cf_mail (site t) = None"
  "gl_user (cf_global (site t)) = Some ''www''" "gl_pid_file (cf_global (site t)) = Some ''/run/flexd.pid''"
  by (simp_all add: site_def plain_config_def timeouts_of_def reload_path_def)

lemma site_block_fields [simp]:
  "hb_listen site_block = [\<lparr>ld_port = 443, ld_protocol = ''https'', ld_address = None\<rparr>]"
  "hb_ssl site_block = None" "hb_http3 site_block = False" "hb_locations site_block = hb_locations split_block"
  "hb_ab_splits site_block = hb_ab_splits split_block" "hb_upstreams site_block = hb_upstreams split_block"
  by (simp_all add: site_block_def split_block_def default_http_block_def)

lemma site_valid: "validate sample_ext any_os (site t) = Inr ()"
proof -
  have "check_http_block sample_ext any_os split_block = Inr ()"
    using split_block_valid by (simp add: validate_def check_ok plain_config_def)
  moreover have "check_location sample_ext site_block = check_location sample_ext split_block"
    by (simp add: fun_eq_iff check_location_def site_block_def cong: option.case_cong)
  ultimately have "check_http_block sample_ext any_os site_block = Inr ()"
    by (simp add: block_checks site_block_def check_listen_def check_ab_split_def check_upstreams_def
        check_trusted_proxies_def check_connect_targets_def check_host_policy_def check_networks_def split_block_fields(10))
  then show ?thesis by (simp add: validate_def check_ok)
qed

lemma site_run:
  "\<exists>su :: nat startup. run sample_ext sample_run_calls (site None) root_creds sample_disk = (su, None)
     \<and> su_trace su = [WritePid ''/run/flexd.pid'', BindTcp (any_addr 443), DropPrivileges ''www'',
          SpawnHttp (any_addr 443) 0 True False, SpawnSignals] \<and> su_managers su = []"
proof -
  have "managers_of (site None) = ([] :: (nat \<times> nat acme_manager) list)" by (simp add: managers_of_def map_filter_simps)
  moreover obtain c where "drop_privileges sample_posix root_creds ''www'' = (c, Inr ())" using sample_drop by blast
  ultimately show ?thesis
    by (simp add: run_def after_def bind_all_def run_start_def bind_http_def has_manager_def Let_def listen_addr_def
        emit_def drop_step_def sample_run_calls_def spawn_first_def spawn_now_def nth_opt_def is_tls_protocol_def)
qed

text \<open>Its state when everything is spawned.\<close>

definition site_start :: "handler_phase \<Rightarrow> nat live" where
  "site_start ph = (live_start (site None) sample_disk)
     \<lparr>lv_server := server_init [sample_listener site_block] [], lv_handler := ph, lv_boxes := [subscribed]\<rparr>"

lemma site_execution:
  assumes "su_trace su = [WritePid ''/run/flexd.pid'', BindTcp (any_addr 443), DropPrivileges ''www'',
      SpawnHttp (any_addr 443) 0 True False, SpawnSignals]"
  shows "execution sample_ext rest (site None) su (length (su_trace su)) (site_start Registering)"
proof -
  have "fold (spawn_task sample_ext sample_surroundings Q sample_disk (site None) M) (su_trace su)
      (live_start (site None) sample_disk) = site_start Registering" for Q M
    by (simp add: assms spawn_task_def spawn_http_def nth_opt_def sample_start site_start_def live_start_def server_init_def)
  with execution_undisturbed [OF refl, of sample_ext rest "site None" su sample_surroundings _ sample_disk] show ?thesis
    by metis
qed

lemma site_loads:
  "live_reachable sample_ext keep_one (site_start Registering) (site_start (Loaded (site (Some slow))))"
proof -
  have c: "lv_config (site_start ph) = site None" "lv_handler (site_start ph) = ph"
    "(site_start ph) \<lparr>lv_handler := ph'\<rparr> = site_start ph'" for ph ph'
    by (simp_all add: site_start_def live_start_def)
  obtain path where "reload_path (site None) = Some path" using site_fields(4) by blast
  then have path: "reload_path (lv_config (site_start Listening)) = Some path" by (simp add: c)
  have "live_step sample_ext keep_one (site_start Registering) (site_start Listening)"
    using registered [of "site_start Registering" Listening sample_ext keep_one] by (simp add: c)
  moreover have "live_step sample_ext keep_one (site_start Listening) (site_start (Loaded (site (Some slow))))"
    using hangup [OF _ path sample_load [OF site_valid], of keep_one] by (simp add: c)
  ultimately show ?thesis by (simp add: rtranclp.rtrancl_into_rtrancl)
qed

theorem reload_reaches_all_witness:
  "\<exists>su s. execution sample_ext keep_one (site None) (su :: nat startup) 5 s \<and> settled sample_ext keep_one s
     \<and> lv_config s = site (Some slow)
     \<and> (\<forall>ln\<in>set (sv_listeners (lv_server s)). ln_running ln \<and> ln_idx ln = 0 \<longrightarrow> ln_timeouts ln = slow)"
proof -
  let ?loaded = "site_start (Loaded (site (Some slow)))"
  obtain su :: "nat startup" where run: "run sample_ext sample_run_calls (site None) root_creds sample_disk = (su, None)"
    and tr: "su_trace su = [WritePid ''/run/flexd.pid'', BindTcp (any_addr 443), DropPrivileges ''www'',
          SpawnHttp (any_addr 443) 0 True False, SpawnSignals]" using site_run by blast
  note all = reload_reaches_all [OF keep_one_less run]
  have ex: "execution sample_ext keep_one (site None) su 5 ?loaded"
    using execution_works [OF site_loads site_execution [OF tr]] by (simp add: tr eval_nat_numeral)
  obtain s where s: "(deliver sample_ext keep_one)\<^sup>*\<^sup>* ?loaded s" "settled sample_ext keep_one s"
    using settles [OF keep_one_less] by blast
  have reach: "execution sample_ext keep_one (site None) su 5 s"
    by (rule execution_works [OF deliver_reachable [OF s(1)] ex])
  have "lv_handler ?loaded = Loaded (site (Some slow))" by (simp add: site_start_def)
  with all [OF ex, THEN conjunct2, THEN conjunct1] s have "lv_config s = site (Some slow)" by metis
  moreover from this have "\<forall>ln\<in>set (sv_listeners (lv_server s)). ln_running ln \<and> ln_idx ln = 0 \<longrightarrow> ln_timeouts ln = slow"
    using all [OF reach, THEN conjunct2, THEN conjunct2] s(2) by (simp add: nth_opt_def)
  ultimately show ?thesis using reach s(2) by blast
qed

definition site_busy :: "nat live" where
  "site_busy = (site_start Registering) \<lparr>lv_server := sample_busy site_block\<rparr>"

lemma site_busy_step: "live_step sample_ext keep_one (site_start Registering) site_busy"
proof -
  have "accept_step sample_ext (Accepted (V4 (Ipv4 203 0 113 7), 40000) None)
      (sv_listeners (lv_server (site_start Registering)) ! 0) (sv_active (lv_server (site_start Registering)))
      = (sample_listener site_block, 1, Spawn (sample_task site_block))"
    by (simp add: site_start_def live_start_def server_init_def sample_accept)
  from accepting [OF _ _ _ this, where rest = keep_one] show ?thesis
    by (simp add: site_busy_def site_start_def live_start_def server_init_def sample_busy_def spawned_def subscribed_def)
qed


text \<open>A renewal of the sample manager, and a TLS listener with it that reads the disk the renewal left.\<close>

definition renewed_disk :: disk where
  "renewed_disk = fst (write_cert sample_manager sample_disk ''CHAIN'' ''KEY'')"

definition renewed_surroundings :: surroundings where
  "renewed_surroundings = sample_surroundings \<lparr>sr_rustls := sample_rustls \<lparr>rc_open := fs_read renewed_disk\<rparr>\<rparr>"

definition acme_listener :: "nat listener" where
  "acme_listener = (sample_listener tls_block) \<lparr>ln_acme := Some sample_manager\<rparr>"

theorem renewed_certificate_served_witness:
  "\<exists>a. ln_acceptor (tcp_reload sample_ext (plain_config tls_block) renewed_surroundings acme_listener) = Some a
     \<and> ta_certs a = Resolver \<lparr>ck_certs = [''cert''], ck_key = ''key''\<rparr>"
proof -
  let ?t = "\<lparr>tk_ca = sample_ca, tk_not_after = (\<lambda>_. None), tk_now = 0\<rparr>"
  have "needs_renewal (tk_not_after ?t) sample_manager sample_disk (tk_now ?t) = Inr True"
    by (simp add: needs_renewal_def fs_read_def sample_disk_def)
  then obtain m' where t: "renewal_tick sample_ext ?t (sample_manager, sample_disk) = ((m', renewed_disk), True)"
    using sample_issue [of sample_ext] by (auto simp: renewal_tick_def renewed_disk_def)
  have "dk_read_ok renewed_disk path" for path
    by (simp add: renewed_disk_def write_cert_def sample_disk_def write_secret_def fs_write_def put_file_def
        set_permissions_def)
  then show ?thesis
    using renewed_certificate_served [OF t, where ln = acme_listener and ma = sample_manager
        and cf = "plain_config tls_block" and W = renewed_surroundings]
    by (fastforce simp: acme_listener_def sample_listener_fields plain_config_def nth_opt_def tls_block_def
        renewed_surroundings_def sample_surroundings_def sample_rustls_def build_logger_def logger_new_def)
qed

theorem live_refines_server_witness:
  "\<exists>lns qls. (\<forall>ln\<in>set lns. started_from sample_ext (site None) ln)
     \<and> (\<forall>ql\<in>set qls. quic_started_from sample_ext (site None) ql)
     \<and> server_reachable sample_ext (server_init lns qls) (sample_busy site_block)"
proof -
  obtain su :: "nat startup" where tr: "su_trace su = [WritePid ''/run/flexd.pid'', BindTcp (any_addr 443),
      DropPrivileges ''www'', SpawnHttp (any_addr 443) 0 True False, SpawnSignals]" using site_run by blast
  from live_refines_server [OF worked [OF site_execution [OF tr] site_busy_step]] show ?thesis
    by (simp add: site_busy_def)
qed

end
