(* ===== verification/Server_Shape.thy ===== *)
theory Server_Shape
  imports Server_Conns
begin

text \<open>
  The shape of the services in a running server: what every one of them has whatever requests it has
  answered, so that its tables stay within their bounds and its indices within its vectors.
\<close>

definition service_ok :: "ext \<Rightarrow> 'c handler_service \<Rightarrow> bool" where
  "service_ok X h \<longleftrightarrow>
     (let hb = hs_http_block h; r = pc_resolver (hs_proxy h) in
      turned (balancer_new hb) (hs_balancer h)
      \<and> (case hs_ab_router h of
           None \<Rightarrow> hb_ab_splits hb = []
         | Some ab \<Rightarrow> ar_splits ab = ar_splits (ab_router_new (hb_ab_splits hb))
             \<and> length (ar_sticky_sessions ab) \<le> MAX_STICKY_SESSIONS)
      \<and> length (pr_cache r) \<le> MAX_CACHE_ENTRIES \<and> vetted X r
      \<and> pr_allowed r = parse_networks X (hb_upstream_allowed_networks hb)
      \<and> length (hs_locations h) = length (hb_locations hb)
      \<and> hs_max_body h = (case hb_max_body_size hb of None \<Rightarrow> 10 * 1024 * 1024 | Some n \<Rightarrow> n))"

lemma new_router_ok:
  assumes "rerouted (if splits \<noteq> [] then Some (ab_router_new splits) else None) r"
  shows "case r of None \<Rightarrow> splits = []
    | Some ab \<Rightarrow> ar_splits ab = ar_splits (ab_router_new splits) \<and> length (ar_sticky_sessions ab) \<le> MAX_STICKY_SESSIONS"
  using assms by (cases r; cases "splits = []") (auto simp: rerouted_def ab_router_new_def)

lemma made_ok:
  assumes "made X h"
  shows "service_ok X h"
proof -
  obtain tls hb timeouts os geo lg st where m: "moved X (handler_new X os geo hb lg st tls timeouts) h"
    using assms by (auto simp: made_def serves_def)
  let ?h = "handler_new X os geo hb lg st tls timeouts"
  note f = moved_fields [OF m]
  have hb: "hs_http_block h = hb" using f by (simp add: handler_new_def)
  obtain ttl where "(resolver_step X)\<^sup>*\<^sup>* (resolver_new (parse_networks X (hb_upstream_allowed_networks hb)) ttl)
      (pc_resolver (hs_proxy h))"
    using made_resolver [OF assms] hb by auto
  note r = resolver_reachable_vetted [OF this]
  have "turned (balancer_new hb) (hs_balancer h)" using f by (simp add: handler_new_def)
  moreover have "rerouted (if hb_ab_splits hb \<noteq> [] then Some (ab_router_new (hb_ab_splits hb)) else None) (hs_ab_router h)"
    using f by (simp add: handler_new_def)
  moreover have "length (hs_locations h) = length (hb_locations hb)"
    "hs_max_body h = (case hb_max_body_size hb of None \<Rightarrow> 10 * 1024 * 1024 | Some n \<Rightarrow> n)"
    using f by (simp_all add: handler_new_def)
  ultimately show ?thesis using r new_router_ok by (simp add: service_ok_def hb Let_def)
qed

end
