(* ===== verification/Flexd_Program.thy ===== *)
theory Flexd_Program
  imports Server_Reload Server_Shape
begin

text \<open>
  The whole program: \<^verbatim>\<open>main\<close> loads and validates a configuration, \<^verbatim>\<open>Server::run\<close> brings the server up, and its
  tasks work. What holds of every service that a client can reach in any state of it.
\<close>

section \<open>Services and the configurations they come from\<close>

text \<open>A service made from a block of a configuration that was validated, as requests may have left it.\<close>

definition from_valid :: "ext \<Rightarrow> 'c handler_service \<Rightarrow> bool" where
  "from_valid X h \<longleftrightarrow>
     (\<exists>os cf hb tls timeouts. validate X os cf = Inr () \<and> hb \<in> set (cf_http cf) \<and> serves X tls hb timeouts h)"

lemma from_valid_moved: "from_valid X h \<Longrightarrow> moved X h h' \<Longrightarrow> from_valid X h'"
  unfolding from_valid_def using serves_moved by blast

lemma from_valid_new:
  assumes "was_valid X cf" "nth_opt (cf_http cf) idx = Some hb"
  shows "from_valid X (handler_new X os geo hb lg st tls timeouts)"
proof -
  have "hb \<in> set (cf_http cf)" using assms(2) by (auto simp: nth_opt_def split: if_splits)
  with assms(1) show ?thesis unfolding from_valid_def was_valid_def using serves_new by blast
qed

lemma tcp_reload_services:
  assumes "h \<in> set (ln_handlers (tcp_reload X cf W ln))" "was_valid X cf" "\<forall>h\<in>set (ln_handlers ln). from_valid X h"
  shows "from_valid X h"
  using assms
  by (auto simp: tcp_reload_def accept_step_def accept_reload_def Let_def split: if_splits option.splits
      intro: from_valid_new)

lemma udp_reload_services:
  assumes "h \<in> set (ql_handlers (udp_reload X cf W ql))" "was_valid X cf" "\<forall>h\<in>set (ql_handlers ql). from_valid X h"
  shows "from_valid X h"
  using assms
  by (auto simp: udp_reload_def quic_step_def quic_reload_def Let_def split: if_splits option.splits
      intro: from_valid_new)

lemma stop_services [simp]:
  "ln_handlers (tcp_stop X ln) = ln_handlers ln" "ql_handlers (udp_stop X ql) = ql_handlers ql"
  by (simp_all add: tcp_stop_def accept_step_def udp_stop_def quic_step_def)

definition all_valid :: "ext \<Rightarrow> 'c live \<Rightarrow> bool" where
  "all_valid X s \<longleftrightarrow> (\<forall>h\<in>services (lv_server s). from_valid X h)"

lemma all_valid_listener:
  "all_valid X s \<Longrightarrow> i < length (sv_listeners (lv_server s)) \<Longrightarrow>
     \<forall>h\<in>set (ln_handlers (sv_listeners (lv_server s) ! i)). from_valid X h"
  "all_valid X s \<Longrightarrow> i < length (sv_quic (lv_server s)) \<Longrightarrow>
     \<forall>h\<in>set (ql_handlers (sv_quic (lv_server s) ! i)). from_valid X h"
  unfolding all_valid_def using services_listener services_quic by blast+

lemma deliver_valid:
  assumes "deliver X rest s s'" "all_valid X s" "was_valid X (lv_config s)"
  shows "all_valid X s'"
  using assms(1)
proof cases
  case (tcp_message i ln b)
  from tcp_message(4) have "\<forall>h\<in>set (ln_handlers ln). from_valid X h"
    by cases (use all_valid_listener(1) [OF assms(2) tcp_message(2)] tcp_reload_services [OF _ assms(3)] in auto)
  with assms(2) show ?thesis
    unfolding all_valid_def tcp_message(1) using services_update(1) [of _ "lv_server s" i ln] by auto
next
  case (quic_message i ql b)
  from quic_message(4) have "\<forall>h\<in>set (ql_handlers ql). from_valid X h"
    by cases (use all_valid_listener(2) [OF assms(2) quic_message(2)] udp_reload_services [OF _ assms(3)] in auto)
  with assms(2) show ?thesis
    unfolding all_valid_def quic_message(1) using services_update(2) [of _ "lv_server s" i ql] by auto
qed (use assms(2) in \<open>auto simp: all_valid_def send_reload_def\<close>)

lemma live_step_valid:
  assumes "live_step X rest s s'" "all_valid X s" "was_valid X (lv_config s)"
  shows "all_valid X s'"
  using assms(1)
proof cases
  case delivery
  then show ?thesis using deliver_valid assms(2,3) by blast
next
  case (connections sv)
  with conn_work_moves assms(2) show ?thesis
    by (fastforce simp: all_valid_def intro: from_valid_moved)
next
  case (accepting i ev remote meminfo ln active act)
  from accept_unchanged [OF accepting(5,4)] assms(2) show ?thesis
    unfolding accepting(1) by (simp add: all_valid_def services_def)
next
  case (quic_accepting i ev meminfo ql active act)
  from quic_unchanged [OF quic_accepting(5,4)] assms(2) show ?thesis
    unfolding quic_accepting(1) by (simp add: all_valid_def services_def)
qed (use assms(2) in \<open>auto simp: all_valid_def send_reload_def send_shutdown_def\<close>)

lemma spawn_task_valid:
  assumes "all_valid X s" "was_valid X cf"
  shows "all_valid X (spawn_task X W Q d cf M a s)"
proof -
  have "spawn_task X W Q d cf M a s = spawn_task X W Q d cf M a s" ..
  then show ?thesis
  proof (cases rule: spawn_task_cases)
    case (http W hb idx tls acme ln)
    from http(2) have "\<forall>h\<in>set (ln_handlers ln). from_valid X h"
      using from_valid_new [OF assms(2) http(1)] by (auto simp: accept_start_def split: option.splits)
    with assms(1) show ?thesis unfolding http(3) by (auto simp: all_valid_def services_def)
  next
    case (quic W Q hb idx acme ql)
    from quic_start_handlers [OF quic(2)] have "\<forall>h\<in>set (ql_handlers ql). from_valid X h"
      using from_valid_new [OF assms(2) quic(1)] by auto
    with assms(1) show ?thesis unfolding quic(3) by (auto simp: all_valid_def services_def)
  qed (use assms(1) in \<open>simp add: all_valid_def\<close>)
qed

lemma execution_valid:
  assumes "execution X rest cf su k s" "was_valid X cf"
  shows "all_valid X s"
  using assms(1)
proof (induction rule: execution.induct)
  case (created d)
  show ?case by (simp add: all_valid_def services_def live_start_def server_init_def)
next
  case (acted k s W Q d)
  then show ?case by (simp add: spawn_task_valid assms(2))
next
  case (worked k s s')
  have "was_valid X (lv_config s)"
    using execution_refines [OF worked(1)] assms(2) config_load_valid
    unfolding loads_ok_def loaded_ok_def was_valid_def by metis
  with worked show ?case by (simp add: live_step_valid)
qed

lemma main_start_valid: "main_start X os L a = Inr (Some cf) \<Longrightarrow> was_valid X cf"
  using config_load_valid by (fastforce simp: main_start_def was_valid_def Let_def split: sum.splits if_splits)


section \<open>The shape of services\<close>

lemma execution_made:
  assumes "execution X rest cf su k s" "h \<in> services (lv_server s)"
  shows "made X h"
proof -
  from execution_refines [OF assms(1)] obtain lns qls where r: "server_reachable X (server_init lns qls) (lv_server s)"
    and l: "\<forall>ln\<in>set lns. started_from X cf ln" "\<forall>ql\<in>set qls. quic_started_from X cf ql"
    by (auto simp: refines_server_def)
  have "\<forall>ln\<in>set lns. started_listener X ln" "\<forall>ql\<in>set qls. started_quic X ql"
    using l unfolding started_from_def quic_started_from_def started_listener_def started_quic_def by meson+
  with r assms(2) show ?thesis by (intro services_made)
qed


section \<open>Nothing is served with privileges\<close>

definition idle :: "'c live \<Rightarrow> bool" where
  "idle s \<longleftrightarrow> sv_listeners (lv_server s) = [] \<and> sv_quic (lv_server s) = [] \<and> lv_streams s = [] \<and> lv_mails s = []
     \<and> lv_renewals s = []"

lemma live_step_idle:
  assumes "live_step X rest s s'" "idle s"
  shows "idle s'"
  using assms(1)
proof cases
  case delivery
  then show ?thesis by cases (use assms(2) in \<open>auto simp: idle_def send_reload_def\<close>)
next
  case (connections sv)
  with conn_work_kept [OF connections(2)] assms(2) show ?thesis by (simp add: idle_def kept_def)
qed (use assms(2) in \<open>auto simp: idle_def send_reload_def send_shutdown_def\<close>)

lemma spawn_task_idle: "idle s \<Longrightarrow> \<not> is_service a \<Longrightarrow> idle (spawn_task X W Q d cf M a s)"
  by (cases a) (simp_all add: idle_def spawn_task_def)

lemma execution_idle:
  assumes "execution X rest cf su k s" "\<forall>j<k. \<not> is_service (su_trace su ! j)"
  shows "idle s"
  using assms
proof (induction rule: execution.induct)
  case (created d)
  show ?case by (simp add: idle_def live_start_def server_init_def)
next
  case (acted k s W Q d)
  then show ?case by (simp add: spawn_task_idle)
next
  case (worked k s s')
  then show ?case using live_step_idle by blast
qed

lemma execution_bound: "execution X rest cf su k s \<Longrightarrow> k \<le> length (su_trace su)"
  by (induction rule: execution.induct) simp_all


text \<open>
  A consequence for reloads: validation wants root for an ACME block whose challenge port is privileged, as
  the default port is. Once the process has dropped its privileges it cannot load such a configuration any
  more, though it was started with one: every reload of the site is refused.
\<close>

theorem acme_reload_refused:
  assumes "\<not> os_euid_root os" "hb \<in> set (cf_http cf)" "hb_ssl hb = Some ssl" "ssl_acme ssl = Some ac" "ac_enabled ac"
    and "ac_http_challenge_port ac = None"
  shows "config_load X os L path \<noteq> Inr cf"
proof
  assume "config_load X os L path = Inr cf"
  from validated_block [OF config_load_valid [OF this] assms(2)] have "check_acme os hb ac = Inr ()"
    using assms(3,4) by (simp add: block_checks check_ssl_def)
  with assms(1,5,6) show False by (simp add: check_acme_def check_ok)
qed

section \<open>Examples\<close>

text \<open>The site of the earlier examples, with a connection open.\<close>

lemma site_busy_execution:
  "\<exists>su :: nat startup. run sample_ext sample_run_calls (site None) root_creds sample_disk = (su, None)
     \<and> execution sample_ext keep_one (site None) su (length (su_trace su)) site_busy"
  using site_run worked [OF site_execution site_busy_step] by blast

lemma site_busy_service: "ln_handlers (sample_listener site_block) ! 0 \<in> services (lv_server site_busy)"
  using nth_mem [of 0 "ln_handlers (sample_listener site_block)"]
  by (simp add: services_def site_busy_def sample_busy_def sample_listener_fields)




end
