(* ===== verification/Server_Http2.thy ===== *)
theory Server_Http2
  imports Server_Accept
begin

text \<open>
  \<^verbatim>\<open>server.rs\<close>: the reset budget of an HTTP/2 connection. Every request has a guard that counts the
  request's future as a reset when it is dropped before it gave a response; past the budget the
  connection is shut down. The composition with \<open>Rate_Limit\<close> says which connections that ends.
\<close>

section \<open>Operations\<close>

record h2_conn =
  h2_tracker :: reset_tracker
  h2_kill :: bool

definition h2_open :: "reset_rate_limit \<Rightarrow> instant \<Rightarrow> h2_conn" where
  "h2_open rr now =
     \<lparr>h2_tracker = tracker_new (rr_count rr) (from_secs (unat (rr_window_seconds rr))) now, h2_kill = False\<rparr>"

text \<open>\<^verbatim>\<open>StreamDropGuard::drop\<close>.\<close>

definition stream_guard_drop :: "bool \<Rightarrow> instant \<Rightarrow> h2_conn \<Rightarrow> h2_conn" where
  "stream_guard_drop completed now c =
     (if completed then c
      else (case record_reset (h2_tracker c) now of
              (t, exceeded) \<Rightarrow> c \<lparr>h2_tracker := t, h2_kill := h2_kill c \<or> exceeded\<rparr>))"

text \<open>The streams of a connection as they end: whether the request was completed, and when.\<close>

definition h2_streams :: "h2_conn \<Rightarrow> (bool \<times> instant) list \<Rightarrow> h2_conn" where
  "h2_streams c evs = fold (\<lambda>(completed, now). stream_guard_drop completed now) evs c"

section \<open>Properties\<close>

definition drop_times :: "(bool \<times> instant) list \<Rightarrow> instant list" where
  "drop_times evs = map snd (filter (\<lambda>(completed, _). \<not> completed) evs)"

lemma h2_streams_kill:
  "h2_kill (h2_streams c evs) \<longleftrightarrow> h2_kill c \<or> True \<in> set (record_run (h2_tracker c) (drop_times evs))"
proof (induction evs arbitrary: c)
  case (Cons p evs)
  have "h2_kill (h2_streams c (p # evs)) \<longleftrightarrow> h2_kill (h2_streams (stream_guard_drop (fst p) (snd p) c) evs)"
    by (simp add: h2_streams_def split: prod.split)
  also note Cons.IH
  finally show ?case
    by (cases p) (auto simp: stream_guard_drop_def drop_times_def split: prod.split)
qed (simp add: h2_streams_def drop_times_def)

lemma record_run_append:
  "record_run t (xs @ ys) = record_run t xs @ record_run (record_all t xs) ys"
  by (induction xs arbitrary: t) (simp_all add: record_all_def)

lemma record_run_True:
  assumes "True \<in> set (record_run t ts)"
  shows "\<exists>pre now post. ts = pre @ now # post \<and> snd (record_reset (record_all t pre) now)"
  using assms
proof (induction ts arbitrary: t)
  case (Cons x ts)
  show ?case
  proof (cases "snd (record_reset t x)")
    case True
    then show ?thesis by (intro exI [of _ "[]"] exI [of _ x] exI [of _ ts]) (simp add: record_all_def)
  next
    case False
    with Cons obtain pre now post where p: "ts = pre @ now # post"
      "snd (record_reset (record_all (fst (record_reset t x)) pre) now)" by fastforce
    then have "x # ts = (x # pre) @ now # post \<and> snd (record_reset (record_all t (x # pre)) now)"
      by (simp add: record_all_def)
    then show ?thesis by blast
  qed
qed simp

lemma sorted_filter_le: "sorted ts \<Longrightarrow> filter (\<lambda>x. x \<le> (b :: nat)) ts = takeWhile (\<lambda>x. x \<le> b) ts"
proof (induction ts)
  case (Cons x ts)
  then show ?case by (cases ts) auto
qed simp

lemma sorted_filter_ge: "sorted ts \<Longrightarrow> filter (\<lambda>x. (a :: nat) \<le> x) ts = dropWhile (\<lambda>x. x < a) ts"
proof (induction ts)
  case (Cons x ts)
  then show ?case by (cases ts) auto
qed simp

lemma sorted_window:
  assumes "sorted (ts :: nat list)"
  shows "\<exists>pre post. ts = pre @ filter (\<lambda>x. a \<le> x \<and> x \<le> b) ts @ post"
proof -
  let ?hi = "dropWhile (\<lambda>x. x < a) ts"
  have hi: "filter (\<lambda>x. a \<le> x) ts = ?hi" using assms by (rule sorted_filter_ge)
  then have "sorted ?hi" using assms by (metis sorted_wrt_filter)
  then have "filter (\<lambda>x. a \<le> x \<and> x \<le> b) ts = takeWhile (\<lambda>x. x \<le> b) ?hi"
    using sorted_filter_le [of ?hi b] hi by (metis (no_types, lifting) filter_cong filter_filter)
  then have "ts = takeWhile (\<lambda>x. x < a) ts @ filter (\<lambda>x. a \<le> x \<and> x \<le> b) ts @ dropWhile (\<lambda>x. x \<le> b) ?hi"
    by simp
  then show ?thesis by blast
qed

text \<open>
  C22. The reset budget of an HTTP/2 connection ends floods and only floods. If the connection is shut
  down for it, then at some reset more than \<open>count\<close> requests had been dropped within the last window;
  and it is shut down whenever more than twice \<open>count\<close> requests are dropped within one window, at
  whatever time. Requests that were answered never count.
\<close>

theorem h2_flood_terminated:
  assumes "sorted (t0 # drop_times evs)" "length evs < 2 ^ 64"
    and "window = from_secs (unat (rr_window_seconds rr))"
  shows "(h2_kill (h2_streams (h2_open rr t0) evs) \<longrightarrow>
      (\<exists>pre now post. drop_times evs = pre @ now # post
         \<and> unat (rr_count rr) < length (filter (\<lambda>x. now - window \<le> x) (pre @ [now]))))
    \<and> (2 * unat (rr_count rr) < length (filter (\<lambda>x. a \<le> x \<and> x \<le> a + window) (drop_times evs))
       \<longrightarrow> h2_kill (h2_streams (h2_open rr t0) evs))"
proof (intro conjI impI)
  let ?t = "tracker_new (rr_count rr) window t0"
  have kill: "h2_kill (h2_streams (h2_open rr t0) evs) \<longleftrightarrow> True \<in> set (record_run ?t (drop_times evs))"
    using assms(3) by (simp add: h2_streams_kill h2_open_def)
  have len: "length (drop_times evs) \<le> length evs" by (simp add: drop_times_def)
  {
    assume "h2_kill (h2_streams (h2_open rr t0) evs)"
    then obtain pre now post where p: "drop_times evs = pre @ now # post"
      "snd (record_reset (record_all ?t pre) now)" unfolding kill by (blast dest: record_run_True)
    have "sorted (t0 # pre @ [now])" "length pre + 1 < 2 ^ 64"
      using assms(1,2) len p(1) by (auto simp: sorted_append)
    from reported_is_flood [OF this p(2)] p(1)
    show "\<exists>pre now post. drop_times evs = pre @ now # post
        \<and> unat (rr_count rr) < length (filter (\<lambda>x. now - window \<le> x) (pre @ [now]))" by blast
  next
    let ?burst = "filter (\<lambda>x. a \<le> x \<and> x \<le> a + window) (drop_times evs)"
    assume many: "2 * unat (rr_count rr) < length ?burst"
    have sorted: "sorted (drop_times evs)" using assms(1) by simp
    then obtain pre post where p: "drop_times evs = pre @ ?burst @ post" using sorted_window by blast
    let ?u = "record_all ?t pre"
    have lens: "length pre + length ?burst < 2 ^ 64"
      using assms(2) len arg_cong [OF p, of length] by (simp only: length_append)
    have "sorted (t0 # pre @ ?burst @ post)" using assms(1) p by simp
    then have "sorted (t0 # pre)" by (auto simp: sorted_append)
    moreover have "length pre < 2 ^ 64" using lens by linarith
    ultimately have pre: "sorted (t0 # pre)" "length pre < 2 ^ 64" by simp_all
    from record_all_counts [OF pre refl, of "rr_count rr" window]
    have u: "rt_max ?u = rr_count rr" "rt_window ?u = window" "unat (tracker_current ?u) \<le> length pre"
      using length_filter_le order.trans by blast+
    have "True \<in> set (record_run ?u ?burst)"
    proof (rule burst_detected)
      show "sorted ?burst" using sorted by (rule sorted_wrt_filter)
      show "unat (tracker_current ?u) + length ?burst < 2 ^ 64"
        using u(3) lens by linarith
    qed (use u many in auto)
    then show "h2_kill (h2_streams (h2_open rr t0) evs)"
      unfolding kill by (subst p) (simp only: record_run_append set_append Un_iff simp_thms)
  }
qed

theorem h2_flood_terminated_witness:
  "h2_kill (h2_streams (h2_open \<lparr>rr_count = 1, rr_window_seconds = 1\<rparr> 0) [(False, 5), (True, 6), (False, 7), (False, 8)])"
proof -
  let ?evs = "[(False, 5), (True, 6), (False, 7), (False, 8)] :: (bool \<times> instant) list"
  have d: "drop_times ?evs = [5, 7, 8]" by (simp add: drop_times_def)
  have "2 * unat (rr_count \<lparr>rr_count = 1, rr_window_seconds = 1\<rparr>)
      < length (filter (\<lambda>x. 5 \<le> x \<and> x \<le> 5 + from_secs 1) (drop_times ?evs))"
    unfolding d by (simp add: from_secs_def)
  with h2_flood_terminated [of 0 ?evs "from_secs 1" "\<lparr>rr_count = 1, rr_window_seconds = 1\<rparr>" 5]
  show ?thesis by (simp add: d)
qed

end
