(* ===== verification/Flexd_Answers.thy ===== *)
theory Flexd_Answers
  imports Flexd_Pipeline
begin

text \<open>
  \<^verbatim>\<open>handler.rs\<close>, the entry points: that no request is dropped silently. On every branch a request is answered,
  and one line is logged that names the answer it got.
\<close>

section \<open>No branch panics\<close>

text \<open>The rewrites of a path stay within ASCII.\<close>

definition ascii_rewrites :: "ext \<Rightarrow> 'c handler_service \<Rightarrow> string \<Rightarrow> bool" where
  "ascii_rewrites X h path \<longleftrightarrow>
     (\<forall>(re, replacement, flag)\<in>set (hs_rewriter h).
        re_is_match X re path \<longrightarrow> list_all is_ascii (re_replace X re path replacement))"

lemma security_checks_answers:
  "list_all is_ascii (uri_path (rq_uri req)) \<Longrightarrow> security_checks X h req \<noteq> Panic"
  using validate_uri_no_panic [of "uri_path (rq_uri req)" "x_lower X"]
  by (auto simp: security_checks_def split: option.split outcome.split)

lemma rewrite_apply_ascii:
  assumes "rewrite_apply X rules path = Some (Internal new_path)"
    and "\<forall>(re, replacement, flag)\<in>set rules. re_is_match X re path \<longrightarrow> list_all is_ascii (re_replace X re path replacement)"
  shows "list_all is_ascii new_path"
  using assms by (induction X rules path rule: rewrite_apply.induct) (auto simp: Let_def split: if_splits)

lemma apply_rewrites_answers: "ascii_rewrites X h (uri_path (rq_uri req)) \<Longrightarrow> apply_rewrites X h req \<noteq> Panic"
  using rewrite_apply_ascii [of X "hs_rewriter h" "uri_path (rq_uri req)"] validate_uri_no_panic [of _ "x_lower X"]
  by (auto simp: apply_rewrites_def ascii_rewrites_def Let_def
      split: option.split rewrite_action.split outcome.split sum.split)

lemma maybe_decompress_uri: "maybe_decompress X h req = Inr req' \<Longrightarrow> rq_uri req' = rq_uri req"
  by (auto simp: maybe_decompress_def Let_def split: if_splits option.splits)

lemma process_answers:
  assumes "list_all is_ascii (uri_path (rq_uri req))" "ascii_rewrites X h (uri_path (rq_uri req))"
  shows "snd (process X E h req remote) \<noteq> Panic"
proof -
  have "apply_rewrites X h req' \<noteq> Panic" if "maybe_decompress X h req = Inr req'" for req'
    using apply_rewrites_answers [of X h req'] maybe_decompress_uri [OF that] assms(2) by simp
  moreover have "snd (route_request X E h path req' remote) \<noteq> Panic" for path req'
    by (simp add: route_request_def Let_def split: prod.split sum.split)
  ultimately show ?thesis
    using security_checks_answers [OF assms(1), of X h]
    by (auto simp: process_def split: outcome.split sum.split prod.split)
qed

section \<open>The log\<close>

lemma service_moves_logger: "service_moves X h h' \<Longrightarrow> hs_access_logger h' = hs_access_logger h"
  by (auto simp: service_moves_def)

lemma collected_answers:
  assumes "list_all is_ascii (uri_path (rq_uri req))" "ascii_rewrites X h (uri_path (rq_uri req))"
  shows "\<exists>h' resp. handle_collected X E h req remote = (h', Some resp) \<and> hs_access_logger h' = hs_access_logger h"
  using process_answers [OF assms, of E remote] service_moves_logger [OF process_moves [of X h E req remote]]
  by (auto simp: handle_collected_def split: prod.split outcome.split)

lemma connect_logger: "hs_access_logger (fst (handle_connect X E h req)) = hs_access_logger h"
  by (auto simp: handle_connect_def connect_addresses_def split: option.split prod.split)

text \<open>One line more, about this response.\<close>

definition logged ::
  "ext \<Rightarrow> env \<Rightarrow> 'c handler_service \<Rightarrow> 'b request \<Rightarrow> socket_addr \<Rightarrow> string \<Rightarrow> 'c handler_service \<times> response option \<Rightarrow> bool" where
  "logged X E h req remote target hr \<longleftrightarrow>
     (\<exists>h' resp. hr = (h', Some resp)
        \<and> al_file (hs_access_logger h') =
            map_option (\<lambda>lines. lines @
              [log_entry (e_timestamp E) (show_ip X (fst remote)) (rq_method req) target (rs_status resp)
                 (length (rs_body resp)) (user_agent_of X (rq_headers req))])
              (al_file (hs_access_logger h)))"

lemma answer_logged:
  assumes "hs_access_logger h1 = hs_access_logger h"
  shows "logged X E h req remote target
    (answer X E remote (rq_method req) target (user_agent_of X (rq_headers req)) (h1, Some resp))"
  using assms by (simp add: logged_def answer_def log_request_def logger_log_def split: option.split)

lemma collected_logged:
  assumes "list_all is_ascii (uri_path (rq_uri req))" "ascii_rewrites X h (uri_path (rq_uri req))"
    and "rq_uri req' = rq_uri req"
  shows "logged X E h req remote target
    (answer X E remote (rq_method req) target (user_agent_of X (rq_headers req)) (handle_collected X E h req' remote))"
proof -
  obtain h' resp where "handle_collected X E h req' remote = (h', Some resp)" "hs_access_logger h' = hs_access_logger h"
    using collected_answers [of req' X h E remote] assms by auto
  then show ?thesis by (simp add: answer_logged)
qed



end
