(* ===== verification/Spec2Isabelle.thy ===== *)
theory Spec2Isabelle
  imports Flexd_Program Server_Http2 Flexd_Answers
begin

text \<open>
  A verification of flexd, a hardened web server and reverse proxy in Rust (\<^verbatim>\<open>src/src\<close>).

  \<^bold>\<open>The program.\<close> \<^verbatim>\<open>main.rs\<close> loads and validates a configuration and runs \<^verbatim>\<open>Server\<close> (\<^verbatim>\<open>server.rs\<close>), which binds
  the sockets, drops privileges, obtains ACME certificates and runs one task per listener: HTTP over TCP or
  TLS, QUIC, TCP streams, mail. An HTTP connection hands its requests to the \<^verbatim>\<open>HandlerService\<close> of its server
  block (\<^verbatim>\<open>handler.rs\<close>): checks of the request, host policy, decompression, rewriting, routing, then a static
  file, a redirect, or a proxied request that fails over between the servers of a pool. Names are resolved
  through a cache that vets every address against the SSRF filter. Signals and renewals reload the
  configuration or the certificates while connections go on.

  \<^bold>\<open>The model.\<close> Structs are records, enums datatypes, functions HOL functions on explicit state; \<^verbatim>\<open>Result\<close> is
  a sum or option, a panic an outcome of its own; machine integers are words and wrap; strings are their
  UTF-8 bytes. Loops are structural or have a termination proof: there is no fuel. Interleaving is an
  inductive step relation (\<open>execution\<close>, \<open>live_step\<close>, \<open>server_step\<close>, \<open>conn_step\<close>, \<open>resolver_step\<close>, \<open>gauge_step\<close>); loops over \<^verbatim>\<open>select!\<close> are
  functions on events. In the first three a request is one step on its service; that requests overlap on the
  DNS cache, the gauges and the connection counter is what the other three are about. What the program calls but does not contain is an argument: \<open>ext\<close> (crates: header
  maps, regular expressions, CIDR networks, hashes, Unicode tables), \<open>env\<close> (file system, upstreams, name
  server, clock), \<open>os\<close>, \<open>posix\<close>, \<open>rustls_calls\<close>, \<open>ca\<close>, \<open>disk\<close>, \<open>loader\<close>. What is assumed of them is named
  (\<open>header_laws\<close>, \<open>limited_law\<close>, \<open>posix_laws\<close>) and has an instance.

  \<^bold>\<open>Theories and what they show.\<close>
  \<^item> \<open>Flexd_Prelude\<close>, \<open>Net_Addr\<close>, \<open>Flexd_Externs\<close>, \<open>Flexd_Http\<close>: integers, UTF-8, checks that stop at the first
    error, addresses and their parsers, header maps, messages, the environment.
  \<^item> \<open>Flexd_Interfaces\<close>: the contracts \<open>weighted_pick\<close> (balancer and A/B router) and \<open>capped_store\<close> (sticky
    sessions and DNS cache); \<open>Upstream_Filter\<close> has \<open>address_filter\<close>, \<open>Flexd_Acme\<close> \<open>answer_store\<close>. Each is
    interpreted on the model's own operations.
  \<^item> \<open>Flexd_Config\<close>, \<open>Config_Sound\<close> (\<^verbatim>\<open>config.rs\<close>): the schema and \<^verbatim>\<open>validate\<close>, and what a validated block
    guarantees to the service built from it.
  \<^item> \<open>Upstream_Filter\<close>, \<open>Uri_Validate\<close>, \<open>Host_Policy\<close>, \<open>Flexd_Headers\<close>, \<open>Rate_Limit\<close>, \<open>Flexd_Limits\<close>,
    \<open>Memory_Pressure\<close>, \<open>Flexd_Privilege\<close> (\<^verbatim>\<open>security/\<close>): the verdicts of the filter against a table of blocks, what an accepted
    path cannot contain, which headers survive, which reset bursts are reported, that the lock-free
    connection counter refines a counter of slots, that rounding does not show in the memory check, that a privilege drop is final.
  \<^item> \<open>Flexd_Balance\<close>, \<open>Ab_Split\<close>, \<open>Flexd_Rewrite\<close>, \<open>Pinning_Resolver\<close>, \<open>Static_File\<close>, \<open>Flexd_Logging\<close>,
    \<open>Flexd_Geoip\<close>, \<open>Flexd_Proxy\<close> (the files of the same names, \<^verbatim>\<open>absplit.rs\<close>, \<^verbatim>\<open>resolver.rs\<close>): fairness and
    completeness of the orders, shares of a split, vetting and pinning under interleaving, containment of
    served files, what upstreams and clients see.
  \<^item> \<open>Flexd_Handler\<close>, \<open>Flexd_Pipeline\<close>, \<open>Flexd_Answers\<close> (\<^verbatim>\<open>handler.rs\<close>): the whole pipeline as state passing;
    rejection before effects, routing, fail-over, tunnels, decompression, response headers, and that every
    request is answered and logged.
  \<^item> \<open>Flexd_Acme\<close>, \<open>Flexd_Tls\<close>, \<open>Acme_Issue\<close> (\<^verbatim>\<open>acme.rs\<close>, \<^verbatim>\<open>tls.rs\<close>): challenges, certificates and acceptors, an
    issuance attempt with the disk as state, the retries: bounded, and what they leave on disk.
  \<^item> \<open>Bare_Lf\<close>, \<open>Mail_Session\<close>, \<open>Stream_Proxy\<close> (\<^verbatim>\<open>server.rs\<close>): the peek at plain connections loses nothing; the
    mail stub acknowledges nothing it does not do; a stream goes to the first server that accepts.
  \<^item> \<open>Server_Accept\<close>, \<open>Server_Quic\<close>, \<open>Server_Http2\<close>, \<open>Server_State\<close>, \<open>Server_Conns\<close>,
    \<open>Server_Shape\<close> (\<^verbatim>\<open>server.rs\<close>): the accept loops, HTTP/3 bodies, the HTTP/2 reset budget, and the running
    server as a whole: the connection cap, one generation of the configuration per connection, when a TLS
    listener talks TLS and when it does not, what its services keep.
  \<^item> \<open>Server_Run\<close> (\<^verbatim>\<open>Server::run\<close>): startup as a trace; sockets, then the drop, then service; certificates
    before TLS; everything served on success. \<open>Server_Control\<close> (\<^verbatim>\<open>Config::load\<close>, signals, renewal, \<^verbatim>\<open>main.rs\<close>):
    only validated configurations are in force, an announced renewal has happened.
  \<^item> \<open>Server_Live\<close>, \<open>Server_Delivery\<close>, \<open>Server_Boot\<close>, \<open>Server_Reload\<close> (\<^verbatim>\<open>server.rs\<close>): all tasks of a running server
    with the two broadcast channels and the shared configuration, and \<open>execution\<close>, the actions of \<^verbatim>\<open>run\<close>
    interleaved with the tasks it has spawned so far. The contract \<open>message_loop\<close>, interpreted on the TCP and
    the QUIC loops, carries the invariants; reloads reach every listener, a shutdown completes, a renewed
    certificate is served, and an execution refines \<open>server_step\<close>. How many messages a receive leaves
    (\<open>rest\<close>) is a parameter, assumed to be fewer than there were. What an issuance during startup leaves on the
    disk is left open in an execution (\<open>Server_Run\<close> and \<open>Acme_Issue\<close> have it).
  \<^item> \<open>Flexd_Program\<close>: \<^verbatim>\<open>main\<close>, startup and tasks together: every service comes from a validated configuration
    and is well-formed, nothing is served with privileges, and why a site with ACME cannot be reloaded.
  \<^item> This theory: the SSRF filter and the tunnel rules for every request in every state of an execution, from
    the parts above.

  \<^bold>\<open>Bounds.\<close> Theorems about counters assume fewer than \<open>2 ^ 64\<close> threads, resets or entries, where the word
  would wrap; the one about doubles at most \<open>2 ^ 50\<close> KiB of memory, where conversions are exact. Issuance makes at most five attempts, as the code does.

  \<^bold>\<open>Not modelled.\<close> The bytes of HTTP/1, HTTP/2, TLS and QUIC (hyper, rustls, quinn, h3), the copying of
  streams and tunnels, serde, clap and tracing; poisoning of mutexes; overflow panics of debug builds;
  overflow of \<^verbatim>\<open>Instant\<close> arithmetic; module declarations. What else is left of the sources is tests,
  comments and derived implementations.
\<close>

section \<open>Requests to a running server\<close>

lemma made_same:
  assumes "made X h" "allowed = hb_upstream_allowed_networks (hs_http_block h)"
    and "same_permitted X allowed (parse_networks X allowed) E E'"
  shows "process X E h req remote = process X E' h req remote"
proof -
  obtain ttl where r: "(resolver_step X)\<^sup>*\<^sup>* (resolver_new (parse_networks X allowed) ttl) (pc_resolver (hs_proxy h))"
    using made_resolver [OF assms(1)] assms(2) by blast
  have "vetted X (resolver_new (parse_networks X allowed) ttl)" by (simp add: vetted_def resolver_new_def)
  from resolver_steps_vetted [OF r this]
  have "vetted X (pc_resolver (hs_proxy h))" "pr_allowed (pc_resolver (hs_proxy h)) = parse_networks X allowed"
    by (simp_all add: resolver_new_def)
  with refused_upstreams_unreachable [of X h E E' req remote] assms(2,3) show ?thesis by simp
qed

lemma handle_collected_same:
  assumes "process X E h req remote = process X E' h req remote"
  shows "handle_collected X E h req remote = handle_collected X E' h req remote"
  by (simp add: handle_collected_def assms)

lemma answer_same:
  "e_timestamp E = e_timestamp E' \<Longrightarrow> answer X E remote m p ua hr = answer X E' remote m p ua hr"
  by (simp add: answer_def log_request_def split: prod.split option.split)

lemma with_store_block [simp]: "hs_http_block (with_store st h) = hs_http_block h"
  by (simp add: with_store_def)

lemma with_store_target [simp]:
  "connect_target_permitted (with_store st h) host port full = connect_target_permitted h host port full"
  unfolding connect_target_permitted_def with_store_block by (rule refl)


text \<open>
  C2. So do the rules for tunnels: when a service of a running server opens a tunnel for CONNECT, its block
  allows CONNECT, the authority has a host and a port on the configured list, the connection is to that
  port, and its address is outside the restricted ranges or in the block's networks, whatever the name
  server answered and whatever is cached.
\<close>

theorem server_tunnels_permitted:
  assumes "execution X rest cf su k s" "h \<in> services (lv_server s)"
    and "handle_connect X E (with_store st h) req = (h', resp, Some addr)"
  shows "hb_allow_connect (hs_http_block h)
    \<and> (\<exists>authority host. u_authority (rq_uri req) = Some authority
         \<and> split_host_port authority = (host, Some (snd addr))
         \<and> connect_target_permitted h host (snd addr) authority)
    \<and> (is_restricted (fst addr) \<longrightarrow>
         listed_in X (parse_networks X (hb_upstream_allowed_networks (hs_http_block h))) (fst addr))
    \<and> e_tcp E addr \<and> rs_status resp = 200"
proof -
  have "made X (with_store st h)" by (rule made_moved [OF execution_made [OF assms(1,2)] with_store_moved])
  from made_resolver [OF this] obtain ttl where r: "(resolver_step X)\<^sup>*\<^sup>*
      (resolver_new (parse_networks X (hb_upstream_allowed_networks (hs_http_block (with_store st h)))) ttl)
      (pc_resolver (hs_proxy (with_store st h)))" by blast
  from tunnel_permitted [OF assms(3) r refl] show ?thesis by simp
qed

text \<open>A program that has spawned one listener, for the witnesses: its block proxies nothing, or allows tunnels.\<close>

definition sample_live :: "http_block \<Rightarrow> nat live" where
  "sample_live hb = (live_start (plain_config hb) sample_disk)
     \<lparr>lv_server := server_init [sample_listener hb] [], lv_boxes := [subscribed]\<rparr>"

definition sample_startup :: "http_block \<Rightarrow> nat startup" where
  "sample_startup hb = (run_start (plain_config hb) root_creds sample_disk)
     \<lparr>su_trace := [SpawnHttp (any_addr 443) 0 True False]\<rparr>"

lemma sample_live_execution: "execution sample_ext rest (plain_config hb) (sample_startup hb) 1 (sample_live hb)"
proof -
  have "timeouts_of (plain_config hb) = default_timeouts" "cf_http (plain_config hb) = [hb]"
    by (simp_all add: timeouts_of_def plain_config_def)
  then have "fold (spawn_task sample_ext sample_surroundings Q sample_disk (plain_config hb) M)
      (su_trace (sample_startup hb)) (live_start (plain_config hb) sample_disk) = sample_live hb" for Q M
    by (simp add: sample_startup_def spawn_task_def spawn_http_def nth_opt_def sample_start sample_live_def
        live_start_def server_init_def)
  with execution_undisturbed [OF refl, of sample_ext rest "plain_config hb" "sample_startup hb" sample_surroundings
      _ sample_disk] show ?thesis by (simp add: sample_startup_def)
qed

lemma sample_service: "ln_handlers (sample_listener hb) ! 0 \<in> services (lv_server (sample_live hb))"
  using nth_mem [of 0 "ln_handlers (sample_listener hb)"]
  by (simp add: services_def sample_live_def server_init_def sample_listener_fields)


theorem server_tunnels_permitted_witness:
  "\<exists>h' resp. handle_connect sample_ext sample_env
       (with_store challenge_store_new (ln_handlers (sample_listener tunnel_block) ! 0)) connect_request
       = (h', resp, Some (V4 (Ipv4 127 0 0 1), 443))
     \<and> listed_in sample_ext [IpNetwork ''127.0.0.0/8''] (V4 (Ipv4 127 0 0 1))"
proof -
  let ?h = "ln_handlers (sample_listener tunnel_block) ! 0"
  have n: "parse_networks sample_ext (hb_upstream_allowed_networks (hs_http_block ?h)) = [IpNetwork ''127.0.0.0/8'']"
    "pc_resolver (hs_proxy (with_store challenge_store_new ?h)) = resolver_new [IpNetwork ''127.0.0.0/8''] (from_secs 30)"
    "hs_http_block (with_store challenge_store_new ?h) = tunnel_block"
    by (simp_all add: sample_listener_def accept_start_def build_logger_def logger_new_def sample_surroundings_def
        with_store_def tunnel_block_def handler_new_def sample_block_def default_http_block_def
        parse_networks_def map_filter_def parse_network_def sample_ext_def proxy_client_new_def)
  from sample_tunnel [OF n(3,2)] obtain h' resp where
    t: "handle_connect sample_ext sample_env (with_store challenge_store_new ?h) connect_request
      = (h', resp, Some (V4 (Ipv4 127 0 0 1), 443))" by blast
  have "is_restricted (V4 (Ipv4 127 0 0 1))" by code_simp
  with server_tunnels_permitted [OF sample_live_execution sample_service t] n(1) t
  show ?thesis by simp
qed

end
